(* ===== verification/Prelude.thy ===== *)
theory Prelude
  imports Main "HOL-Library.Word"
begin

text \<open>
  Shared vocabulary of the development: the machine types of the C++ sources
  (\<open>std::uint8_t\<close> ... \<open>std::uint64_t\<close> as words, byte buffers as lists of
  8-bit words, \<open>std::size_t\<close> counts as \<open>nat\<close>), the conversion between
  \<open>std::string\<close> bytes and characters, buffer slices, and the generic lemmas on
  words and lists that the components use.
\<close>

unbundle bit_operations_syntax

type_synonym u8 = "8 word"
type_synonym u16 = "16 word"
type_synonym u32 = "32 word"
type_synonym u64 = "64 word"
type_synonym bytes = "u8 list"

text \<open>Time points of \<open>std::chrono::steady_clock\<close>, in nanoseconds.\<close>

type_synonym time = int

abbreviation seconds :: "int \<Rightarrow> time" where
  "seconds n \<equiv> n * 1000000000"

abbreviation milliseconds :: "int \<Rightarrow> time" where
  "milliseconds n \<equiv> n * 1000000"

abbreviation microseconds :: "int \<Rightarrow> time" where
  "microseconds n \<equiv> n * 1000"

text \<open>
  The exceptions the sources throw, by class and message. A function that may throw
  returns \<open>Inl\<close> of the exception or \<open>Inr\<close> of its result.
\<close>

datatype error =
    Runtime_error string
  | Invalid_argument string
  | Out_of_range string

type_synonym 'a result = "error + 'a"

named_theorems wire_simps \<open>round trips and lengths of the wire encoders\<close>

subsection \<open>Slices of byte buffers\<close>

text \<open>\<open>slice at n xs\<close> is the range of \<open>n\<close> elements starting at index \<open>at\<close>.\<close>

definition slice :: "nat \<Rightarrow> nat \<Rightarrow> 'a list \<Rightarrow> 'a list" where
  "slice at n xs = take n (drop at xs)"

lemma length_slice [simp]: "length (slice at n xs) = min n (length xs - at)"
  by (simp add: slice_def)

lemma slice_0 [simp]: "slice 0 n xs = take n xs"
  by (simp add: slice_def)

lemma slice_append_left [simp]:
  "at + n \<le> length xs \<Longrightarrow> slice at n (xs @ ys) = slice at n xs"
  by (simp add: slice_def)

lemma slice_append_right [simp]:
  "length xs \<le> at \<Longrightarrow> slice at n (xs @ ys) = slice (at - length xs) n ys"
  by (simp add: slice_def)

lemma slice_all [simp]: "length xs \<le> n \<Longrightarrow> slice 0 n xs = xs"
  by (simp add: slice_def)

lemma slice_code: "slice at n xs = (if n = 0 then [] else take n (drop at xs))"
  by (simp add: slice_def)

lemma nth_slice [simp]: "i < n \<Longrightarrow> at + i < length xs \<Longrightarrow> slice at n xs ! i = xs ! (at + i)"
  by (simp add: slice_def)

lemma take_slice_drop: "at + n \<le> length xs \<Longrightarrow> take at xs @ slice at n xs @ drop (at + n) xs = xs"
  by (metis append_take_drop_id drop_drop slice_def add.commute)

subsection \<open>Characters and bytes\<close>

definition byte_of_char :: "char \<Rightarrow> u8" where
  "byte_of_char c = of_nat (of_char c)"

definition char_of_byte :: "u8 \<Rightarrow> char" where
  "char_of_byte b = char_of (unat b)"

lemma unat_byte_of_char: "unat (byte_of_char c) = of_char c"
proof -
  have "(of_char c :: nat) < 2 ^ 8"
    by simp
  then show ?thesis
    by (simp add: byte_of_char_def unat_of_nat take_bit_nat_eq_self)
qed

lemma char_of_byte_of_char [simp]: "char_of_byte (byte_of_char c) = c"
  by (simp add: char_of_byte_def unat_byte_of_char)

lemma byte_of_char_of_byte [simp]: "byte_of_char (char_of_byte b) = b"
proof -
  have "unat b < 256"
    using unsigned_less [of b, where ?'a = nat] by simp
  then show ?thesis
    by (simp add: byte_of_char_def char_of_byte_def)
qed

lemma byte_of_char_eq_iff [simp]: "byte_of_char c = byte_of_char d \<longleftrightarrow> c = d"
  by (metis char_of_byte_of_char)

abbreviation bytes_of_string :: "string \<Rightarrow> bytes" where
  "bytes_of_string s \<equiv> map byte_of_char s"

abbreviation string_of_bytes :: "bytes \<Rightarrow> string" where
  "string_of_bytes b \<equiv> map char_of_byte b"

lemma string_of_bytes_of_string [simp]: "string_of_bytes (bytes_of_string s) = s"
  by (simp add: comp_def)

lemma bytes_of_string_of_bytes [simp]: "bytes_of_string (string_of_bytes b) = b"
  by (simp add: comp_def)

lemma unat_numeral_8: "unat (0x7f :: u8) = 0x7f"
  by simp

end
