(* ===== verification/Wire.thy ===== *)
theory Wire
  imports Prelude
begin

text \<open>
  The fixed-width integer codecs of \<open>src/wire.hpp\<close> and the little-endian lane
  accessors of \<open>src/ascon.hpp\<close>. A C++ \<open>load\<close> reads the bytes at a pointer: here
  it is applied to the buffer from that pointer on. A C++ \<open>store\<close> writes a fixed
  number of bytes: here it returns exactly those bytes.
\<close>

subsection \<open>Big-endian words\<close>

definition be_step :: "u64 \<Rightarrow> u8 \<Rightarrow> u64" where
  "be_step value b = (push_bit 8 value OR ucast b)"

definition load_be64 :: "bytes \<Rightarrow> u64" where
  "load_be64 data = foldl be_step 0 (take 8 data)"

fun store_be_loop :: "nat \<Rightarrow> u64 \<Rightarrow> bytes \<Rightarrow> bytes" where
  "store_be_loop 0 value acc = acc"
| "store_be_loop (Suc i) value acc =
     store_be_loop i (drop_bit 8 value) (ucast (value AND 0xff) # acc)"

definition store_be64 :: "u64 \<Rightarrow> bytes" where
  "store_be64 value = store_be_loop 8 value []"

definition store_be16 :: "u16 \<Rightarrow> bytes" where
  "store_be16 value = [ucast (drop_bit 8 value AND 0xff), ucast (value AND 0xff)]"

definition load_be16 :: "bytes \<Rightarrow> u16" where
  "load_be16 data = (push_bit 8 (ucast (data ! 0)) OR ucast (data ! 1))"

definition load_be32 :: "bytes \<Rightarrow> u32" where
  "load_be32 data =
     (push_bit 24 (ucast (data ! 0)) OR push_bit 16 (ucast (data ! 1)) OR
      push_bit 8 (ucast (data ! 2)) OR ucast (data ! 3))"

definition store_be32 :: "u32 \<Rightarrow> bytes" where
  "store_be32 value =
     [ucast (drop_bit 24 value AND 0xff), ucast (drop_bit 16 value AND 0xff),
      ucast (drop_bit 8 value AND 0xff), ucast (value AND 0xff)]"

subsection \<open>Little-endian lanes\<close>

text \<open>
  \<open>std::memcpy\<close> of eight bytes into a 64-bit integer on a little-endian machine,
  or the byte swap after it on a big-endian one: byte \<open>i\<close> has weight \<open>2 ^ (8 * i)\<close>.
\<close>

definition load_le64 :: "bytes \<Rightarrow> u64" where
  "load_le64 p = foldl be_step 0 (rev (take 8 p))"

definition store_le64 :: "u64 \<Rightarrow> bytes" where
  "store_le64 x = rev (store_be_loop 8 x [])"

subsection \<open>Lengths\<close>

lemma length_store_be_loop: "length (store_be_loop n v acc) = n + length acc"
  by (induction n arbitrary: v acc) simp_all

lemma length_store_be64 [simp, wire_simps]: "length (store_be64 v) = 8"
  by (simp add: store_be64_def length_store_be_loop)

lemma length_store_be32 [simp, wire_simps]: "length (store_be32 v) = 4"
  by (simp add: store_be32_def)

lemma length_store_be16 [simp, wire_simps]: "length (store_be16 v) = 2"
  by (simp add: store_be16_def)

lemma length_store_le64 [simp, wire_simps]: "length (store_le64 v) = 8"
  by (simp add: store_le64_def length_store_be_loop)

subsection \<open>Round trips\<close>

lemma bit_lt_16: "bit (w :: u16) n \<Longrightarrow> n < 16" and bit_lt_32: "bit (v :: u32) n \<Longrightarrow> n < 32"
  and bit_lt_8: "bit (b :: u8) n \<Longrightarrow> n < 8" and bit_lt_64: "bit (x :: u64) n \<Longrightarrow> n < 64"
  by (auto dest: bit_imp_le_length)

lemma take_bit_64 [simp]: "take_bit 64 (x :: u64) = x"
  by (rule bit_eqI) (auto simp: bit_simps)

lemma be_step_join:
  "be_step (push_bit (8 * n) x OR take_bit (8 * n) (drop_bit 8 v)) (ucast (v AND 0xff))
     = push_bit (8 * Suc n) x OR take_bit (8 * Suc n) v"
proof (rule bit_eqI)
  fix m
  assume "possible_bit TYPE(u64) m"
  have mask: "(0xff :: u64) = mask 8"
    by (simp add: mask_eq_exp_minus_1)
  show "bit (be_step (push_bit (8 * n) x OR take_bit (8 * n) (drop_bit 8 v)) (ucast (v AND 0xff))) m
      = bit (push_bit (8 * Suc n) x OR take_bit (8 * Suc n) v) m"
    unfolding be_step_def mask by (cases "m < 8") (auto simp: bit_simps dest: bit_lt_64)
qed

lemma foldl_be_step_store:
  "foldl be_step x (store_be_loop n v acc)
     = foldl be_step (push_bit (8 * n) x OR take_bit (8 * n) v) acc"
proof (induction n arbitrary: v acc)
  case 0
  then show ?case by simp
next
  case (Suc n)
  then show ?case by (simp only: store_be_loop.simps foldl.simps be_step_join)
qed

lemma load_store_be64_append [simp, wire_simps]: "load_be64 (store_be64 v @ rest) = v"
  by (simp add: load_be64_def foldl_be_step_store store_be64_def length_store_be_loop)

lemma load_store_be64 [simp, wire_simps]: "load_be64 (store_be64 v) = v"
  using load_store_be64_append [of v "[]"] by simp

lemma load_store_le64_append [simp, wire_simps]: "load_le64 (store_le64 v @ rest) = v"
  by (simp add: load_le64_def store_le64_def foldl_be_step_store length_store_be_loop)

lemma load_store_le64 [simp, wire_simps]: "load_le64 (store_le64 v) = v"
  using load_store_le64_append [of v "[]"] by simp

lemma be_step_low: "ucast (be_step x b AND 0xff) = b"
proof (rule bit_eqI)
  fix m
  assume "possible_bit TYPE(u8) m"
  have mask: "(0xff :: u64) = mask 8"
    by (simp add: mask_eq_exp_minus_1)
  show "bit (ucast (be_step x b AND 0xff) :: u8) m = bit b m"
    unfolding be_step_def mask by (auto simp: bit_simps dest: bit_imp_le_length)
qed

lemma be_step_high:
  assumes "x = take_bit 56 x"
  shows "drop_bit 8 (be_step x b) = x"
proof (rule bit_eqI)
  fix m
  assume "possible_bit TYPE(u64) m"
  have "bit x m \<Longrightarrow> m < 56"
    using assms by (metis bit_take_bit_iff)
  then show "bit (drop_bit 8 (be_step x b)) m = bit x m"
    unfolding be_step_def by (auto simp: bit_simps dest: bit_imp_le_length)
qed

lemma be_step_bound:
  assumes "x = take_bit (8 * n) x"
  shows "be_step x b = take_bit (8 * Suc n) (be_step x b)"
proof (rule bit_eqI)
  fix m
  assume "possible_bit TYPE(u64) m"
  have "bit x k \<Longrightarrow> k < 8 * n" for k
    using assms by (metis bit_take_bit_iff)
  from this [of "m - 8"] show "bit (be_step x b) m = bit (take_bit (8 * Suc n) (be_step x b)) m"
    unfolding be_step_def by (auto simp: bit_simps dest: bit_imp_le_length)
qed

lemma foldl_be_step_bound: "foldl be_step 0 bs = take_bit (8 * length bs) (foldl be_step 0 bs)"
proof (induction bs rule: rev_induct)
  case Nil
  then show ?case by simp
next
  case (snoc b bs)
  from be_step_bound [OF snoc] show ?case by simp
qed

lemma store_be_loop_foldl:
  "length bs \<le> 8 \<Longrightarrow> store_be_loop (length bs) (foldl be_step 0 bs) acc = bs @ acc"
proof (induction bs arbitrary: acc rule: rev_induct)
  case Nil
  then show ?case by simp
next
  case (snoc b bs)
  let ?x = "foldl be_step 0 bs"
  have "take_bit 56 (take_bit (8 * length bs) ?x) = take_bit (8 * length bs) ?x"
    using snoc.prems by (simp add: min_absorb2)
  then have "?x = take_bit 56 ?x"
    by (simp only: foldl_be_step_bound [of bs, symmetric])
  then show ?case
    using snoc by (simp add: be_step_low be_step_high)
qed

lemma store_load_be64: "length bs = 8 \<Longrightarrow> store_be64 (load_be64 bs) = bs"
  using store_be_loop_foldl [of bs "[]"] by (simp add: store_be64_def load_be64_def)

lemma store_load_le64: "length bs = 8 \<Longrightarrow> store_le64 (load_le64 bs) = bs"
  using store_be_loop_foldl [of "rev bs" "[]"] by (simp add: store_le64_def load_le64_def)

lemma mask8: "(0xff :: u16) = mask 8" "(0xff :: u32) = mask 8" "(0xff :: u64) = mask 8"
  by (simp_all add: mask_eq_exp_minus_1)

lemma load_store_be16 [simp, wire_simps]: "load_be16 (store_be16 v @ rest) = v"
proof (rule bit_eqI)
  fix m
  assume "possible_bit TYPE(u16) m"
  then have "m < 16" by (simp add: possible_bit_def)
  then show "bit (load_be16 (store_be16 v @ rest)) m = bit v m"
    unfolding load_be16_def store_be16_def mask8
    by (cases "m < 8") (auto simp: bit_simps)
qed

lemma load_store_be32 [simp, wire_simps]: "load_be32 (store_be32 v @ rest) = v"
proof (rule bit_eqI)
  fix m
  assume "possible_bit TYPE(u32) m"
  then have "m < 32" by (simp add: possible_bit_def)
  then consider "m < 8" | "8 \<le> m" "m < 16" | "16 \<le> m" "m < 24" | "24 \<le> m" "m < 32"
    by linarith
  then show "bit (load_be32 (store_be32 v @ rest)) m = bit v m"
    unfolding load_be32_def store_be32_def mask8
    by cases (auto simp: bit_simps)
qed

lemma list_2E:
  assumes "length bs = 2"
  obtains a b where "bs = [a, b]"
  using assms by (cases bs; cases "tl bs") auto

lemma list_4E:
  assumes "length bs = 4"
  obtains a b c d where "bs = [a, b, c, d]"
  using assms by (auto simp: numeral_eq_Suc length_Suc_conv)

lemma store_load_be16: "length bs = 2 \<Longrightarrow> store_be16 (load_be16 bs) = bs"
proof (erule list_2E)
  fix a b
  assume bs: "bs = [a, b]"
  have "ucast (drop_bit 8 (push_bit 8 (ucast a) OR ucast b :: u16) AND mask 8) = a"
    by (rule bit_eqI) (auto simp: bit_simps dest: bit_lt_8)
  moreover have "ucast ((push_bit 8 (ucast a) OR ucast b :: u16) AND mask 8) = b"
    by (rule bit_eqI) (auto simp: bit_simps dest: bit_lt_8)
  ultimately show ?thesis
    by (simp add: bs store_be16_def load_be16_def mask8)
qed

lemma store_load_be32: "length bs = 4 \<Longrightarrow> store_be32 (load_be32 bs) = bs"
proof (erule list_4E)
  fix a b c d
  assume bs: "bs = [a, b, c, d]"
  let ?v = "push_bit 24 (ucast a) OR push_bit 16 (ucast b) OR push_bit 8 (ucast c) OR ucast d :: u32"
  have "ucast (drop_bit 24 ?v AND mask 8) = a"
    by (rule bit_eqI) (auto simp: bit_simps dest: bit_lt_8)
  moreover have "ucast (drop_bit 16 ?v AND mask 8) = b"
    by (rule bit_eqI) (auto simp: bit_simps dest: bit_lt_8)
  moreover have "ucast (drop_bit 8 ?v AND mask 8) = c"
    by (rule bit_eqI) (auto simp: bit_simps dest: bit_lt_8)
  moreover have "ucast (?v AND mask 8) = d"
    by (rule bit_eqI) (auto simp: bit_simps dest: bit_lt_8)
  ultimately show ?thesis
    by (simp add: bs store_be32_def load_be32_def mask8)
qed

subsection \<open>Slices as stored integers\<close>

lemma take_split: "take (a + b) xs = take a xs @ slice a b xs"
  by (simp add: slice_def take_add)

lemma take_1: "xs \<noteq> [] \<Longrightarrow> take 1 xs = [xs ! 0]"
  by (cases xs) auto

lemma stored_slices:
  "at + 8 \<le> length data \<Longrightarrow> store_be64 (load_be64 (drop at data)) = slice at 8 data"
  "at + 4 \<le> length data \<Longrightarrow> store_be32 (load_be32 (drop at data)) = slice at 4 data"
  "at + 2 \<le> length data \<Longrightarrow> store_be16 (load_be16 (drop at data)) = slice at 2 data"
proof -
  have "load_be64 (slice at 8 data) = load_be64 (drop at data)"
    by (simp add: load_be64_def slice_def)
  then show "at + 8 \<le> length data \<Longrightarrow> store_be64 (load_be64 (drop at data)) = slice at 8 data"
    using store_load_be64 [of "slice at 8 data"] by simp
  have "at + 4 \<le> length data \<Longrightarrow> load_be32 (slice at 4 data) = load_be32 (drop at data)"
    by (simp add: load_be32_def slice_def)
  then show "at + 4 \<le> length data \<Longrightarrow> store_be32 (load_be32 (drop at data)) = slice at 4 data"
    using store_load_be32 [of "slice at 4 data"] by simp
  have "at + 2 \<le> length data \<Longrightarrow> load_be16 (slice at 2 data) = load_be16 (drop at data)"
    by (simp add: load_be16_def slice_def)
  then show "at + 2 \<le> length data \<Longrightarrow> store_be16 (load_be16 (drop at data)) = slice at 2 data"
    using store_load_be16 [of "slice at 2 data"] by simp
qed

end
