(* ===== verification/Packet.thy ===== *)
theory Packet
  imports Wire
begin

text \<open>
  The logical packet of \<open>src/packet_types.hpp\<close> and the limits of
  \<open>src/protocol_constants.hpp\<close>. \<open>size_t\<close> values are natural numbers; the fields that
  have a width on the wire keep it.
\<close>

subsection \<open>Constants\<close>

definition protocol_version_v5 :: u8 where "protocol_version_v5 = 5"
definition protocol_header_v5_size :: nat where "protocol_header_v5_size = 25"
definition protocol_fragment_v5_size :: nat where "protocol_fragment_v5_size = 37"
definition min_transport_mtu :: nat where "min_transport_mtu = 500"
definition max_ip_packet_size :: nat where "max_ip_packet_size = 65535"
definition max_ipc_packet_size :: nat where "max_ipc_packet_size = max_ip_packet_size + 72 + 32"
definition udp_header_size :: nat where "udp_header_size = 8"
definition max_reassembly_entries :: nat where "max_reassembly_entries = 512"
definition max_reassembly_bytes :: nat where "max_reassembly_bytes = 16 * 1024 * 1024"
definition max_reassembly_discarded :: nat where "max_reassembly_discarded = 32768"
definition max_fragments_per_packet :: nat where "max_fragments_per_packet = 64"
definition max_ipc_fragments_per_packet :: nat where "max_ipc_fragments_per_packet = 256"
definition reassembly_timeout_seconds :: int where "reassembly_timeout_seconds = 3"

lemmas protocol_constants =
  protocol_version_v5_def protocol_header_v5_size_def protocol_fragment_v5_size_def
  min_transport_mtu_def max_ip_packet_size_def max_ipc_packet_size_def udp_header_size_def
  max_fragments_per_packet_def max_ipc_fragments_per_packet_def

subsection \<open>Packets\<close>

text \<open>The enumerators of \<open>PacketType\<close>, prefixed with \<open>pt_\<close>.\<close>

datatype packet_type =
    pt_hello | pt_keepalive | pt_data | pt_ping | pt_pong | pt_mtu_probe | pt_mtu_reply
  | pt_init | pt_response | pt_confirm | pt_confirm_ack | pt_ipc | pt_info
  | pt_control | pt_control_challenge
  | pt_auth_challenge | pt_auth_response | pt_auth_ok | pt_auth_failed
  | pt_relocate | pt_config | pt_relocate_bind | pt_relocate_ok

fun type_code :: "packet_type \<Rightarrow> u8" where
  "type_code pt_hello = 1"
| "type_code pt_keepalive = 2"
| "type_code pt_data = 3"
| "type_code pt_ping = 4"
| "type_code pt_pong = 5"
| "type_code pt_mtu_probe = 6"
| "type_code pt_mtu_reply = 7"
| "type_code pt_init = 8"
| "type_code pt_response = 9"
| "type_code pt_confirm = 10"
| "type_code pt_confirm_ack = 11"
| "type_code pt_ipc = 12"
| "type_code pt_info = 13"
| "type_code pt_control = 14"
| "type_code pt_control_challenge = 15"
| "type_code pt_auth_challenge = 16"
| "type_code pt_auth_response = 17"
| "type_code pt_auth_ok = 18"
| "type_code pt_auth_failed = 19"
| "type_code pt_relocate = 20"
| "type_code pt_config = 21"
| "type_code pt_relocate_bind = 22"
| "type_code pt_relocate_ok = 23"

text \<open>
  The cast of a wire code to \<open>PacketType\<close>. Codes without an enumerator give \<open>None\<close>;
  the code's \<open>switch\<close> sends them to its \<open>default\<close> branch.
\<close>

definition packet_types :: "packet_type list" where
  "packet_types =
    [pt_hello, pt_keepalive, pt_data, pt_ping, pt_pong, pt_mtu_probe, pt_mtu_reply, pt_init, pt_response, pt_confirm,
     pt_confirm_ack, pt_ipc, pt_info, pt_control, pt_control_challenge, pt_auth_challenge, pt_auth_response,
     pt_auth_ok, pt_auth_failed, pt_relocate, pt_config, pt_relocate_bind, pt_relocate_ok]"

definition packet_type_of :: "u8 \<Rightarrow> packet_type option" where
  "packet_type_of code = find (\<lambda>t. type_code t = code) packet_types"

record packet =
  pk_type :: packet_type
  pk_tunnel_id :: u16
  pk_protocol_version :: u8
  pk_sequence :: u64
  pk_message_id :: u64
  pk_fragment_offset :: u32
  pk_original_length :: u32
  pk_payload :: bytes

lemma packet_type_of_code [simp]: "packet_type_of (type_code t) = Some t"
  by (cases t) (simp_all add: packet_type_of_def packet_types_def)

lemma type_code_of: "packet_type_of c = Some t \<Longrightarrow> type_code t = c"
  unfolding packet_type_of_def by (auto simp: find_Some_iff)

lemma type_code_bound: "type_code t < 32"
  by (cases t) simp_all

lemma type_code_inject [simp]: "type_code a = type_code b \<longleftrightarrow> a = b"
  by (metis option.inject packet_type_of_code)

end
