(* ===== verification/Fragmentation.thy ===== *)
theory Fragmentation
  imports Packet
begin

text \<open>
  Splitting a logical packet into datagrams: \<open>make_fragment_plan\<close> and
  \<open>make_v5_fragment_plan\<close> of \<open>src/fragmentation.hpp\<close>, and the sizing and the
  fragment loop of \<open>Tunnel::send_data\<close> and \<open>Tunnel::maximum_fragment_payload\<close> in
  \<open>src/tunnel.hpp\<close>.
\<close>

record fragment_plan =
  plan_count :: nat
  plan_base_size :: nat
  plan_larger_fragments :: nat

definition make_fragment_plan :: "nat \<Rightarrow> nat \<Rightarrow> nat \<Rightarrow> fragment_plan result" where
  "make_fragment_plan packet_size maximum_fragment_payload limit =
     (if packet_size = 0 \<or> maximum_fragment_payload = 0
      then Inl (Runtime_error ''Invalid fragmentation parameters'')
      else let n = (packet_size + maximum_fragment_payload - 1) div maximum_fragment_payload
           in if n > limit
              then Inl (Runtime_error ''Packet requires too many transport fragments'')
              else Inr \<lparr>plan_count = n, plan_base_size = packet_size div n, plan_larger_fragments = packet_size mod n\<rparr>)"

definition make_v5_fragment_plan :: "nat \<Rightarrow> nat \<Rightarrow> fragment_plan result" where
  "make_v5_fragment_plan packet_size fragment_payload =
     (let extension = protocol_fragment_v5_size - protocol_header_v5_size
      in if fragment_payload = 0 \<or> fragment_payload > max_ip_packet_size \<or> packet_size > max_ip_packet_size
         then Inl (Runtime_error ''Invalid V5 fragmentation parameters'')
         else make_fragment_plan packet_size
                (if packet_size \<le> fragment_payload + extension then fragment_payload + extension
                 else fragment_payload)
                max_fragments_per_packet)"

subsection \<open>The transmit side of the tunnel\<close>

text \<open>\<open>outer\<close> is the IP header size of the UDP socket's address family.\<close>

definition maximum_fragment_payload :: "nat \<Rightarrow> bool \<Rightarrow> nat \<Rightarrow> nat result" where
  "maximum_fragment_payload outer relay_mode active_transport_mtu =
     (let overhead = outer + udp_header_size + protocol_fragment_v5_size + (if relay_mode then 4 else 0)
      in if active_transport_mtu \<le> overhead
         then Inl (Runtime_error ''Transport MTU is too small for tuntom V5'')
         else Inr (active_transport_mtu - overhead))"

definition send_size_limit :: "packet_type \<Rightarrow> nat \<Rightarrow> nat \<Rightarrow> nat" where
  "send_size_limit t maximum packet_size =
     (let extension = (if t = pt_ipc then 16 else 12)
      in if packet_size \<le> maximum + extension then maximum + extension else maximum)"

function fragment_loop ::
  "packet_type \<Rightarrow> u16 \<Rightarrow> u64 \<Rightarrow> bytes \<Rightarrow> fragment_plan \<Rightarrow> nat \<Rightarrow> nat \<Rightarrow> packet list" where
  "fragment_loop t tunnel msg logical plan index offset =
     (if index < plan_count plan then
        let fragment_size = plan_base_size plan + (if index < plan_larger_fragments plan then 1 else 0);
            fragment = \<lparr>pk_type = t, pk_tunnel_id = tunnel, pk_protocol_version = protocol_version_v5,
                        pk_sequence = 0, pk_message_id = msg,
                        pk_fragment_offset = of_nat offset,
                        pk_original_length = of_nat (length logical),
                        pk_payload = slice offset fragment_size logical\<rparr>
        in fragment # fragment_loop t tunnel msg logical plan (index + 1) (offset + fragment_size)
      else [])"
  by pat_completeness auto
termination
  by (relation "measure (\<lambda>(t, tunnel, msg, logical, plan, index, offset). plan_count plan - index)") auto

declare fragment_loop.simps [simp del]

text \<open>
  The fragments \<open>send_data\<close> builds for an accepted logical packet; the session assigns
  each its wire sequence when it encodes it.
\<close>

definition send_fragments ::
  "packet_type \<Rightarrow> u16 \<Rightarrow> u64 \<Rightarrow> nat \<Rightarrow> nat \<Rightarrow> bytes \<Rightarrow> packet list result" where
  "send_fragments t tunnel msg maximum limit logical =
     (case make_fragment_plan (length logical) (send_size_limit t maximum (length logical)) limit of
        Inl e \<Rightarrow> Inl e
      | Inr plan \<Rightarrow> Inr (fragment_loop t tunnel msg logical plan 0 0))"

subsection \<open>The plan is balanced, complete and within the limits\<close>

definition fragment_size :: "fragment_plan \<Rightarrow> nat \<Rightarrow> nat" where
  "fragment_size plan i = plan_base_size plan + (if i < plan_larger_fragments plan then 1 else 0)"

lemma sum_fragment_size:
  "(\<Sum>i<n. fragment_size plan i) = n * plan_base_size plan + min n (plan_larger_fragments plan)"
  by (induction n) (auto simp: fragment_size_def min_def)

lemma ceil_div_bounds:
  assumes "0 < s" "0 < (m :: nat)" "n = (s + m - 1) div m"
  shows "0 < n" "n \<le> s" "s \<le> n * m" "(n - 1) * m < s"
proof -
  obtain r where r: "n * m + r = s + m - 1" "r < m"
    using assms by (metis div_mult_mod_eq mod_less_divisor)
  then have le: "s \<le> n * m" and lt: "n * m < s + m"
    using assms by linarith+
  show pos: "0 < n"
    using le assms(1) by (cases n) auto
  show "s \<le> n * m"
    by (rule le)
  show less: "(n - 1) * m < s"
    using lt pos by (cases n) auto
  have "(n - 1) * 1 \<le> (n - 1) * m"
    using assms(2) by (intro mult_le_mono2) simp
  with less show "n \<le> s"
    by linarith
qed

lemma balanced_bounds:
  assumes "0 < (n :: nat)" "n \<le> s" "s \<le> n * m"
  shows "0 < s div n" "s div n + (if i < s mod n then 1 else 0) \<le> m"
proof -
  show "0 < s div n"
    using assms by (simp add: div_greater_zero_iff)
  have split: "s = s div n * n + s mod n"
    by simp
  show "s div n + (if i < s mod n then 1 else 0) \<le> m"
  proof (cases "s mod n = 0")
    case True
    then have "s div n * n \<le> m * n"
      using split assms(3) by (metis add.right_neutral mult.commute)
    then have "s div n \<le> m"
      using assms(1) by (rule mult_right_le_imp_le)
    with True show ?thesis by simp
  next
    case False
    then have "s div n * n < m * n"
      using split assms(3) by (metis add_lessD1 less_add_same_cancel1 less_le_trans mult.commute neq0_conv)
    then have "s div n < m"
      by simp
    then show ?thesis by simp
  qed
qed

lemma make_fragment_plan_ok:
  assumes "make_fragment_plan s m limit = Inr plan"
  shows "0 < s" "0 < m" "plan_count plan = (s + m - 1) div m" "plan_count plan \<le> limit"
    "plan_base_size plan = s div plan_count plan" "plan_larger_fragments plan = s mod plan_count plan"
  using assms by (auto simp: make_fragment_plan_def Let_def split: if_splits)

lemma make_fragment_plan_sizes:
  assumes "make_fragment_plan s m limit = Inr plan"
  shows "0 < plan_count plan" "(\<Sum>i<plan_count plan. fragment_size plan i) = s"
    "0 < fragment_size plan i" "fragment_size plan i \<le> m" "(plan_count plan - 1) * m < s"
proof -
  note ok = make_fragment_plan_ok [OF assms]
  note ceil = ceil_div_bounds [OF ok(1,2,3)]
  show "0 < plan_count plan" "(plan_count plan - 1) * m < s"
    by (rule ceil)+
  show "(\<Sum>i<plan_count plan. fragment_size plan i) = s"
    using ceil(1) by (simp add: sum_fragment_size ok(5,6) min_absorb2 less_imp_le)
  show "0 < fragment_size plan i" "fragment_size plan i \<le> m"
    using balanced_bounds(1) [OF ceil(1-3)] balanced_bounds(2) [OF ceil(1-3), of i]
    by (simp_all add: fragment_size_def ok(5,6))
qed


subsection \<open>The fragments of a packet\<close>

definition fragment_start :: "fragment_plan \<Rightarrow> nat \<Rightarrow> nat" where
  "fragment_start plan i = (\<Sum>j<i. fragment_size plan j)"

lemma fragment_start_simps [simp]:
  "fragment_start plan 0 = 0"
  "fragment_start plan (Suc i) = fragment_start plan i + fragment_size plan i"
  by (simp_all add: fragment_start_def)

definition plan_fragment ::
  "packet_type \<Rightarrow> u16 \<Rightarrow> u64 \<Rightarrow> bytes \<Rightarrow> fragment_plan \<Rightarrow> nat \<Rightarrow> packet" where
  "plan_fragment t tunnel msg logical plan i =
     \<lparr>pk_type = t, pk_tunnel_id = tunnel, pk_protocol_version = protocol_version_v5, pk_sequence = 0,
      pk_message_id = msg, pk_fragment_offset = of_nat (fragment_start plan i),
      pk_original_length = of_nat (length logical),
      pk_payload = slice (fragment_start plan i) (fragment_size plan i) logical\<rparr>"

lemma fragment_loop_eq:
  "index \<le> plan_count plan \<Longrightarrow> offset = fragment_start plan index \<Longrightarrow>
   fragment_loop t tunnel msg logical plan index offset
     = map (plan_fragment t tunnel msg logical plan) [index..<plan_count plan]"
proof (induction "plan_count plan - index" arbitrary: index offset)
  case 0
  then show ?case by (simp add: fragment_loop.simps)
next
  case (Suc n)
  then have "index < plan_count plan" by simp
  moreover have "fragment_loop t tunnel msg logical plan (Suc index) (fragment_start plan (Suc index))
      = map (plan_fragment t tunnel msg logical plan) [Suc index..<plan_count plan]"
    using Suc.hyps(1) [of "Suc index"] Suc.hyps(2) by simp
  ultimately show ?case
    unfolding fragment_loop.simps [of t tunnel msg logical plan index] Suc.prems(2)
    by (simp add: Let_def plan_fragment_def upt_conv_Cons flip: fragment_size_def)
qed

lemma send_fragments_ok:
  assumes "send_fragments t tunnel msg maximum limit logical = Inr frags"
  obtains plan where
    "make_fragment_plan (length logical) (send_size_limit t maximum (length logical)) limit = Inr plan"
    "frags = map (plan_fragment t tunnel msg logical plan) [0..<plan_count plan]"
proof -
  from assms obtain plan where plan:
    "make_fragment_plan (length logical) (send_size_limit t maximum (length logical)) limit = Inr plan"
    and "frags = fragment_loop t tunnel msg logical plan 0 0"
    by (auto simp: send_fragments_def split: sum.splits)
  then have "frags = map (plan_fragment t tunnel msg logical plan) [0..<plan_count plan]"
    by (simp add: fragment_loop_eq)
  with plan that show thesis by blast
qed

lemma fragment_start_bound:
  assumes "make_fragment_plan s m limit = Inr plan" "i < plan_count plan"
  shows "fragment_start plan i + fragment_size plan i \<le> s"
proof -
  have "fragment_start plan (Suc i) \<le> fragment_start plan (plan_count plan)"
    unfolding fragment_start_def using assms(2) by (intro sum_mono2) auto
  also have "\<dots> = s"
    using make_fragment_plan_sizes(2) [OF assms(1)] by (simp add: fragment_start_def)
  finally show ?thesis by simp
qed

lemma concat_slices:
  "concat (map (\<lambda>i. slice (fragment_start plan i) (fragment_size plan i) xs) [0..<n])
     = take (fragment_start plan n) xs"
  by (induction n) (simp_all add: slice_def take_add)

lemma concat_fragments:
  assumes "send_fragments t tunnel msg maximum limit logical = Inr frags"
  shows "concat (map pk_payload frags) = logical"
proof -
  from assms obtain plan where plan:
    "make_fragment_plan (length logical) (send_size_limit t maximum (length logical)) limit = Inr plan"
    and frags: "frags = map (plan_fragment t tunnel msg logical plan) [0..<plan_count plan]"
    by (rule send_fragments_ok)
  have "concat (map pk_payload frags)
      = concat (map (\<lambda>i. slice (fragment_start plan i) (fragment_size plan i) logical) [0..<plan_count plan])"
    by (simp add: frags plan_fragment_def comp_def)
  also have "\<dots> = logical"
    unfolding concat_slices using make_fragment_plan_sizes(2) [OF plan] by (simp add: fragment_start_def)
  finally show ?thesis .
qed

end
