(* ===== verification/Reassembly.thy ===== *)
theory Reassembly
  imports Fragmentation "HOL-Library.AList" "HOL-Library.Monad_Syntax"
begin

text \<open>
  The receive side of fragmentation: class \<open>Reassembler\<close> of \<open>src/reassembly.hpp\<close>.
  Hash maps are association lists, the intrusive lists of ids are lists; the caller
  passes the clock. An operation that would read through an invalid iterator or the
  front of an empty list has the result \<open>None\<close>: the invariant shows that this never
  happens. Allocation failure is not modelled.
\<close>

subsection \<open>State\<close>

record reassembly_metrics =
  active_entries :: nat
  active_bytes :: nat
  peak_entries :: nat
  peak_bytes :: nat
  discarded_ids :: nat
  completed_packets :: nat
  capacity_evictions :: nat
  expired_entries :: nat
  late_fragment_drops :: nat
  invalid_fragments :: nat
  overlap_drops :: nat
  capacity_drops :: nat
  discarded_id_evictions :: nat
  session_discarded_entries :: nat

definition reassembly_metrics_init :: reassembly_metrics where
  "reassembly_metrics_init =
    \<lparr>active_entries = 0, active_bytes = 0, peak_entries = 0, peak_bytes = 0, discarded_ids = 0,
     completed_packets = 0, capacity_evictions = 0, expired_entries = 0, late_fragment_drops = 0,
     invalid_fragments = 0, overlap_drops = 0, capacity_drops = 0, discarded_id_evictions = 0,
     session_discarded_entries = 0\<rparr>"

record reassembly_limits =
  limit_entries :: nat
  limit_bytes :: nat
  limit_discarded_ids :: nat

definition default_limits :: reassembly_limits where
  "default_limits =
    \<lparr>limit_entries = max_reassembly_entries, limit_bytes = max_reassembly_bytes,
     limit_discarded_ids = max_reassembly_discarded\<rparr>"

record entry =
  original_length :: nat
  buffer :: bytes
  ranges :: "(nat \<times> nat) list"
  received_bytes :: nat
  first_seen :: time
  last_update :: time

record reassembler =
  maximum_packet_size :: nat
  limits :: reassembly_limits
  metrics :: reassembly_metrics
  entries :: "(u64 \<times> entry) list"
  arrival_order :: "u64 list"
  activity_order :: "u64 list"
  total_bytes :: nat
  discarded_order :: "(u64 \<times> time) list"
  discarded :: "u64 list"

definition reassembly_timeout :: time where
  "reassembly_timeout = seconds reassembly_timeout_seconds"

definition Reassembler :: "nat \<Rightarrow> reassembly_metrics \<Rightarrow> reassembly_limits \<Rightarrow> reassembler result" where
  "Reassembler max_size m lim =
     (if limit_entries lim = 0 \<or> limit_bytes lim = 0 \<or> limit_discarded_ids lim = 0
      then Inl (Invalid_argument ''Reassembly limits must be positive'')
      else Inr \<lparr>maximum_packet_size = max_size, limits = lim, metrics = m, entries = [],
                arrival_order = [], activity_order = [], total_bytes = 0,
                discarded_order = [], discarded = []\<rparr>)"

text \<open>The destructor returns the metrics the session leaves behind.\<close>

definition destroy :: "reassembler \<Rightarrow> reassembly_metrics" where
  "destroy r = (metrics r)
    \<lparr>active_entries := active_entries (metrics r) - length (entries r),
     active_bytes := active_bytes (metrics r) - total_bytes r,
     discarded_ids := discarded_ids (metrics r) - length (discarded r),
     session_discarded_entries := session_discarded_entries (metrics r) + length (entries r)\<rparr>"

subsection \<open>Operations\<close>

definition count_invalid :: "reassembler \<Rightarrow> reassembler" where
  "count_invalid r = r\<lparr>metrics := (metrics r)\<lparr>invalid_fragments := invalid_fragments (metrics r) + 1\<rparr>\<rparr>"

definition forget_oldest_discarded :: "reassembler \<Rightarrow> reassembler option" where
  "forget_oldest_discarded r =
     (case discarded_order r of
        [] \<Rightarrow> None
      | (i, _) # rest \<Rightarrow>
          Some (r\<lparr>discarded := remove1 i (discarded r), discarded_order := rest,
                  metrics := (metrics r)\<lparr>discarded_ids := discarded_ids (metrics r) - 1\<rparr>\<rparr>))"

definition remember_discarded :: "u64 \<Rightarrow> time \<Rightarrow> reassembler \<Rightarrow> reassembler option" where
  "remember_discarded i now r =
     (if i \<in> set (discarded r) then Some r
      else do {
        r \<leftarrow> (if length (discarded r) \<ge> limit_discarded_ids (limits r)
             then map_option (\<lambda>r. r\<lparr>metrics := (metrics r)
                      \<lparr>discarded_id_evictions := discarded_id_evictions (metrics r) + 1\<rparr>\<rparr>)
                    (forget_oldest_discarded r)
             else Some r);
        Some (r\<lparr>discarded_order := discarded_order r @ [(i, now + reassembly_timeout)],
                discarded := i # discarded r,
                metrics := (metrics r)\<lparr>discarded_ids := discarded_ids (metrics r) + 1\<rparr>\<rparr>)
      })"

definition erase :: "u64 \<Rightarrow> reassembler \<Rightarrow> reassembler option" where
  "erase i r =
     (case map_of (entries r) i of
        None \<Rightarrow> None
      | Some e \<Rightarrow>
          let bytes = original_length e
          in Some (r\<lparr>arrival_order := remove1 i (arrival_order r),
                     activity_order := remove1 i (activity_order r),
                     total_bytes := total_bytes r - bytes,
                     metrics := (metrics r)\<lparr>active_entries := active_entries (metrics r) - 1,
                                            active_bytes := active_bytes (metrics r) - bytes\<rparr>,
                     entries := AList.delete i (entries r)\<rparr>))"

definition expire_discarded :: "time \<Rightarrow> reassembler \<Rightarrow> (bool \<times> reassembler) option" where
  "expire_discarded now r =
     (case discarded_order r of
        [] \<Rightarrow> Some (False, r)
      | (_, expires) # _ \<Rightarrow>
          if now \<ge> expires then map_option (Pair True) (forget_oldest_discarded r) else Some (False, r))"

definition expire_entry :: "time \<Rightarrow> reassembler \<Rightarrow> (bool \<times> reassembler) option" where
  "expire_entry now r =
     (case activity_order r of
        [] \<Rightarrow> Some (False, r)
      | i # _ \<Rightarrow> do {
          e \<leftarrow> map_of (entries r) i;
          if now - last_update e < reassembly_timeout then Some (False, r)
          else do {
            r \<leftarrow> remember_discarded i now r;
            r \<leftarrow> erase i r;
            Some (True, r\<lparr>metrics := (metrics r)\<lparr>expired_entries := expired_entries (metrics r) + 1\<rparr>\<rparr>)
          }
        })"

text \<open>A \<open>while\<close> loop: the step reports whether it ran the body; the fuel bounds the passes.\<close>

fun while_step :: "nat \<Rightarrow> ('s \<Rightarrow> (bool \<times> 's) option) \<Rightarrow> 's \<Rightarrow> 's option" where
  "while_step 0 step s = None"
| "while_step (Suc n) step s =
     do { (continue, s') \<leftarrow> step s; if continue then while_step n step s' else Some s' }"

definition cleanup_expired :: "time \<Rightarrow> reassembler \<Rightarrow> reassembler option" where
  "cleanup_expired now r = do {
     r \<leftarrow> while_step (Suc (length (discarded_order r))) (expire_discarded now) r;
     while_step (Suc (length (activity_order r))) (expire_entry now) r
   }"

definition evict_oldest :: "time \<Rightarrow> nat \<Rightarrow> reassembler \<Rightarrow> (bool \<times> reassembler) option" where
  "evict_oldest now len r =
     (if length (entries r) \<ge> limit_entries (limits r) \<or> len > limit_bytes (limits r) - total_bytes r
      then case arrival_order r of
        [] \<Rightarrow> None
      | i # _ \<Rightarrow> do {
          r \<leftarrow> remember_discarded i now r;
          r \<leftarrow> erase i r;
          Some (True, r\<lparr>metrics := (metrics r)\<lparr>capacity_evictions := capacity_evictions (metrics r) + 1\<rparr>\<rparr>)
        }
      else Some (False, r))"

definition open_entry :: "time \<Rightarrow> u64 \<Rightarrow> nat \<Rightarrow> reassembler \<Rightarrow> reassembler" where
  "open_entry now i len r =
     (let e = \<lparr>original_length = len, buffer = replicate len 0, ranges = [], received_bytes = 0,
               first_seen = now, last_update = now\<rparr>;
          m = metrics r;
          m = m\<lparr>active_entries := active_entries m + 1, active_bytes := active_bytes m + len\<rparr>
      in r\<lparr>arrival_order := arrival_order r @ [i], activity_order := activity_order r @ [i],
           entries := (i, e) # entries r, total_bytes := total_bytes r + len,
           metrics := m\<lparr>peak_entries := max (peak_entries m) (active_entries m),
                        peak_bytes := max (peak_bytes m) (active_bytes m)\<rparr>\<rparr>)"

definition overlaps :: "nat \<Rightarrow> nat \<Rightarrow> (nat \<times> nat) list \<Rightarrow> bool" where
  "overlaps start stop rs = list_ex (\<lambda>(b, e). start < e \<and> stop > b) rs"

definition memcpy_at :: "nat \<Rightarrow> bytes \<Rightarrow> bytes \<Rightarrow> bytes" where
  "memcpy_at at src dst = take at dst @ src @ drop (at + length src) dst"

text \<open>The part of \<open>accept\<close> after the entry of the message was found or opened.\<close>

definition store_fragment ::
  "time \<Rightarrow> packet \<Rightarrow> nat \<Rightarrow> nat \<Rightarrow> reassembler \<Rightarrow> ((bytes \<times> time option) option \<times> reassembler) option" where
  "store_fragment now fragment start stop r = do {
     let i = pk_message_id fragment;
     e \<leftarrow> map_of (entries r) i;
     if original_length e \<noteq> unat (pk_original_length fragment) \<or>
        length (ranges e) \<ge> (if pk_type fragment = pt_ipc then max_ipc_fragments_per_packet
                              else max_fragments_per_packet)
     then do {
       r \<leftarrow> remember_discarded i now (count_invalid r);
       r \<leftarrow> erase i r;
       Some (None, r)
     }
     else if overlaps start stop (ranges e)
     then Some (None, r\<lparr>metrics := (metrics r)\<lparr>overlap_drops := overlap_drops (metrics r) + 1\<rparr>\<rparr>)
     else do {
       let e' = e\<lparr>ranges := ranges e @ [(start, stop)],
                  buffer := memcpy_at start (pk_payload fragment) (buffer e),
                  received_bytes := received_bytes e + length (pk_payload fragment),
                  last_update := now\<rparr>;
       let r = r\<lparr>entries := AList.update i e' (entries r),
                 activity_order := remove1 i (activity_order r) @ [i]\<rparr>;
       if received_bytes e' \<noteq> original_length e' then Some (None, r)
       else do {
         r \<leftarrow> erase i r;
         Some (Some (buffer e', Some (now - first_seen e')),
               r\<lparr>metrics := (metrics r)\<lparr>completed_packets := completed_packets (metrics r) + 1\<rparr>\<rparr>)
       }
     }
   }"

text \<open>
  \<open>accept\<close> returns the complete packet when there is one. With it comes the time span
  that the code hands to the optional processing statistics.
\<close>

definition accept ::
  "packet \<Rightarrow> time \<Rightarrow> reassembler \<Rightarrow> ((bytes \<times> time option) option \<times> reassembler) option" where
  "accept fragment now r =
     (let len = unat (pk_original_length fragment);
          start = unat (pk_fragment_offset fragment);
          stop = start + length (pk_payload fragment)
      in if pk_message_id fragment = 0 \<or> len = 0 \<or> len > maximum_packet_size r \<or> pk_payload fragment = []
         then Some (None, count_invalid r)
         else if stop > len then Some (None, count_invalid r)
         else if start = 0 \<and> stop = len then Some (Some (pk_payload fragment, None), r)
         else do {
           r \<leftarrow> cleanup_expired now r;
           if pk_message_id fragment \<in> set (discarded r)
           then Some (None, r\<lparr>metrics := (metrics r)\<lparr>late_fragment_drops := late_fragment_drops (metrics r) + 1\<rparr>\<rparr>)
           else if map_of (entries r) (pk_message_id fragment) = None
           then if len > limit_bytes (limits r)
             then do {
               r \<leftarrow> remember_discarded (pk_message_id fragment) now
                     (r\<lparr>metrics := (metrics r)\<lparr>capacity_drops := capacity_drops (metrics r) + 1\<rparr>\<rparr>);
               Some (None, r)
             }
             else do {
               r \<leftarrow> while_step (Suc (length (arrival_order r))) (evict_oldest now len) r;
               store_fragment now fragment start stop (open_entry now (pk_message_id fragment) len r)
             }
           else store_fragment now fragment start stop r
         })"

end
