(* ===== verification/Reassembly_Invariant.thy ===== *)
theory Reassembly_Invariant
  imports Reassembly
begin

text \<open>
  The invariant of the reassembler and its preservation by every operation: the pool of
  partial messages, its two orders, its byte and entry limits, the list of discarded
  ids, the time stamps and the shared gauges. Together with it, every operation is
  shown to return, so that no loop runs out of fuel and no front of an empty list or
  missing entry is ever read.
\<close>

subsection \<open>Invariant\<close>

fun disjoint_ranges :: "(nat \<times> nat) list \<Rightarrow> bool" where
  "disjoint_ranges [] \<longleftrightarrow> True"
| "disjoint_ranges ((b, e) # rs) \<longleftrightarrow> \<not> overlaps b e rs \<and> disjoint_ranges rs"

definition range_bytes :: "(nat \<times> nat) list \<Rightarrow> nat" where
  "range_bytes rs = sum_list (map (\<lambda>(b, e). e - b) rs)"

definition entry_ok :: "nat \<Rightarrow> entry \<Rightarrow> bool" where
  "entry_ok max_size e \<longleftrightarrow>
     0 < original_length e \<and> original_length e \<le> max_size \<and>
     length (buffer e) = original_length e \<and>
     (\<forall>(b, n) \<in> set (ranges e). b < n \<and> n \<le> original_length e) \<and>
     disjoint_ranges (ranges e) \<and> received_bytes e = range_bytes (ranges e) \<and>
     received_bytes e < original_length e \<and> length (ranges e) \<le> max_ipc_fragments_per_packet"

definition pool_ok :: "reassembler \<Rightarrow> bool" where
  "pool_ok r \<longleftrightarrow>
     distinct (map fst (entries r)) \<and>
     distinct (arrival_order r) \<and> set (arrival_order r) = fst ` set (entries r) \<and>
     distinct (activity_order r) \<and> set (activity_order r) = fst ` set (entries r) \<and>
     total_bytes r = (\<Sum>(i, e) \<leftarrow> entries r. original_length e) \<and>
     total_bytes r \<le> limit_bytes (limits r) \<and>
     length (entries r) \<le> limit_entries (limits r) \<and>
     (\<forall>(i, e) \<in> set (entries r). entry_ok (maximum_packet_size r) e)"

definition discard_ok :: "reassembler \<Rightarrow> bool" where
  "discard_ok r \<longleftrightarrow>
     0 < limit_discarded_ids (limits r) \<and> 0 < limit_entries (limits r) \<and>
     distinct (discarded r) \<and> distinct (map fst (discarded_order r)) \<and>
     set (discarded r) = fst ` set (discarded_order r) \<and>
     length (discarded r) \<le> limit_discarded_ids (limits r)"

text \<open>The activity list and the discard list are in the order of their time stamps.\<close>

definition updated_at :: "(u64 \<times> entry) list \<Rightarrow> u64 \<Rightarrow> time" where
  "updated_at es i = (case map_of es i of Some e \<Rightarrow> last_update e | None \<Rightarrow> 0)"

definition times_ok :: "time \<Rightarrow> reassembler \<Rightarrow> bool" where
  "times_ok clock r \<longleftrightarrow>
     sorted (map (updated_at (entries r)) (activity_order r)) \<and>
     (\<forall>(i, e) \<in> set (entries r). first_seen e \<le> last_update e \<and> last_update e \<le> clock) \<and>
     sorted (map snd (discarded_order r)) \<and>
     (\<forall>(i, t) \<in> set (discarded_order r). t \<le> clock + reassembly_timeout)"

text \<open>
  The gauges of the shared metrics exceed this reassembler's own share by what the other
  sessions account for.
\<close>

definition gauges_ok :: "nat \<times> nat \<times> nat \<Rightarrow> reassembler \<Rightarrow> bool" where
  "gauges_ok others r \<longleftrightarrow>
     active_entries (metrics r) = fst others + length (entries r) \<and>
     active_bytes (metrics r) = fst (snd others) + total_bytes r \<and>
     discarded_ids (metrics r) = snd (snd others) + length (discarded r)"

definition reassembler_inv :: "time \<Rightarrow> nat \<times> nat \<times> nat \<Rightarrow> reassembler \<Rightarrow> bool" where
  "reassembler_inv clock others r \<longleftrightarrow>
     pool_ok r \<and> discard_ok r \<and> times_ok clock r \<and> gauges_ok others r \<and>
     set (discarded r) \<inter> fst ` set (entries r) = {}"

subsection \<open>Loops and association lists\<close>

lemma while_step_rule:
  assumes "\<And>s. I s \<Longrightarrow> \<exists>c s'. step s = Some (c, s') \<and> (if c then I s' \<and> m s' < m s else Q s')"
    and "I s" and "m s < (n :: nat)"
  shows "\<exists>s'. while_step n step s = Some s' \<and> Q s'"
  using assms(2,3)
proof (induction n arbitrary: s)
  case 0
  then show ?case by simp
next
  case (Suc n)
  obtain c s' where step: "step s = Some (c, s')" "if c then I s' \<and> m s' < m s else Q s'"
    using assms(1) [OF Suc.prems(1)] by blast
  then show ?case
    using Suc.IH [of s'] Suc.prems(2) by (cases c) auto
qed

lemma map_of_key: "i \<in> fst ` set xs \<longleftrightarrow> (\<exists>e. map_of xs i = Some e)"
  by (metis map_of_eq_None_iff not_None_eq)

lemma sum_list_delete:
  fixes f :: "'v \<Rightarrow> nat"
  assumes "distinct (map fst xs)" "map_of xs i = Some e"
  shows "(\<Sum>(k, v) \<leftarrow> xs. f v) = f e + (\<Sum>(k, v) \<leftarrow> AList.delete i xs. f v)"
  using assms
proof (induction xs)
  case Nil
  then show ?case by simp
next
  case (Cons x xs)
  obtain k v where x: "x = (k, v)" by force
  show ?case
  proof (cases "k = i")
    case True
    with Cons.prems x have "AList.delete i xs = xs"
      by (force simp: AList.delete_eq filter_id_conv)
    with True x Cons.prems show ?thesis by (simp add: AList.delete_eq)
  next
    case False
    with x Cons show ?thesis by (simp add: AList.delete_eq)
  qed
qed

lemma length_delete_key:
  assumes "distinct (map fst xs)" "map_of xs i = Some e"
  shows "length xs = Suc (length (AList.delete i xs))"
  using sum_list_delete [OF assms, of "\<lambda>_. 1"] by (simp add: case_prod_beta' sum_list_triv)

lemma set_delete_key: "set (AList.delete i xs) = {(k, v) \<in> set xs. k \<noteq> i}"
  by (auto simp: AList.delete_eq)

lemma fst_set_delete_key: "fst ` set (AList.delete i xs) = fst ` set xs - {i}"
  by (force simp: AList.delete_eq)

lemma update_existing:
  assumes "distinct (map fst xs)" "map_of xs i = Some e"
  shows "map fst (AList.update i e' xs) = map fst xs"
    and "f e' = f e \<Longrightarrow> (\<Sum>(k, v) \<leftarrow> AList.update i e' xs. f v :: nat) = (\<Sum>(k, v) \<leftarrow> xs. f v)"
    and "set (AList.update i e' xs) = insert (i, e') {(k, v) \<in> set xs. k \<noteq> i}"
  using assms by (induction xs) (force split: if_splits)+

lemma sorted_remove1_map: "sorted (map f xs) \<Longrightarrow> sorted (map f (remove1 i xs))"
proof (induction xs)
  case (Cons x xs)
  then show ?case
    using set_remove1_subset [of i xs] by auto
qed simp

subsection \<open>Preservation, operation by operation\<close>

definition core_inv :: "time \<Rightarrow> nat \<times> nat \<times> nat \<Rightarrow> reassembler \<Rightarrow> bool" where
  "core_inv clock others r \<longleftrightarrow> pool_ok r \<and> discard_ok r \<and> times_ok clock r \<and> gauges_ok others r"

definition same_pool :: "reassembler \<Rightarrow> reassembler \<Rightarrow> bool" where
  "same_pool r r' \<longleftrightarrow>
     maximum_packet_size r' = maximum_packet_size r \<and> limits r' = limits r \<and>
     entries r' = entries r \<and> arrival_order r' = arrival_order r \<and>
     activity_order r' = activity_order r \<and> total_bytes r' = total_bytes r"

lemmas inv_defs = pool_ok_def discard_ok_def times_ok_def gauges_ok_def

lemma reassembler_inv_core:
  "reassembler_inv clock others r \<longleftrightarrow>
     core_inv clock others r \<and> set (discarded r) \<inter> fst ` set (entries r) = {}"
  by (auto simp: reassembler_inv_def core_inv_def)

lemma same_pool_refl [simp]: "same_pool r r"
  by (simp add: same_pool_def)

lemma length_discarded: "discard_ok r \<Longrightarrow> length (discarded r) = length (discarded_order r)"
  unfolding discard_ok_def by (metis distinct_card length_map list.set_map)

lemma discard_head:
  assumes "discard_ok r" "discarded_order r = (i, t) # rest"
  shows "distinct (remove1 i (discarded r))" "distinct (map fst rest)"
    "set (remove1 i (discarded r)) = fst ` set rest"
    "length (remove1 i (discarded r)) = length (discarded r) - 1"
    "i \<in> set (discarded r)" "discarded r \<noteq> []"
  using assms by (auto simp: discard_ok_def length_remove1 set_remove1_eq)

lemma forget_oldest_discarded_ok:
  assumes "core_inv clock others r" "discarded_order r = x # rest"
  shows "\<exists>r'. forget_oldest_discarded r = Some r' \<and> core_inv clock others r' \<and> same_pool r r' \<and>
    discarded_order r' = rest \<and> set (discarded r') \<subseteq> set (discarded r) \<and>
    length (discarded r') < length (discarded r)"
proof -
  obtain i t where x: "x = (i, t)" by force
  have inv: "pool_ok r" "discard_ok r" "times_ok clock r" "gauges_ok others r"
    using assms(1) by (simp_all add: core_inv_def)
  note head = discard_head [OF inv(2) assms(2) [unfolded x]]
  let ?r' = "r\<lparr>discarded := remove1 i (discarded r), discarded_order := rest,
               metrics := (metrics r)\<lparr>discarded_ids := discarded_ids (metrics r) - 1\<rparr>\<rparr>"
  have pos: "0 < length (discarded r)"
    using head by simp
  have "forget_oldest_discarded r = Some ?r'"
    by (simp add: forget_oldest_discarded_def assms(2) x)
  moreover have "pool_ok ?r'"
    using inv(1) by (simp add: pool_ok_def)
  moreover have "discard_ok ?r'"
    using inv(2) head pos unfolding discard_ok_def by (simp del: set_remove1_eq) linarith
  moreover have "times_ok clock ?r'"
    using inv(3) assms(2) by (simp add: times_ok_def)
  moreover have "gauges_ok others ?r'"
    using inv(4) head(4) pos by (simp add: gauges_ok_def del: length_greater_0_conv)
  moreover have "set (discarded ?r') \<subseteq> set (discarded r)"
    using set_remove1_subset [of i "discarded r"] by simp
  moreover have "length (discarded ?r') < length (discarded r)"
    using head(4) pos by simp
  ultimately show ?thesis
    by (auto simp: core_inv_def same_pool_def simp del: length_greater_0_conv)
qed

lemma core_inv_metrics:
  assumes "core_inv clock others r" "active_entries m = active_entries (metrics r)"
    "active_bytes m = active_bytes (metrics r)" "discarded_ids m = discarded_ids (metrics r)"
  shows "core_inv clock others (r\<lparr>metrics := m\<rparr>)"
  using assms by (simp add: core_inv_def inv_defs)

lemma reassembler_inv_metrics:
  assumes "reassembler_inv clock others r" "active_entries m = active_entries (metrics r)"
    "active_bytes m = active_bytes (metrics r)" "discarded_ids m = discarded_ids (metrics r)"
  shows "reassembler_inv clock others (r\<lparr>metrics := m\<rparr>)"
  using assms by (simp add: reassembler_inv_core core_inv_metrics)

lemma core_inv_later: "core_inv clock others r \<Longrightarrow> clock \<le> now \<Longrightarrow> core_inv now others r"
  by (fastforce simp: core_inv_def times_ok_def)

lemma remember_append_ok:
  assumes "core_inv now others r" "i \<notin> set (discarded r)"
    and "length (discarded r) < limit_discarded_ids (limits r)"
    and "r' = r\<lparr>discarded_order := discarded_order r @ [(i, now + reassembly_timeout)],
               discarded := i # discarded r,
               metrics := (metrics r)\<lparr>discarded_ids := discarded_ids (metrics r) + 1\<rparr>\<rparr>"
  shows "core_inv now others r'"
  using assms by (auto simp: core_inv_def inv_defs sorted_append)

lemma remember_discarded_ok:
  assumes inv: "core_inv now others r"
  shows "\<exists>r'. remember_discarded i now r = Some r' \<and> core_inv now others r' \<and> same_pool r r' \<and>
    i \<in> set (discarded r') \<and> set (discarded r') \<subseteq> insert i (set (discarded r)) \<and>
    set (discarded_order r') \<subseteq> insert (i, now + reassembly_timeout) (set (discarded_order r))"
proof (cases "i \<in> set (discarded r)")
  case True
  with inv show ?thesis
    by (auto simp: remember_discarded_def)
next
  case new: False
  have disc: "discard_ok r"
    using inv by (simp add: core_inv_def)
  show ?thesis
  proof (cases "length (discarded r) \<ge> limit_discarded_ids (limits r)")
    case True
    then have "discarded_order r \<noteq> []"
      using disc length_discarded [OF disc] by (auto simp: discard_ok_def)
    then obtain x rest where order: "discarded_order r = x # rest"
      by (cases "discarded_order r") auto
    from forget_oldest_discarded_ok [OF inv order] obtain q where q:
      "forget_oldest_discarded r = Some q" "core_inv now others q" "same_pool r q"
      "set (discarded q) \<subseteq> set (discarded r)" "length (discarded q) < length (discarded r)"
      "discarded_order q = rest"
      by blast
    have "set (discarded_order q) \<subseteq> set (discarded_order r)"
      using order q(6) by auto
    note q = q(1-5) this
    let ?q = "q\<lparr>metrics := (metrics q)\<lparr>discarded_id_evictions := discarded_id_evictions (metrics q) + 1\<rparr>\<rparr>"
    have "core_inv now others ?q"
      using q(2) by (rule core_inv_metrics) simp_all
    moreover have "i \<notin> set (discarded ?q)"
      using q(4) new by auto
    moreover have "length (discarded ?q) < limit_discarded_ids (limits ?q)"
      using q(3,5) disc by (auto simp: same_pool_def discard_ok_def)
    ultimately show ?thesis
      using remember_append_ok [OF _ _ _ refl, of now others ?q i] True new q
      by (fastforce simp: remember_discarded_def same_pool_def)
  next
    case False
    with remember_append_ok [OF inv new _ refl] new show ?thesis
      by (auto simp: remember_discarded_def same_pool_def)
  qed
qed

lemma updated_at_delete: "j \<noteq> i \<Longrightarrow> updated_at (AList.delete i es) j = updated_at es j"
  by (simp add: updated_at_def AList.delete_conv)

lemma erase_ok:
  assumes inv: "core_inv clock others r" and e: "map_of (entries r) i = Some e"
  shows "\<exists>r'. erase i r = Some r' \<and> core_inv clock others r' \<and>
    entries r' = AList.delete i (entries r) \<and>
    arrival_order r' = remove1 i (arrival_order r) \<and>
    activity_order r' = remove1 i (activity_order r) \<and>
    discarded r' = discarded r \<and> discarded_order r' = discarded_order r \<and>
    limits r' = limits r \<and> maximum_packet_size r' = maximum_packet_size r"
proof -
  have ok: "pool_ok r" "discard_ok r" "times_ok clock r" "gauges_ok others r"
    using inv by (simp_all add: core_inv_def)
  then have dist: "distinct (map fst (entries r))"
    by (simp add: pool_ok_def)
  note sum = sum_list_delete [OF dist e, of original_length]
    and len = length_delete_key [OF dist e]
  let ?bytes = "original_length e"
  let ?r' = "r\<lparr>arrival_order := remove1 i (arrival_order r),
               activity_order := remove1 i (activity_order r),
               total_bytes := total_bytes r - ?bytes,
               metrics := (metrics r)\<lparr>active_entries := active_entries (metrics r) - 1,
                                      active_bytes := active_bytes (metrics r) - ?bytes\<rparr>,
               entries := AList.delete i (entries r)\<rparr>"
  have "erase i r = Some ?r'"
    by (simp add: erase_def e Let_def)
  moreover have "pool_ok ?r'"
    using ok(1) sum len unfolding pool_ok_def
    by (auto simp: AList.distinct_delete fst_set_delete_key set_delete_key)
  moreover have "discard_ok ?r'"
    using ok(2) by (simp add: discard_ok_def)
  moreover have "gauges_ok others ?r'"
    using ok(1,4) sum len by (simp add: gauges_ok_def pool_ok_def)
  moreover have "times_ok clock ?r'"
  proof -
    have "distinct (activity_order r)"
      using ok(1) by (simp add: pool_ok_def)
    then have "map (updated_at (AList.delete i (entries r))) (remove1 i (activity_order r))
        = map (updated_at (entries r)) (remove1 i (activity_order r))"
      by (auto intro: updated_at_delete)
    then have "sorted (map (updated_at (AList.delete i (entries r))) (remove1 i (activity_order r)))"
      using ok(3) by (simp only: times_ok_def sorted_remove1_map)
    then show ?thesis
      using ok(3) by (auto simp: times_ok_def set_delete_key)
  qed
  ultimately show ?thesis
    by (auto simp: core_inv_def)
qed

text \<open>Discarding a live message: its id moves from the pool to the discard list.\<close>

lemma discard_entry_ok:
  assumes inv: "reassembler_inv now others r" and e: "map_of (entries r) i = Some e"
  obtains q r' where "remember_discarded i now r = Some q" "erase i q = Some r'"
    "reassembler_inv now others r'" "entries r' = AList.delete i (entries r)"
    "arrival_order r' = remove1 i (arrival_order r)"
    "activity_order r' = remove1 i (activity_order r)"
    "limits r' = limits r" "maximum_packet_size r' = maximum_packet_size r"
    "set (discarded r') \<subseteq> insert i (set (discarded r))"
    "set (discarded_order r') \<subseteq> insert (i, now + reassembly_timeout) (set (discarded_order r))"
proof -
  have core: "core_inv now others r" and disj: "set (discarded r) \<inter> fst ` set (entries r) = {}"
    using inv by (simp_all add: reassembler_inv_core)
  obtain q where q: "remember_discarded i now r = Some q" "core_inv now others q" "same_pool r q"
      "set (discarded q) \<subseteq> insert i (set (discarded r))"
      "set (discarded_order q) \<subseteq> insert (i, now + reassembly_timeout) (set (discarded_order r))"
    using remember_discarded_ok [OF core] by blast
  then have "map_of (entries q) i = Some e"
    using e by (simp add: same_pool_def)
  from erase_ok [OF q(2) this] obtain r' where r': "erase i q = Some r'" "core_inv now others r'"
      "entries r' = AList.delete i (entries q)" "arrival_order r' = remove1 i (arrival_order q)"
      "activity_order r' = remove1 i (activity_order q)" "discarded r' = discarded q"
      "limits r' = limits q" "maximum_packet_size r' = maximum_packet_size q"
      "discarded_order r' = discarded_order q"
    by blast
  have "set (discarded r') \<inter> fst ` set (entries r') = {}"
    using disj q(3,4) r'(3,6) by (auto simp: same_pool_def fst_set_delete_key)
  with r' q show thesis
    by (intro that [of q r']) (auto simp: same_pool_def reassembler_inv_core)
qed

lemma pool_head:
  assumes "pool_ok r"
  shows "activity_order r = i # rest \<Longrightarrow> \<exists>e. map_of (entries r) i = Some e"
    and "arrival_order r = i # rest \<Longrightarrow> \<exists>e. map_of (entries r) i = Some e"
  using assms unfolding pool_ok_def by (metis list.set_intros(1) map_of_key)+

definition same_config :: "reassembler \<Rightarrow> reassembler \<Rightarrow> bool" where
  "same_config r r' \<longleftrightarrow> limits r' = limits r \<and> maximum_packet_size r' = maximum_packet_size r \<and>
     set (entries r') \<subseteq> set (entries r)"

lemma expire_discarded_ok:
  assumes "reassembler_inv now others r"
  shows "\<exists>c r'. expire_discarded now r = Some (c, r') \<and>
    (if c then reassembler_inv now others r' \<and> same_config r r' \<and>
               length (discarded_order r') < length (discarded_order r)
     else r' = r \<and> (\<forall>(i, t) \<in> set (discarded_order r). now < t))"
proof (cases "discarded_order r")
  case Nil
  then show ?thesis
    by (intro exI [of _ False] exI [of _ r]) (simp add: expire_discarded_def)
next
  case (Cons x rest)
  obtain i t where x: "x = (i, t)" by force
  have core: "core_inv now others r" and disj: "set (discarded r) \<inter> fst ` set (entries r) = {}"
    using assms by (simp_all add: reassembler_inv_core)
  show ?thesis
  proof (cases "now \<ge> t")
    case True
    obtain r' where r': "forget_oldest_discarded r = Some r'" "core_inv now others r'" "same_pool r r'"
      "discarded_order r' = rest" "set (discarded r') \<subseteq> set (discarded r)"
      using forget_oldest_discarded_ok [OF core Cons] by blast
    then have "reassembler_inv now others r'" "same_config r r'"
      using disj by (auto simp: reassembler_inv_core same_pool_def same_config_def)
    with r' True Cons x show ?thesis
      by (intro exI [of _ True] exI [of _ r']) (simp add: expire_discarded_def)
  next
    case False
    moreover have "\<forall>(j, u) \<in> set (discarded_order r). t \<le> u"
      using core Cons x by (auto simp: core_inv_def times_ok_def)
    ultimately show ?thesis
      using Cons x by (intro exI [of _ False] exI [of _ r]) (auto simp: expire_discarded_def)
  qed
qed

lemma expire_entry_ok:
  assumes "reassembler_inv now others r" "\<forall>(i, t) \<in> set (discarded_order r). now < t"
  shows "\<exists>c r'. expire_entry now r = Some (c, r') \<and>
    (if c then reassembler_inv now others r' \<and> same_config r r' \<and>
               (\<forall>(i, t) \<in> set (discarded_order r'). now < t) \<and>
               length (activity_order r') < length (activity_order r)
     else r' = r \<and> (\<forall>(i, e) \<in> set (entries r). now - last_update e < reassembly_timeout))"
proof (cases "activity_order r")
  case Nil
  with assms show ?thesis
    by (intro exI [of _ False] exI [of _ r]) (simp add: expire_entry_def reassembler_inv_def pool_ok_def)
next
  case (Cons i rest)
  have pool: "pool_ok r" and times: "times_ok now r"
    using assms by (simp_all add: reassembler_inv_def)
  obtain e where e: "map_of (entries r) i = Some e"
    using pool_head(1) [OF pool Cons] by blast
  show ?thesis
  proof (cases "now - last_update e < reassembly_timeout")
    case True
    have "last_update e \<le> last_update f" if "(j, f) \<in> set (entries r)" for j f
    proof -
      have "j \<in> set (activity_order r)" "map_of (entries r) j = Some f"
        using pool that by (force simp: pool_ok_def)+
      then show ?thesis
        using times Cons e by (auto simp: times_ok_def updated_at_def)
    qed
    with True Cons e show ?thesis
      by (intro exI [of _ False] exI [of _ r]) (force simp: expire_entry_def)
  next
    case False
    obtain q r' where *: "remember_discarded i now r = Some q" "erase i q = Some r'"
      "reassembler_inv now others r'" "entries r' = AList.delete i (entries r)"
      "arrival_order r' = remove1 i (arrival_order r)"
      "activity_order r' = remove1 i (activity_order r)"
      "limits r' = limits r" "maximum_packet_size r' = maximum_packet_size r"
      "set (discarded r') \<subseteq> insert i (set (discarded r))"
      "set (discarded_order r') \<subseteq> insert (i, now + reassembly_timeout) (set (discarded_order r))"
      by (rule discard_entry_ok [OF assms(1) e])
    then have "\<forall>(i, t) \<in> set (discarded_order r'). now < t"
      using assms(2) by (auto simp: reassembly_timeout_def reassembly_timeout_seconds_def)
    moreover have "same_config r r'"
      using * by (auto simp: same_config_def set_delete_key)
    moreover have "reassembler_inv now others
        (r'\<lparr>metrics := (metrics r')\<lparr>expired_entries := expired_entries (metrics r') + 1\<rparr>\<rparr>)"
      using *(3) by (rule reassembler_inv_metrics) simp_all
    ultimately show ?thesis
      using *(1,2,6) False Cons e
      by (intro exI [of _ True] exI
            [of _ "r'\<lparr>metrics := (metrics r')\<lparr>expired_entries := expired_entries (metrics r') + 1\<rparr>\<rparr>"])
         (simp add: expire_entry_def same_config_def)
  qed
qed

definition unexpired :: "time \<Rightarrow> reassembler \<Rightarrow> bool" where
  "unexpired now r \<longleftrightarrow>
     (\<forall>(i, t) \<in> set (discarded_order r). now < t) \<and>
     (\<forall>(i, e) \<in> set (entries r). now - last_update e < reassembly_timeout)"

lemma same_config_refl [simp]: "same_config r r"
  by (simp add: same_config_def)

lemma same_config_trans: "same_config r q \<Longrightarrow> same_config q q' \<Longrightarrow> same_config r q'"
  by (auto simp: same_config_def)

lemma reassembler_inv_later:
  "reassembler_inv clock others r \<Longrightarrow> clock \<le> now \<Longrightarrow> reassembler_inv now others r"
  unfolding reassembler_inv_core using core_inv_later by blast

lemma cleanup_discarded_ok:
  assumes "reassembler_inv now others r"
  shows "\<exists>r'. while_step (Suc (length (discarded_order r))) (expire_discarded now) r = Some r' \<and>
    reassembler_inv now others r' \<and> same_config r r' \<and> (\<forall>(i, t) \<in> set (discarded_order r'). now < t)"
proof (rule while_step_rule [where I = "\<lambda>s. reassembler_inv now others s \<and> same_config r s"
      and m = "length \<circ> discarded_order"])
  fix s
  assume I: "reassembler_inv now others s \<and> same_config r s"
  then obtain c s' where "expire_discarded now s = Some (c, s')"
    "if c then reassembler_inv now others s' \<and> same_config s s' \<and>
               length (discarded_order s') < length (discarded_order s)
     else s' = s \<and> (\<forall>(i, t) \<in> set (discarded_order s). now < t)"
    using expire_discarded_ok [of now others s] by blast
  with I show "\<exists>c s'. expire_discarded now s = Some (c, s') \<and>
      (if c then (reassembler_inv now others s' \<and> same_config r s') \<and>
                 (length \<circ> discarded_order) s' < (length \<circ> discarded_order) s
       else reassembler_inv now others s' \<and> same_config r s' \<and> (\<forall>(i, t) \<in> set (discarded_order s'). now < t))"
    by (intro exI [of _ c] exI [of _ s']) (cases c; simp add: same_config_trans [of r s s'])
qed (use assms in simp_all)

lemma cleanup_entries_ok:
  assumes "reassembler_inv now others r" "\<forall>(i, t) \<in> set (discarded_order r). now < t"
  shows "\<exists>r'. while_step (Suc (length (activity_order r))) (expire_entry now) r = Some r' \<and>
    reassembler_inv now others r' \<and> same_config r r' \<and> unexpired now r'"
proof (rule while_step_rule [where m = "length \<circ> activity_order"
      and I = "\<lambda>s. reassembler_inv now others s \<and> same_config r s \<and> (\<forall>(i, t) \<in> set (discarded_order s). now < t)"])
  fix s
  assume I: "reassembler_inv now others s \<and> same_config r s \<and> (\<forall>(i, t) \<in> set (discarded_order s). now < t)"
  then obtain c s' where "expire_entry now s = Some (c, s')"
    "if c then reassembler_inv now others s' \<and> same_config s s' \<and>
               (\<forall>(i, t) \<in> set (discarded_order s'). now < t) \<and>
               length (activity_order s') < length (activity_order s)
     else s' = s \<and> (\<forall>(i, e) \<in> set (entries s). now - last_update e < reassembly_timeout)"
    using expire_entry_ok [of now others s] by blast
  with I show "\<exists>c s'. expire_entry now s = Some (c, s') \<and>
      (if c then (reassembler_inv now others s' \<and> same_config r s' \<and>
                  (\<forall>(i, t) \<in> set (discarded_order s'). now < t)) \<and>
                 (length \<circ> activity_order) s' < (length \<circ> activity_order) s
       else reassembler_inv now others s' \<and> same_config r s' \<and> unexpired now s')"
    by (intro exI [of _ c] exI [of _ s']) (cases c; simp add: same_config_trans [of r s s'] unexpired_def)
qed (use assms in simp_all)

lemma cleanup_expired_ok:
  assumes "reassembler_inv clock others r" "clock \<le> now"
  shows "\<exists>r'. cleanup_expired now r = Some r' \<and> reassembler_inv now others r' \<and>
    same_config r r' \<and> unexpired now r'"
proof -
  obtain q where q: "while_step (Suc (length (discarded_order r))) (expire_discarded now) r = Some q"
    "reassembler_inv now others q" "same_config r q" "\<forall>(i, t) \<in> set (discarded_order q). now < t"
    using cleanup_discarded_ok [OF reassembler_inv_later [OF assms]] by blast
  obtain r' where "while_step (Suc (length (activity_order q))) (expire_entry now) q = Some r'"
    "reassembler_inv now others r'" "same_config q r'" "unexpired now r'"
    using cleanup_entries_ok [OF q(2,4)] by blast
  with q same_config_trans [of r q r'] show ?thesis
    by (simp add: cleanup_expired_def)
qed

lemma evict_oldest_ok:
  assumes inv: "reassembler_inv now others r" and len: "len \<le> limit_bytes (limits r)"
    and new: "i \<notin> set (discarded r)" "i \<notin> fst ` set (entries r)"
  shows "\<exists>c r'. evict_oldest now len r = Some (c, r') \<and>
    (if c then reassembler_inv now others r' \<and> same_config r r' \<and>
               i \<notin> set (discarded r') \<and> i \<notin> fst ` set (entries r') \<and>
               length (arrival_order r') < length (arrival_order r)
     else r' = r \<and> length (entries r) < limit_entries (limits r) \<and>
          total_bytes r + len \<le> limit_bytes (limits r))"
proof (cases "length (entries r) \<ge> limit_entries (limits r) \<or> len > limit_bytes (limits r) - total_bytes r")
  case False
  moreover have "total_bytes r \<le> limit_bytes (limits r)"
    using inv by (simp add: reassembler_inv_def pool_ok_def)
  ultimately show ?thesis
    by (intro exI [of _ False] exI [of _ r]) (auto simp: evict_oldest_def)
next
  case True
  have pool: "pool_ok r" and disc: "discard_ok r"
    using inv by (simp_all add: reassembler_inv_def)
  have "arrival_order r \<noteq> []"
    using True pool disc len by (auto simp: pool_ok_def discard_ok_def)
  then obtain k rest where Cons: "arrival_order r = k # rest"
    by (cases "arrival_order r") auto
  obtain e where e: "map_of (entries r) k = Some e"
    using pool_head(2) [OF pool Cons] by blast
  obtain q r' where *: "remember_discarded k now r = Some q" "erase k q = Some r'"
      "reassembler_inv now others r'" "entries r' = AList.delete k (entries r)"
      "arrival_order r' = remove1 k (arrival_order r)"
      "activity_order r' = remove1 k (activity_order r)"
      "limits r' = limits r" "maximum_packet_size r' = maximum_packet_size r"
      "set (discarded r') \<subseteq> insert k (set (discarded r))"
      "set (discarded_order r') \<subseteq> insert (k, now + reassembly_timeout) (set (discarded_order r))"
    by (rule discard_entry_ok [OF inv e])
  let ?r = "r'\<lparr>metrics := (metrics r')\<lparr>capacity_evictions := capacity_evictions (metrics r') + 1\<rparr>\<rparr>"
  have "k \<in> fst ` set (entries r)"
    using e by (simp add: map_of_key)
  then have "i \<notin> set (discarded r')" "i \<notin> fst ` set (entries r')"
    using new *(4,9) by (auto simp: fst_set_delete_key)
  moreover have "reassembler_inv now others ?r"
    using *(3) by (rule reassembler_inv_metrics) simp_all
  moreover have "same_config r ?r"
    using * by (auto simp: same_config_def set_delete_key)
  ultimately show ?thesis
    using True Cons *(1,2,5)
    by (intro exI [of _ True] exI [of _ ?r]) (simp add: evict_oldest_def)
qed

lemma evict_loop_ok:
  assumes "reassembler_inv now others r" "len \<le> limit_bytes (limits r)"
    and "i \<notin> set (discarded r)" "i \<notin> fst ` set (entries r)"
  shows "\<exists>r'. while_step (Suc (length (arrival_order r))) (evict_oldest now len) r = Some r' \<and>
    reassembler_inv now others r' \<and> same_config r r' \<and>
    i \<notin> set (discarded r') \<and> i \<notin> fst ` set (entries r') \<and>
    length (entries r') < limit_entries (limits r') \<and> total_bytes r' + len \<le> limit_bytes (limits r')"
proof (rule while_step_rule [where m = "length \<circ> arrival_order"
      and I = "\<lambda>s. reassembler_inv now others s \<and> same_config r s \<and>
                   i \<notin> set (discarded s) \<and> i \<notin> fst ` set (entries s)"])
  fix s
  assume I: "reassembler_inv now others s \<and> same_config r s \<and>
             i \<notin> set (discarded s) \<and> i \<notin> fst ` set (entries s)"
  then have "len \<le> limit_bytes (limits s)"
    using assms(2) by (simp add: same_config_def)
  with I obtain c s' where "evict_oldest now len s = Some (c, s')"
    "if c then reassembler_inv now others s' \<and> same_config s s' \<and>
               i \<notin> set (discarded s') \<and> i \<notin> fst ` set (entries s') \<and>
               length (arrival_order s') < length (arrival_order s)
     else s' = s \<and> length (entries s) < limit_entries (limits s) \<and>
          total_bytes s + len \<le> limit_bytes (limits s)"
    using evict_oldest_ok [of now others s len i] by blast
  with I show "\<exists>c s'. evict_oldest now len s = Some (c, s') \<and>
      (if c then (reassembler_inv now others s' \<and> same_config r s' \<and>
                  i \<notin> set (discarded s') \<and> i \<notin> fst ` set (entries s')) \<and>
                 (length \<circ> arrival_order) s' < (length \<circ> arrival_order) s
       else reassembler_inv now others s' \<and> same_config r s' \<and>
            i \<notin> set (discarded s') \<and> i \<notin> fst ` set (entries s') \<and>
            length (entries s') < limit_entries (limits s') \<and>
            total_bytes s' + len \<le> limit_bytes (limits s'))"
    by (intro exI [of _ c] exI [of _ s']) (cases c; simp add: same_config_trans [of r s s'])
qed (use assms in simp_all)

lemma updated_at_bound:
  assumes "pool_ok r" "times_ok clock r" "j \<in> set (activity_order r)"
  shows "updated_at (entries r) j \<le> clock"
proof -
  have "j \<in> fst ` set (entries r)"
    using assms by (simp add: pool_ok_def)
  then obtain e where e: "map_of (entries r) j = Some e"
    by (auto simp: map_of_key simp del: map_of_eq_Some_iff)
  then have "(j, e) \<in> set (entries r)"
    by (rule map_of_SomeD)
  then show ?thesis
    using assms(2) e by (auto simp: times_ok_def updated_at_def)
qed

lemma open_entry_ok:
  assumes inv: "reassembler_inv now others r"
    and "i \<notin> set (discarded r)" "i \<notin> fst ` set (entries r)"
    and "0 < len" "len \<le> maximum_packet_size r"
    and "length (entries r) < limit_entries (limits r)" "total_bytes r + len \<le> limit_bytes (limits r)"
  shows "reassembler_inv now others (open_entry now i len r)"
proof -
  define e where "e = \<lparr>original_length = len, buffer = replicate len 0, ranges = [], received_bytes = 0,
               first_seen = now, last_update = now\<rparr>"
  have pool: "pool_ok r" and disc: "discard_ok r" and times: "times_ok now r" and g: "gauges_ok others r"
    using inv by (simp_all add: reassembler_inv_def)
  have "entry_ok (maximum_packet_size r) e"
    using assms by (simp add: entry_ok_def e_def range_bytes_def)
  then have "pool_ok (open_entry now i len r)"
    using pool assms unfolding pool_ok_def by (auto simp: open_entry_def Let_def e_def)
  moreover have "discard_ok (open_entry now i len r)"
    using disc by (simp add: discard_ok_def open_entry_def Let_def)
  moreover have "gauges_ok others (open_entry now i len r)"
    using g by (simp add: gauges_ok_def open_entry_def Let_def)
  moreover have "times_ok now (open_entry now i len r)"
  proof -
    have set: "set (activity_order r) = fst ` set (entries r)"
      using pool by (simp add: pool_ok_def)
    have same: "map (updated_at ((i, e) # entries r)) (activity_order r)
        = map (updated_at (entries r)) (activity_order r)"
      using assms(3) set by (auto simp: updated_at_def)
    have "updated_at (entries r) j \<le> now" if "j \<in> set (activity_order r)" for j
      using updated_at_bound [OF pool times that] .
    then have "sorted (map (updated_at (entries r)) (activity_order r) @ [now])"
      using times by (simp add: times_ok_def sorted_append)
    also have "map (updated_at (entries r)) (activity_order r) @ [now]
        = map (updated_at ((i, e) # entries r)) (activity_order r @ [i])"
      unfolding map_append same by (simp add: updated_at_def e_def)
    finally show ?thesis
      using times by (auto simp: times_ok_def open_entry_def Let_def e_def)
  qed
  moreover have "set (discarded (open_entry now i len r)) \<inter> fst ` set (entries (open_entry now i len r)) = {}"
    using inv assms(2) by (auto simp: reassembler_inv_def open_entry_def Let_def)
  ultimately show ?thesis
    by (simp add: reassembler_inv_def)
qed

subsection \<open>Storing a fragment\<close>

lemma overlaps_sym: "overlaps b e [(c, f)] = overlaps c f [(b, e)]"
  by (auto simp: overlaps_def)

lemma overlaps_Cons: "overlaps b e (x # rs) \<longleftrightarrow> overlaps b e [x] \<or> overlaps b e rs"
  by (simp add: overlaps_def)

lemma disjoint_ranges_snoc:
  "disjoint_ranges (rs @ [(b, e)]) \<longleftrightarrow> disjoint_ranges rs \<and> \<not> overlaps b e rs"
proof (induction rs)
  case Nil
  then show ?case by (simp add: overlaps_def)
next
  case (Cons x rs)
  obtain c f where "x = (c, f)" by force
  with Cons show ?case
    by (auto simp: overlaps_def)
qed

lemma range_bytes_snoc: "range_bytes (rs @ [(b, e)]) = range_bytes rs + (e - b)"
  by (simp add: range_bytes_def)

lemma length_memcpy_at:
  "at + length src \<le> length dst \<Longrightarrow> length (memcpy_at at src dst) = length dst"
  by (simp add: memcpy_at_def)

lemma ranges_card:
  assumes "disjoint_ranges rs" "\<forall>(b, n) \<in> set rs. b < n"
  shows "card (\<Union>(b, n) \<in> set rs. {b..<n}) = range_bytes rs"
  using assms
proof (induction rs)
  case Nil
  then show ?case by (simp add: range_bytes_def)
next
  case (Cons x rs)
  obtain b n where x: "x = (b, n)" by force
  let ?U = "\<Union>(b, n) \<in> set rs. {b..<n}"
  have "{b..<n} \<inter> ?U = {}"
    using Cons.prems x by (fastforce simp: overlaps_def list_ex_iff)
  then have "card ({b..<n} \<union> ?U) = (n - b) + card ?U"
    by (subst card_Un_disjoint) auto
  with Cons x show ?case
    by (auto simp: range_bytes_def)
qed

lemma ranges_cover:
  assumes "disjoint_ranges rs" "\<forall>(b, n) \<in> set rs. b < n \<and> n \<le> len"
  shows "range_bytes rs \<le> len"
    and "range_bytes rs = len \<Longrightarrow> k < len \<Longrightarrow> \<exists>(b, n) \<in> set rs. b \<le> k \<and> k < n"
proof -
  let ?U = "\<Union>(b, n) \<in> set rs. {b..<n}"
  have sub: "?U \<subseteq> {..<len}"
    using assms(2) by fastforce
  have card: "card ?U = range_bytes rs"
    using assms by (intro ranges_card) auto
  show "range_bytes rs \<le> len"
    using card_mono [OF _ sub] card by simp
  assume "range_bytes rs = len" "k < len"
  then have "?U = {..<len}"
    using card_subset_eq [OF _ sub] card by simp
  with \<open>k < len\<close> have "k \<in> ?U" by simp
  then show "\<exists>(b, n) \<in> set rs. b \<le> k \<and> k < n"
    by (auto intro: bexI [rotated])
qed

text \<open>The entry after the fragment \<open>[start, stop)\<close> was stored.\<close>

definition stored :: "time \<Rightarrow> bytes \<Rightarrow> nat \<Rightarrow> nat \<Rightarrow> entry \<Rightarrow> entry" where
  "stored now src start stop e =
     e\<lparr>ranges := ranges e @ [(start, stop)], buffer := memcpy_at start src (buffer e),
       received_bytes := received_bytes e + length src, last_update := now\<rparr>"

lemma stored_ok:
  assumes "entry_ok max_size e" "stop = start + length src" "src \<noteq> []" "stop \<le> original_length e"
    and "\<not> overlaps start stop (ranges e)" "length (ranges e) < max_ipc_fragments_per_packet"
  shows "received_bytes (stored now src start stop e) \<le> original_length e"
    and "received_bytes (stored now src start stop e) \<noteq> original_length e \<Longrightarrow>
         entry_ok max_size (stored now src start stop e)"
proof -
  let ?e = "stored now src start stop e"
  have rs: "disjoint_ranges (ranges ?e)" "\<forall>(b, n) \<in> set (ranges ?e). b < n \<and> n \<le> original_length e"
    using assms by (auto simp: entry_ok_def stored_def disjoint_ranges_snoc)
  have rec: "received_bytes ?e = range_bytes (ranges ?e)"
    using assms by (simp add: entry_ok_def stored_def range_bytes_snoc)
  show le: "received_bytes ?e \<le> original_length e"
    using ranges_cover(1) [OF rs] rec by simp
  have same: "original_length ?e = original_length e" "length (ranges ?e) = Suc (length (ranges e))"
    by (simp_all add: stored_def)
  have buf: "length (buffer ?e) = original_length e"
    using assms by (simp add: stored_def entry_ok_def length_memcpy_at)
  assume "received_bytes ?e \<noteq> original_length e"
  with assms(1,6) rs rec le same buf show "entry_ok max_size ?e"
    by (simp add: entry_ok_def)
qed

lemma update_entry_ok:
  assumes inv: "reassembler_inv now others r" and e: "map_of (entries r) i = Some e"
    and e': "original_length e' = original_length e" "last_update e' = now"
      "first_seen e' = first_seen e" "entry_ok (maximum_packet_size r) e'"
  shows "reassembler_inv now others
    (r\<lparr>entries := AList.update i e' (entries r), activity_order := remove1 i (activity_order r) @ [i]\<rparr>)"
    (is "reassembler_inv now others ?r")
proof -
  have pool: "pool_ok r" and disc: "discard_ok r" and times: "times_ok now r" and g: "gauges_ok others r"
    and disj: "set (discarded r) \<inter> fst ` set (entries r) = {}"
    using inv by (simp_all add: reassembler_inv_def)
  have dist: "distinct (map fst (entries r))" and act: "distinct (activity_order r)"
    using pool by (simp_all add: pool_ok_def)
  note upd = update_existing [OF dist e, where e' = e']
  have keys: "fst ` set (AList.update i e' (entries r)) = fst ` set (entries r)"
    using upd(1) by (metis list.set_map)
  have len: "length (AList.update i e' (entries r)) = length (entries r)"
    using upd(1) by (metis length_map)
  have "i \<in> fst ` set (entries r)" and mem: "(i, e) \<in> set (entries r)"
    using e by (auto simp: map_of_key dest: map_of_SomeD)
  then have order: "set (remove1 i (activity_order r) @ [i]) = fst ` set (entries r)"
    using pool by (auto simp: pool_ok_def)
  have "pool_ok ?r"
    using pool upd(1,3) upd(2) [where f = original_length] keys len order act e' unfolding pool_ok_def
    by (auto simp del: set_append)
  moreover have "times_ok now ?r"
  proof -
    have "map (updated_at (AList.update i e' (entries r))) (remove1 i (activity_order r) @ [i])
        = map (updated_at (entries r)) (remove1 i (activity_order r)) @ [now]"
      using act e'(2) by (auto simp: updated_at_def AList.update_conv')
    moreover have "sorted (map (updated_at (entries r)) (remove1 i (activity_order r)) @ [now])"
      using times sorted_remove1_map [of "updated_at (entries r)" "activity_order r" i]
        updated_at_bound [OF pool times] set_remove1_subset [of i "activity_order r"]
      by (auto simp: times_ok_def sorted_append)
    ultimately have "sorted (map (updated_at (AList.update i e' (entries r))) (remove1 i (activity_order r) @ [i]))"
      by (simp only:)
    moreover have "first_seen e \<le> now"
      using times mem by (fastforce simp: times_ok_def)
    ultimately show ?thesis
      using times e' upd(3) by (auto simp: times_ok_def simp del: map_append)
  qed
  moreover have "discard_ok ?r"
    using disc by (simp add: discard_ok_def)
  moreover have "gauges_ok others ?r"
    using g len by (simp add: gauges_ok_def)
  ultimately show ?thesis
    using disj keys by (simp add: reassembler_inv_def)
qed

lemma erase_updated:
  assumes "pool_ok r" "map_of (entries r) i = Some e" "original_length e' = original_length e"
  shows "erase i (r\<lparr>entries := AList.update i e' (entries r),
                  activity_order := remove1 i (activity_order r) @ [i]\<rparr>) = erase i r"
proof -
  have "remove1 i (remove1 i (activity_order r) @ [i]) = remove1 i (activity_order r)"
    using assms(1) by (simp add: pool_ok_def remove1_append)
  moreover have "AList.delete i (AList.update i e' es) = AList.delete i es" for es
    by (induction es) (auto simp: AList.delete_eq)
  ultimately show ?thesis
    using assms by (simp add: erase_def AList.update_conv' Let_def)
qed

lemma store_fragment_discard:
  assumes inv: "reassembler_inv now others r" and e: "map_of (entries r) (pk_message_id f) = Some e"
    and bad: "original_length e \<noteq> unat (pk_original_length f) \<or>
      length (ranges e) \<ge> (if pk_type f = pt_ipc then max_ipc_fragments_per_packet else max_fragments_per_packet)"
  obtains r' where "store_fragment now f start stop r = Some (None, r')" "reassembler_inv now others r'"
    "same_config r r'"
proof -
  let ?r = "count_invalid r"
  have inv': "reassembler_inv now others ?r"
    unfolding count_invalid_def using inv by (rule reassembler_inv_metrics) simp_all
  have same: "entries ?r = entries r" "limits ?r = limits r"
    "maximum_packet_size ?r = maximum_packet_size r"
    by (simp_all add: count_invalid_def)
  obtain q r' where *: "remember_discarded (pk_message_id f) now ?r = Some q" "erase (pk_message_id f) q = Some r'"
      "reassembler_inv now others r'" "entries r' = AList.delete (pk_message_id f) (entries ?r)"
      "limits r' = limits ?r" "maximum_packet_size r' = maximum_packet_size ?r"
    using discard_entry_ok [OF inv', of "pk_message_id f" e] e same(1) by metis
  then have "store_fragment now f start stop r = Some (None, r')"
    using e bad by (simp add: store_fragment_def)
  moreover have "same_config r r'"
    using * same by (auto simp: same_config_def set_delete_key)
  ultimately show thesis
    using that *(3) by blast
qed

lemma store_fragment_partial:
  assumes inv: "reassembler_inv now others r" and e: "map_of (entries r) (pk_message_id f) = Some e"
    and len: "original_length e = unat (pk_original_length f)"
      "length (ranges e) < (if pk_type f = pt_ipc then max_ipc_fragments_per_packet else max_fragments_per_packet)"
    and range: "stop = start + length (pk_payload f)" "pk_payload f \<noteq> []" "stop \<le> original_length e"
    and free: "\<not> overlaps start stop (ranges e)"
    and e': "e' = stored now (pk_payload f) start stop e"
    and r': "r' = r\<lparr>entries := AList.update (pk_message_id f) e' (entries r),
                   activity_order := remove1 (pk_message_id f) (activity_order r) @ [pk_message_id f]\<rparr>"
    and part: "received_bytes e' \<noteq> original_length e"
  shows "store_fragment now f start stop r = Some (None, r')" "reassembler_inv now others r'"
    "set (entries r') \<subseteq> insert (pk_message_id f, e') (set (entries r))"
proof -
  have pool: "pool_ok r"
    using inv by (simp add: reassembler_inv_def)
  have "entry_ok (maximum_packet_size r) e"
    using pool map_of_SomeD [OF e] by (auto simp: pool_ok_def)
  moreover have "length (ranges e) < max_ipc_fragments_per_packet"
    using len(2) by (auto simp: protocol_constants split: if_splits)
  ultimately have "entry_ok (maximum_packet_size r) e'"
    using stored_ok(2) range free part unfolding e' by blast
  then show "reassembler_inv now others r'"
    unfolding r' by (intro update_entry_ok [OF inv e]) (simp_all add: e' stored_def)
  show "store_fragment now f start stop r = Some (None, r')"
    using e len free part by (simp add: store_fragment_def r' e' stored_def Let_def)
  show "set (entries r') \<subseteq> insert (pk_message_id f, e') (set (entries r))"
    using update_existing(3) [OF _ e, of e'] pool by (auto simp: r' pool_ok_def)
qed

lemma store_fragment_complete:
  assumes inv: "reassembler_inv now others r" and e: "map_of (entries r) (pk_message_id f) = Some e"
    and len: "original_length e = unat (pk_original_length f)"
      "length (ranges e) < (if pk_type f = pt_ipc then max_ipc_fragments_per_packet else max_fragments_per_packet)"
    and free: "\<not> overlaps start stop (ranges e)"
    and e': "e' = stored now (pk_payload f) start stop e"
    and complete: "received_bytes e' = original_length e"
  obtains r' where
    "store_fragment now f start stop r = Some (Some (buffer e', Some (now - first_seen e)), r')"
    "reassembler_inv now others r'" "same_config r r'"
    "entries r' = AList.delete (pk_message_id f) (entries r)"
    "discarded_order r' = discarded_order r" "discarded r' = discarded r"
proof -
  have pool: "pool_ok r" and core: "core_inv now others r"
    and disj: "set (discarded r) \<inter> fst ` set (entries r) = {}"
    using inv by (simp_all add: reassembler_inv_core core_inv_def)
  obtain q where q: "erase (pk_message_id f) r = Some q" "core_inv now others q"
      "entries q = AList.delete (pk_message_id f) (entries r)" "discarded q = discarded r"
      "discarded_order q = discarded_order r"
      "limits q = limits r" "maximum_packet_size q = maximum_packet_size r"
    using erase_ok [OF core e] by blast
  let ?r = "q\<lparr>metrics := (metrics q)\<lparr>completed_packets := completed_packets (metrics q) + 1\<rparr>\<rparr>"
  have "reassembler_inv now others q"
    using q disj by (auto simp: reassembler_inv_core fst_set_delete_key)
  then have "reassembler_inv now others ?r"
    by (rule reassembler_inv_metrics) simp_all
  moreover have "store_fragment now f start stop r = Some (Some (buffer e', Some (now - first_seen e)), ?r)"
    using e len free complete q(1) erase_updated [OF pool e, of e']
    by (simp add: store_fragment_def e' stored_def Let_def)
  moreover have "same_config r ?r"
    using q by (auto simp: same_config_def set_delete_key)
  ultimately show thesis
    using that [of ?r] q by simp
qed

end
