(* ===== verification/Reassembly_Correct.thy ===== *)
theory Reassembly_Correct
  imports Reassembly_Invariant "HOL-Library.Multiset"
begin

text \<open>
  What the reassembler guarantees to the tunnel: it never leaves its limits, it delivers
  only packets that were sent, and it delivers every packet whose fragments all arrive in
  time, in whatever order.
\<close>

subsection \<open>Runs\<close>

fun accept_run :: "(packet \<times> time) list \<Rightarrow> reassembler \<Rightarrow> (bytes option list \<times> reassembler) option" where
  "accept_run [] r = Some ([], r)"
| "accept_run ((f, now) # fs) r = do {
     (out, r) \<leftarrow> accept f now r;
     (outs, r) \<leftarrow> accept_run fs r;
     Some (map_option fst out # outs, r)
   }"

subsection \<open>Contents of the pool\<close>

text \<open>\<open>M\<close> maps each message id to the packet its sender split.\<close>

definition agrees :: "bytes \<Rightarrow> entry \<Rightarrow> bool" where
  "agrees P e \<longleftrightarrow> length P = original_length e \<and>
     (\<forall>(b, n) \<in> set (ranges e). \<forall>k. b \<le> k \<and> k < n \<longrightarrow> buffer e ! k = P ! k)"

definition pool_agrees :: "(u64 \<rightharpoonup> bytes) \<Rightarrow> reassembler \<Rightarrow> bool" where
  "pool_agrees M r \<longleftrightarrow> (\<forall>(i, e) \<in> set (entries r). \<exists>P. M i = Some P \<and> agrees P e)"

definition honest :: "(u64 \<rightharpoonup> bytes) \<Rightarrow> packet \<Rightarrow> bool" where
  "honest M f \<longleftrightarrow> (\<exists>P. M (pk_message_id f) = Some P \<and> unat (pk_original_length f) = length P \<and>
     unat (pk_fragment_offset f) + length (pk_payload f) \<le> length P \<and>
     pk_payload f = slice (unat (pk_fragment_offset f)) (length (pk_payload f)) P)"

lemma nth_memcpy_at:
  assumes "at + length src \<le> length dst" "k < length dst"
  shows "memcpy_at at src dst ! k =
    (if at \<le> k \<and> k < at + length src then src ! (k - at) else dst ! k)"
  using assms by (auto simp: memcpy_at_def nth_append)

lemma stored_agrees:
  assumes ok: "entry_ok max_size e" and agr: "agrees P e"
    and src: "start + length src \<le> length P" "src = slice start (length src) P"
    and free: "\<not> overlaps start (start + length src) (ranges e)"
  shows "agrees P (stored now src start (start + length src) e)"
proof -
  let ?e = "stored now src start (start + length src) e"
  have len: "length (buffer e) = length P" "original_length e = length P"
    using ok agr by (simp_all add: entry_ok_def agrees_def)
  have nth: "buffer ?e ! k = (if start \<le> k \<and> k < start + length src then src ! (k - start) else buffer e ! k)"
    if "k < length P" for k
    using that len src(1) by (simp add: stored_def nth_memcpy_at)
  have new: "src ! (k - start) = P ! k" if k: "start \<le> k" "k < start + length src" for k
  proof -
    have "src ! (k - start) = slice start (length src) P ! (k - start)"
      by (rule arg_cong [OF src(2)])
    also have "\<dots> = P ! k"
      using k src(1) by simp
    finally show ?thesis .
  qed
  have "buffer ?e ! k = P ! k" if "(b, n) \<in> set (ranges ?e)" "b \<le> k" "k < n" for b n k
  proof (cases "(b, n) \<in> set (ranges e)")
    case True
    then have "n \<le> length P" "buffer e ! k = P ! k"
      using ok agr that(2,3) len by (auto simp: entry_ok_def agrees_def)
    moreover have "\<not> (start < n \<and> start + length src > b)"
      using free True by (auto simp: overlaps_def list_ex_iff)
    ultimately show ?thesis
      using nth [of k] that(2,3) by auto
  next
    case False
    then have "b = start" "n = start + length src"
      using that(1) by (auto simp: stored_def)
    then show ?thesis
      using nth [of k] new [of k] that src(1) by simp
  qed
  then show ?thesis
    using len by (auto simp: agrees_def stored_def)
qed

lemma complete_agrees:
  assumes "agrees P e" "disjoint_ranges (ranges e)" "length (buffer e) = original_length e"
    and "\<forall>(b, n) \<in> set (ranges e). b < n \<and> n \<le> original_length e"
    and "range_bytes (ranges e) = original_length e"
  shows "buffer e = P"
proof (rule nth_equalityI)
  show "length (buffer e) = length P"
    using assms by (simp add: agrees_def)
  fix k
  assume "k < length (buffer e)"
  then obtain b n where "(b, n) \<in> set (ranges e)" "b \<le> k" "k < n"
    using ranges_cover(2) [OF assms(2,4,5), of k] assms(3) by (auto split: prod.splits)
  then show "buffer e ! k = P ! k"
    using assms(1) by (auto simp: agrees_def)
qed

lemma stored_complete:
  assumes "entry_ok max_size e" "agrees P e" "src \<noteq> []"
    and "start + length src \<le> length P" "src = slice start (length src) P"
    and "\<not> overlaps start (start + length src) (ranges e)"
    and "received_bytes (stored now src start (start + length src) e) = original_length e"
  shows "buffer (stored now src start (start + length src) e) = P"
proof (rule complete_agrees)
  let ?e = "stored now src start (start + length src) e"
  show "agrees P ?e"
    using assms by (intro stored_agrees)
  show "disjoint_ranges (ranges ?e)"
    using assms by (simp add: stored_def disjoint_ranges_snoc entry_ok_def)
  show "length (buffer ?e) = original_length ?e"
    using assms by (simp add: stored_def length_memcpy_at entry_ok_def agrees_def)
  show "\<forall>(b, n) \<in> set (ranges ?e). b < n \<and> n \<le> original_length ?e"
    using assms by (auto simp: stored_def entry_ok_def agrees_def)
  show "range_bytes (ranges ?e) = original_length ?e"
    using assms by (simp add: stored_def entry_ok_def range_bytes_snoc)
qed

subsection \<open>Every step is safe and keeps the contents\<close>

lemma pool_agrees_mono: "pool_agrees M r \<Longrightarrow> set (entries r') \<subseteq> set (entries r) \<Longrightarrow> pool_agrees M r'"
  by (auto simp: pool_agrees_def)

definition step_ok ::
  "(u64 \<rightharpoonup> bytes) \<Rightarrow> time \<Rightarrow> nat \<times> nat \<times> nat \<Rightarrow> packet \<Rightarrow> reassembler \<Rightarrow>
   ((bytes \<times> time option) option \<times> reassembler) option \<Rightarrow> bool" where
  "step_ok M now others f r result \<longleftrightarrow>
     (\<exists>out r'. result = Some (out, r') \<and> reassembler_inv now others r' \<and>
       limits r' = limits r \<and> maximum_packet_size r' = maximum_packet_size r \<and>
       (pool_agrees M r \<and> honest M f \<longrightarrow>
          pool_agrees M r' \<and> (\<forall>P span. out = Some (P, span) \<longrightarrow> M (pk_message_id f) = Some P)))"

lemma step_okI:
  assumes "result = Some (None, r')" "reassembler_inv now others r'" "same_config r r'"
  shows "step_ok M now others f r result"
  using assms pool_agrees_mono unfolding step_ok_def same_config_def by blast

lemma store_fragment_ok:
  assumes inv: "reassembler_inv now others r" and e: "map_of (entries r) (pk_message_id f) = Some e"
    and f: "start = unat (pk_fragment_offset f)" "stop = start + length (pk_payload f)"
      "pk_payload f \<noteq> []" "stop \<le> unat (pk_original_length f)"
  shows "step_ok M now others f r (store_fragment now f start stop r)"
proof (cases "original_length e \<noteq> unat (pk_original_length f) \<or>
      length (ranges e) \<ge> (if pk_type f = pt_ipc then max_ipc_fragments_per_packet else max_fragments_per_packet)")
  case True
  obtain r' where "store_fragment now f start stop r = Some (None, r')" "reassembler_inv now others r'"
    "same_config r r'"
    by (rule store_fragment_discard [OF inv e True])
  then show ?thesis by (rule step_okI)
next
  case False
  then have len: "original_length e = unat (pk_original_length f)"
    and n: "length (ranges e) < (if pk_type f = pt_ipc then max_ipc_fragments_per_packet else max_fragments_per_packet)"
    by simp_all
  have mem: "(pk_message_id f, e) \<in> set (entries r)"
    using e by (rule map_of_SomeD)
  have ok: "entry_ok (maximum_packet_size r) e"
    using inv mem by (auto simp: reassembler_inv_def pool_ok_def)
  let ?e = "stored now (pk_payload f) start stop e"
  have agr: "\<exists>P. M (pk_message_id f) = Some P \<and> agrees P e \<and> start + length (pk_payload f) \<le> length P \<and>
      pk_payload f = slice start (length (pk_payload f)) P" if "pool_agrees M r" "honest M f"
    using that mem f by (fastforce simp: pool_agrees_def honest_def)
  show ?thesis
  proof (cases "overlaps start stop (ranges e)")
    case True
    let ?r = "r\<lparr>metrics := (metrics r)\<lparr>overlap_drops := overlap_drops (metrics r) + 1\<rparr>\<rparr>"
    have "store_fragment now f start stop r = Some (None, ?r)"
      using e len n True by (simp add: store_fragment_def)
    moreover have "reassembler_inv now others ?r"
      using inv by (rule reassembler_inv_metrics) simp_all
    ultimately show ?thesis
      by (rule step_okI) (simp add: same_config_def)
  next
    case free: False
    show ?thesis
    proof (cases "received_bytes ?e = original_length e")
      case True
      obtain r' where *:
        "store_fragment now f start stop r = Some (Some (buffer ?e, Some (now - first_seen e)), r')"
        "reassembler_inv now others r'" "same_config r r'"
        by (rule store_fragment_complete [OF inv e len n free refl True])
      moreover have "M (pk_message_id f) = Some (buffer ?e)" if "pool_agrees M r" "honest M f"
        using agr [OF that] stored_complete [OF ok] f(2,3) free True by metis
      ultimately show ?thesis
        using pool_agrees_mono by (auto simp: step_ok_def same_config_def)
    next
      case False
      note part = store_fragment_partial [OF inv e len n f(2,3) _ free refl refl False]
      have "pool_agrees M
          (r\<lparr>entries := AList.update (pk_message_id f) ?e (entries r),
             activity_order := remove1 (pk_message_id f) (activity_order r) @ [pk_message_id f]\<rparr>)"
        if "pool_agrees M r" "honest M f"
        using agr [OF that] stored_agrees [OF ok] part(3) f(2,4) free len that(1)
        by (fastforce simp: pool_agrees_def)
      with part(1,2) f(4) len show ?thesis
        by (auto simp: step_ok_def)
    qed
  qed
qed

lemma step_ok_after:
  assumes "step_ok M now others f q result" "same_config r q"
  shows "step_ok M now others f r result"
proof -
  have "pool_agrees M r \<Longrightarrow> pool_agrees M q" "limits q = limits r"
    "maximum_packet_size q = maximum_packet_size r"
    using assms(2) pool_agrees_mono by (auto simp: same_config_def)
  then show ?thesis
    using assms(1) unfolding step_ok_def by fastforce
qed

lemma open_and_store_ok:
  assumes inv: "reassembler_inv now others r"
    and new: "pk_message_id f \<notin> set (discarded r)" "map_of (entries r) (pk_message_id f) = None"
    and len: "len = unat (pk_original_length f)" "0 < len" "len \<le> maximum_packet_size r" "len \<le> limit_bytes (limits r)"
    and f: "start = unat (pk_fragment_offset f)" "stop = start + length (pk_payload f)"
      "pk_payload f \<noteq> []" "stop \<le> len"
  shows "step_ok M now others f r
    (do { q \<leftarrow> while_step (Suc (length (arrival_order r))) (evict_oldest now len) r;
          store_fragment now f start stop (open_entry now (pk_message_id f) len q) })"
proof -
  have "pk_message_id f \<notin> fst ` set (entries r)"
    using new(2) by (simp add: map_of_eq_None_iff)
  from evict_loop_ok [OF inv len(4) new(1) this] obtain q where q:
    "while_step (Suc (length (arrival_order r))) (evict_oldest now len) r = Some q"
    "reassembler_inv now others q" "same_config r q"
    "pk_message_id f \<notin> set (discarded q)" "pk_message_id f \<notin> fst ` set (entries q)"
    "length (entries q) < limit_entries (limits q)" "total_bytes q + len \<le> limit_bytes (limits q)"
    by blast
  let ?o = "open_entry now (pk_message_id f) len q"
  have "len \<le> maximum_packet_size q"
    using q(3) len(3) by (simp add: same_config_def)
  then have inv': "reassembler_inv now others ?o"
    using open_entry_ok [OF q(2,4,5) len(2) _ q(6,7)] by blast
  obtain e where e: "map_of (entries ?o) (pk_message_id f) = Some e" "ranges e = []" "original_length e = len"
    and ent: "entries ?o = (pk_message_id f, e) # entries q"
    by (simp add: open_entry_def Let_def)
  have "step_ok M now others f ?o (store_fragment now f start stop ?o)"
    using store_fragment_ok [OF inv' e(1) f(1,2,3)] f(4) len(1) by simp
  moreover have "pool_agrees M ?o" if r: "pool_agrees M r" and h: "honest M f"
  proof -
    have "pool_agrees M q"
      using r q(3) pool_agrees_mono by (auto simp: same_config_def)
    moreover obtain P where "M (pk_message_id f) = Some P" "agrees P e"
      using h e len(1) by (auto simp: honest_def agrees_def)
    ultimately show ?thesis
      by (auto simp: pool_agrees_def ent)
  qed
  moreover have "limits ?o = limits r" "maximum_packet_size ?o = maximum_packet_size r"
    using q(3) by (simp_all add: open_entry_def Let_def same_config_def)
  ultimately show ?thesis
    using q(1) by (auto simp: step_ok_def)
qed

lemma drop_late_ok:
  assumes "reassembler_inv now others q"
  shows "step_ok M now others f q
    (Some (None, q\<lparr>metrics := (metrics q)\<lparr>late_fragment_drops := late_fragment_drops (metrics q) + 1\<rparr>\<rparr>))"
  by (rule step_okI [OF refl reassembler_inv_metrics [OF assms]]) (simp_all add: same_config_def)

lemma disjoint_insert_mono: "A \<subseteq> insert x B \<Longrightarrow> x \<notin> K \<Longrightarrow> B \<inter> K = {} \<Longrightarrow> A \<inter> K = {}"
  by blast

lemma drop_full_ok:
  assumes inv: "reassembler_inv now others q" and new: "map_of (entries q) (pk_message_id f) = None"
  shows "step_ok M now others f q
    (do { r \<leftarrow> remember_discarded (pk_message_id f) now
            (q\<lparr>metrics := (metrics q)\<lparr>capacity_drops := capacity_drops (metrics q) + 1\<rparr>\<rparr>);
          Some (None, r) })"
proof -
  let ?q = "q\<lparr>metrics := (metrics q)\<lparr>capacity_drops := capacity_drops (metrics q) + 1\<rparr>\<rparr>"
  have "core_inv now others ?q" and disj: "set (discarded ?q) \<inter> fst ` set (entries ?q) = {}"
    using reassembler_inv_metrics [OF inv, of "metrics ?q"] by (simp_all add: reassembler_inv_core)
  then obtain r' where r': "remember_discarded (pk_message_id f) now ?q = Some r'"
    "core_inv now others r'" "same_pool ?q r'"
    "set (discarded r') \<subseteq> insert (pk_message_id f) (set (discarded ?q))"
    using remember_discarded_ok [of now others ?q "pk_message_id f"] by blast
  have "pk_message_id f \<notin> fst ` set (entries r')" "fst ` set (entries r') = fst ` set (entries ?q)"
    using r'(3) new by (simp_all add: same_pool_def map_of_eq_None_iff)
  with disjoint_insert_mono [OF r'(4)] disj have "set (discarded r') \<inter> fst ` set (entries r') = {}"
    by simp
  with r' have "reassembler_inv now others r'" "same_config q r'"
    by (simp_all add: reassembler_inv_core same_pool_def same_config_def)
  then show ?thesis
    using r'(1) by (auto intro: step_okI)
qed

lemma accept_ok:
  assumes inv: "reassembler_inv clock others r" and later: "clock \<le> now"
  shows "step_ok M now others f r (accept f now r)"
proof -
  define len where "len = unat (pk_original_length f)"
  define start where "start = unat (pk_fragment_offset f)"
  define stop where "stop = start + length (pk_payload f)"
  note fold = len_def [symmetric] start_def [symmetric] stop_def [symmetric]
  have inv_now: "reassembler_inv now others r"
    by (rule reassembler_inv_later [OF inv later])
  let ?bad = "pk_message_id f = 0 \<or> len = 0 \<or> len > maximum_packet_size r \<or> pk_payload f = [] \<or> stop > len"
  consider "?bad" | "\<not> ?bad" "start = 0" "stop = len" | "\<not> ?bad" "\<not> (start = 0 \<and> stop = len)"
    by blast
  then show ?thesis
  proof cases
    case 1
    then have "accept f now r = Some (None, count_invalid r)"
      by (auto simp: accept_def Let_def fold)
    moreover have "reassembler_inv now others (count_invalid r)"
      unfolding count_invalid_def using inv_now by (rule reassembler_inv_metrics) simp_all
    ultimately show ?thesis
      by (rule step_okI) (simp add: same_config_def count_invalid_def)
  next
    case 2
    then have "accept f now r = Some (Some (pk_payload f, None), r)"
      by (auto simp: accept_def Let_def len_def start_def stop_def)
    moreover have "honest M f \<Longrightarrow> M (pk_message_id f) = Some (pk_payload f)"
      using 2 by (auto simp: honest_def len_def start_def stop_def)
    ultimately show ?thesis
      using inv_now by (auto simp: step_ok_def)
  next
    case 3
    obtain q where q: "cleanup_expired now r = Some q" "reassembler_inv now others q" "same_config r q"
      using cleanup_expired_ok [OF inv later] by blast
    have max: "maximum_packet_size q = maximum_packet_size r"
      using q(3) by (simp add: same_config_def)
    have known: "step_ok M now others f q (store_fragment now f start stop q)"
      if "map_of (entries q) (pk_message_id f) = Some e" for e
      using store_fragment_ok [OF q(2) that start_def stop_def] 3 by (simp add: len_def)
    have "step_ok M now others f q (accept f now r)"
      using 3 q(1) drop_late_ok [OF q(2)] drop_full_ok [OF q(2)] known max
        open_and_store_ok [OF q(2) _ _ len_def _ _ _ start_def stop_def]
      by (auto simp: accept_def Let_def fold not_less)
    then show ?thesis
      using q(3) by (rule step_ok_after)
  qed
qed

subsection \<open>Runs from a fresh reassembler\<close>

lemma Reassembler_inv:
  assumes "Reassembler max_size m lim = Inr r"
  shows "reassembler_inv clock (active_entries m, active_bytes m, discarded_ids m) r"
    and "entries r = []" "discarded_order r = []" "arrival_order r = []" "activity_order r = []"
    "discarded r = []" "limits r = lim" "maximum_packet_size r = max_size" "0 < limit_entries lim"
  using assms by (auto simp: Reassembler_def reassembler_inv_def inv_defs split: if_splits)

lemma accept_run_ok:
  assumes "reassembler_inv clock others r" "sorted (clock # map snd fs)"
  shows "\<exists>outs r'. accept_run fs r = Some (outs, r') \<and>
    reassembler_inv (last (clock # map snd fs)) others r' \<and> limits r' = limits r \<and>
    (pool_agrees M r \<and> (\<forall>(f, t) \<in> set fs. honest M f) \<longrightarrow>
       list_all2 (\<lambda>(f, t) out. \<forall>P. out = Some P \<longrightarrow> M (pk_message_id f) = Some P) fs outs)"
  using assms
proof (induction fs arbitrary: clock r)
  case Nil
  then show ?case by simp
next
  case (Cons x fs)
  obtain f now where x: "x = (f, now)" by force
  have "step_ok M now others f r (accept f now r)"
    using Cons.prems x by (intro accept_ok) auto
  then obtain out q where q: "accept f now r = Some (out, q)" "reassembler_inv now others q"
      "limits q = limits r"
      "pool_agrees M r \<and> honest M f \<longrightarrow>
         pool_agrees M q \<and> (\<forall>P span. out = Some (P, span) \<longrightarrow> M (pk_message_id f) = Some P)"
    unfolding step_ok_def by blast
  have "sorted (now # map snd fs)"
    using Cons.prems x by simp
  from Cons.IH [OF q(2) this] obtain outs r' where r': "accept_run fs q = Some (outs, r')"
      "reassembler_inv (last (now # map snd fs)) others r'" "limits r' = limits q"
      "pool_agrees M q \<and> (\<forall>(f, t) \<in> set fs. honest M f) \<longrightarrow>
         list_all2 (\<lambda>(f, t) out. \<forall>P. out = Some P \<longrightarrow> M (pk_message_id f) = Some P) fs outs"
    by blast
  from q r' show ?case
    by (auto simp: x)
qed

text \<open>
  C17. Memory safety and bounded memory: from a fresh reassembler, for any fragments with
  non-decreasing time stamps, every call returns (no invalid iterator, no empty list is
  read), the pool stays within its entry and byte limits, the discard list within its
  limit, and retiring the session takes exactly its own share out of the shared gauges.
\<close>

theorem reassembler_bounded:
  assumes "Reassembler max_size m lim = Inr r0" "sorted (map snd fs)"
  shows "\<exists>outs r. accept_run fs r0 = Some (outs, r) \<and>
    length (entries r) \<le> limit_entries lim \<and>
    (\<Sum>(i, e) \<leftarrow> entries r. length (buffer e)) \<le> limit_bytes lim \<and>
    length (discarded_order r) \<le> limit_discarded_ids lim \<and>
    active_entries (destroy r) = active_entries m \<and>
    active_bytes (destroy r) = active_bytes m \<and>
    discarded_ids (destroy r) = discarded_ids m"
proof -
  define clock where "clock = (case fs of [] \<Rightarrow> 0 | (f, t) # _ \<Rightarrow> t)"
  note init = Reassembler_inv [OF assms(1)]
  have "sorted (clock # map snd fs)"
    using assms(2) by (cases fs) (auto simp: clock_def)
  from accept_run_ok [OF init(1) this] obtain outs r where run: "accept_run fs r0 = Some (outs, r)"
    and inv: "reassembler_inv (last (clock # map snd fs)) (active_entries m, active_bytes m, discarded_ids m) r"
    and lim: "limits r = lim"
    using init(7) by blast
  have pool: "pool_ok r" and disc: "discard_ok r"
    and g: "gauges_ok (active_entries m, active_bytes m, discarded_ids m) r"
    using inv by (simp_all add: reassembler_inv_def)
  have "(\<Sum>(i, e) \<leftarrow> entries r. length (buffer e)) = total_bytes r"
    using pool unfolding pool_ok_def
    by (auto simp: entry_ok_def intro!: arg_cong [of _ _ sum_list] map_cong)
  then show ?thesis
    using run lim pool disc g length_discarded [OF disc]
    by (simp add: pool_ok_def discard_ok_def gauges_ok_def destroy_def)
qed

text \<open>
  C6. Integrity: if every fragment that arrives is a slice of the packet its sender split
  under that message id, then every packet the reassembler delivers is exactly the packet
  that was sent under that id, whatever the order, duplication, loss and interleaving with
  other messages.
\<close>

theorem reassembly_integrity:
  assumes "Reassembler max_size m lim = Inr r0" "sorted (map snd fs)"
    and "\<forall>(f, t) \<in> set fs. honest M f"
  shows "\<exists>outs r. accept_run fs r0 = Some (outs, r) \<and>
    list_all2 (\<lambda>(f, t) out. \<forall>P. out = Some P \<longrightarrow> M (pk_message_id f) = Some P) fs outs"
proof -
  define clock where "clock = (case fs of [] \<Rightarrow> 0 | (f, t) # _ \<Rightarrow> t)"
  note init = Reassembler_inv [OF assms(1)]
  have "sorted (clock # map snd fs)"
    using assms(2) by (cases fs) (auto simp: clock_def)
  moreover have "pool_agrees M r0"
    by (simp add: pool_agrees_def init(2))
  ultimately show ?thesis
    using accept_run_ok [OF init(1), of clock fs M] assms(3) by blast
qed

text \<open>
  C37. Timeliness: after any history, cleaning up at a time not before the last event drops
  every partial message without an update in the last three seconds and every discard
  record that has run out.
\<close>

theorem cleanup_drops_expired:
  assumes "Reassembler max_size m lim = Inr r0" "sorted (map snd fs @ [now])"
    and "accept_run fs r0 = Some (outs, r)"
  shows "\<exists>r'. cleanup_expired now r = Some r' \<and> unexpired now r'"
proof -
  define clock where "clock = (case fs of [] \<Rightarrow> now | (f, t) # _ \<Rightarrow> t)"
  note init = Reassembler_inv [OF assms(1)]
  have "sorted (clock # map snd fs)"
    using assms(2) by (cases fs) (auto simp: clock_def sorted_append)
  then have "reassembler_inv (last (clock # map snd fs)) (active_entries m, active_bytes m, discarded_ids m) r"
    using accept_run_ok [OF init(1), of clock fs] assms(3) by auto
  moreover have "last (clock # map snd fs) \<le> now"
    using assms(2) last_in_set [of "map snd fs"] by (cases fs) (auto simp: clock_def sorted_append)
  ultimately show ?thesis
    using cleanup_expired_ok by blast
qed

subsection \<open>Delivery\<close>

lemma mset_map_permutation:
  "mset xs = mset (map f ys) \<Longrightarrow> \<exists>zs. mset zs = mset ys \<and> xs = map f zs"
proof (induction xs arbitrary: ys)
  case Nil
  then show ?case by simp
next
  case (Cons x xs)
  then have "x \<in> set (map f ys)"
    by (metis list.set_intros(1) set_mset_mset)
  then obtain y where y: "y \<in> set ys" "x = f y" by auto
  have "mset xs = add_mset x (mset xs) - {#x#}"
    by simp
  also have "\<dots> = mset (map f (remove1 y ys))"
    using Cons.prems y by (simp add: image_mset_Diff)
  finally have "mset xs = mset (map f (remove1 y ys))" .
  from Cons.IH [OF this] obtain zs where "mset zs = mset (remove1 y ys)" "xs = map f zs"
    by blast
  with y show ?case
    by (intro exI [of _ "y # zs"]) simp
qed

lemma cleanup_idle:
  assumes "discarded_order r = []" "unexpired now r" "pool_ok r"
  shows "cleanup_expired now r = Some r"
proof (cases "activity_order r")
  case Nil
  with assms show ?thesis
    by (simp add: cleanup_expired_def expire_discarded_def expire_entry_def)
next
  case (Cons i rest)
  then obtain e where e: "map_of (entries r) i = Some e"
    using pool_head(1) [OF assms(3)] by blast
  then have "now - last_update e < reassembly_timeout"
    using assms(2) map_of_SomeD [OF e] by (auto simp: unexpired_def)
  with assms(1) Cons e show ?thesis
    by (simp add: cleanup_expired_def expire_discarded_def expire_entry_def)
qed

definition fragment_range :: "fragment_plan \<Rightarrow> nat \<Rightarrow> nat \<times> nat" where
  "fragment_range plan i = (fragment_start plan i, fragment_start plan i + fragment_size plan i)"

lemma fragment_start_mono: "i < j \<Longrightarrow> fragment_start plan i + fragment_size plan i \<le> fragment_start plan j"
proof (induction j)
  case (Suc j)
  then show ?case by (cases "i = j") auto
qed simp

lemma fragment_ranges_free:
  assumes "i \<notin> set got"
  shows "\<not> overlaps (fragment_start plan i) (fragment_start plan i + fragment_size plan i)
      (map (fragment_range plan) got)"
proof -
  have "\<not> (fragment_start plan i < fragment_start plan j + fragment_size plan j \<and>
           fragment_start plan j < fragment_start plan i + fragment_size plan i)" if "j \<in> set got" for j
    using that assms fragment_start_mono [of i j plan] fragment_start_mono [of j i plan]
    by (cases i j rule: linorder_cases) auto
  then show ?thesis
    by (auto simp: overlaps_def list_ex_iff fragment_range_def)
qed

lemma range_bytes_fragments:
  "range_bytes (map (fragment_range plan) is) = (\<Sum>i\<leftarrow>is. fragment_size plan i)"
  by (simp add: range_bytes_def fragment_range_def comp_def)

text \<open>The reassembler in the middle of one message, \<open>got\<close> the fragments it has stored.\<close>

definition receiving ::
  "nat \<times> nat \<times> nat \<Rightarrow> u64 \<Rightarrow> bytes \<Rightarrow> fragment_plan \<Rightarrow> time \<Rightarrow> nat list \<Rightarrow> reassembler \<Rightarrow> bool" where
  "receiving others msg logical plan now got r \<longleftrightarrow>
     reassembler_inv now others r \<and> discarded_order r = [] \<and>
     length logical \<le> maximum_packet_size r \<and> length logical \<le> limit_bytes (limits r) \<and>
     (if got = [] then entries r = []
      else \<exists>e. entries r = [(msg, e)] \<and> original_length e = length logical \<and>
               ranges e = map (fragment_range plan) got \<and> last_update e = now)"

lemma receiving_discarded: "receiving others msg logical plan now got r \<Longrightarrow> discarded r = []"
  by (auto simp: receiving_def reassembler_inv_def discard_ok_def)

lemma receiving_open:
  assumes rec: "receiving others msg logical plan now [] r" and "logical \<noteq> []" "now \<le> later"
    and q: "q = open_entry later msg (length logical) r"
  shows "while_step (Suc (length (arrival_order r))) (evict_oldest later (length logical)) r = Some r"
    and "reassembler_inv later others q" "discarded_order q = []"
    and "limits q = limits r" "maximum_packet_size q = maximum_packet_size r"
    and "\<exists>e. entries q = [(msg, e)] \<and> original_length e = length logical \<and> ranges e = [] \<and>
             last_update e = later"
proof -
  have inv: "reassembler_inv later others r"
    using rec by (intro reassembler_inv_later [OF _ assms(3)]) (simp add: receiving_def)
  have facts: "entries r = []" "discarded r = []" "0 < limit_entries (limits r)" "total_bytes r = 0"
    "length logical \<le> limit_bytes (limits r)" "length logical \<le> maximum_packet_size r"
    using rec receiving_discarded [OF rec]
    by (auto simp: receiving_def reassembler_inv_def pool_ok_def discard_ok_def)
  show "while_step (Suc (length (arrival_order r))) (evict_oldest later (length logical)) r = Some r"
    using facts by (simp add: evict_oldest_def)
  show "reassembler_inv later others q"
    unfolding q using facts assms(2) by (intro open_entry_ok [OF inv]) auto
  show "discarded_order q = []" "limits q = limits r" "maximum_packet_size q = maximum_packet_size r"
    "\<exists>e. entries q = [(msg, e)] \<and> original_length e = length logical \<and> ranges e = [] \<and> last_update e = later"
    using rec by (simp_all add: q open_entry_def Let_def receiving_def)
qed

lemma plan_fragment_fields:
  assumes "make_fragment_plan (length logical) m limit = Inr plan" "i < plan_count plan"
    and "length logical < 2 ^ 32" and f: "f = plan_fragment t tunnel msg logical plan i"
  shows "unat (pk_original_length f) = length logical"
    "unat (pk_fragment_offset f) = fragment_start plan i"
    "length (pk_payload f) = fragment_size plan i" "pk_message_id f = msg" "pk_type f = t"
    "fragment_start plan i + fragment_size plan i \<le> length logical"
    "honest [msg \<mapsto> logical] f"
proof -
  show b: "fragment_start plan i + fragment_size plan i \<le> length logical"
    by (rule fragment_start_bound [OF assms(1,2)])
  show len: "unat (pk_original_length f) = length logical"
    "unat (pk_fragment_offset f) = fragment_start plan i"
    using b assms(3) by (simp_all add: f plan_fragment_def unat_of_nat take_bit_nat_eq_self)
  show pay: "length (pk_payload f) = fragment_size plan i" and id: "pk_message_id f = msg" "pk_type f = t"
    using b by (simp_all add: f plan_fragment_def)
  show "honest [msg \<mapsto> logical] f"
    unfolding honest_def using len pay id b by (simp add: f plan_fragment_def)
qed

lemma missing_fragment:
  assumes plan: "make_fragment_plan (length logical) m limit = Inr plan"
    and got: "distinct got" "set got \<subseteq> {..<plan_count plan}"
  shows "length got \<le> plan_count plan"
    and "(\<Sum>j\<leftarrow>got. fragment_size plan j) = length logical \<longleftrightarrow> length got = plan_count plan"
proof -
  have card: "length got = card (set got)"
    using got(1) by (simp add: distinct_card)
  show "length got \<le> plan_count plan"
    using card card_mono [OF _ got(2)] by simp
  have sum: "(\<Sum>j\<leftarrow>got. fragment_size plan j) = (\<Sum>j\<in>set got. fragment_size plan j)"
    using got(1) by (simp add: sum_list_distinct_conv_sum_set)
  have total: "(\<Sum>j<plan_count plan. fragment_size plan j) = length logical"
    by (rule make_fragment_plan_sizes(2) [OF plan])
  show "(\<Sum>j\<leftarrow>got. fragment_size plan j) = length logical \<longleftrightarrow> length got = plan_count plan"
  proof
    assume "length got = plan_count plan"
    then have "set got = {..<plan_count plan}"
      using card card_subset_eq [OF _ got(2)] by simp
    then show "(\<Sum>j\<leftarrow>got. fragment_size plan j) = length logical"
      using sum total by simp
  next
    assume full: "(\<Sum>j\<leftarrow>got. fragment_size plan j) = length logical"
    have "set got = {..<plan_count plan}"
    proof (rule ccontr)
      assume "set got \<noteq> {..<plan_count plan}"
      then obtain x where "x \<in> {..<plan_count plan} - set got"
        using got(2) by blast
      then have "(\<Sum>j\<in>set got. fragment_size plan j) < (\<Sum>j<plan_count plan. fragment_size plan j)"
        using got(2) make_fragment_plan_sizes(3) [OF plan] by (intro sum_strict_mono2) auto
      with full sum total show False by simp
    qed
    with card show "length got = plan_count plan" by simp
  qed
qed

lemma receive_entry:
  assumes rec: "receiving others msg logical plan now got r"
    and plan: "make_fragment_plan (length logical) m limit = Inr plan"
    and i: "i < plan_count plan" "f = plan_fragment t tunnel msg logical plan i"
    and sz: "length logical < 2 ^ 32" "msg \<noteq> 0" and many: "1 < plan_count plan"
    and time: "now \<le> later" "later - now < reassembly_timeout"
  shows "\<exists>q e. accept f later r =
        store_fragment later f (fragment_start plan i) (fragment_start plan i + fragment_size plan i) q \<and>
      reassembler_inv later others q \<and> discarded_order q = [] \<and>
      limits q = limits r \<and> maximum_packet_size q = maximum_packet_size r \<and>
      entries q = [(msg, e)] \<and> original_length e = length logical \<and>
      ranges e = map (fragment_range plan) got"
proof -
  note fields = plan_fragment_fields [OF plan i(1) sz(1) i(2)]
  have inv: "reassembler_inv now others r" and pool: "pool_ok r" and ne: "logical \<noteq> []"
    using rec make_fragment_plan_ok(1) [OF plan] by (auto simp: receiving_def reassembler_inv_def)
  have size: "0 < fragment_size plan i" "fragment_size plan i < length logical"
  proof -
    show "0 < fragment_size plan i"
      by (rule make_fragment_plan_sizes(3) [OF plan])
    have "(\<Sum>j\<leftarrow>[i]. fragment_size plan j) \<noteq> length logical"
      using missing_fragment(2) [OF plan, of "[i]"] i(1) many by simp
    then show "fragment_size plan i < length logical"
      using fields(6) by simp
  qed
  have fresh: "unexpired later r"
    using rec time by (auto simp: receiving_def unexpired_def split: if_splits)
  have idle: "cleanup_expired later r = Some r"
    using rec by (intro cleanup_idle fresh pool) (simp add: receiving_def)
  have accept: "accept f later r =
     (if map_of (entries r) msg = None
      then do { q \<leftarrow> while_step (Suc (length (arrival_order r))) (evict_oldest later (length logical)) r;
                store_fragment later f (fragment_start plan i) (fragment_start plan i + fragment_size plan i)
                  (open_entry later msg (length logical) q) }
      else store_fragment later f (fragment_start plan i) (fragment_start plan i + fragment_size plan i) r)"
    using rec fields size sz(2) idle receiving_discarded [OF rec]
    by (auto simp: accept_def Let_def receiving_def)
  show ?thesis
  proof (cases "got = []")
    case True
    let ?q = "open_entry later msg (length logical) r"
    note op = receiving_open [OF rec [unfolded True] ne time(1) refl]
    have "map_of (entries r) msg = None"
      using rec True by (simp add: receiving_def)
    then show ?thesis
      using accept [unfolded op(1)] op(2-) True by (intro exI [of _ ?q]) auto
  next
    case False
    then show ?thesis
      using accept rec reassembler_inv_later [OF inv time(1)]
      by (intro exI [of _ r]) (auto simp: receiving_def)
  qed
qed

lemma receive_step:
  assumes rec: "receiving others msg logical plan now got r"
    and plan: "make_fragment_plan (length logical) m limit = Inr plan"
    and lim: "limit = (if t = pt_ipc then max_ipc_fragments_per_packet else max_fragments_per_packet)"
    and i: "i < plan_count plan" "f = plan_fragment t tunnel msg logical plan i"
    and got: "i \<notin> set got" "distinct got" "set got \<subseteq> {..<plan_count plan}"
    and sz: "length logical < 2 ^ 32" "msg \<noteq> 0" and many: "1 < plan_count plan"
    and time: "now \<le> later" "later - now < reassembly_timeout"
  shows "if Suc (length got) = plan_count plan
    then \<exists>out r'. accept f later r = Some (Some out, r')
    else \<exists>r'. accept f later r = Some (None, r') \<and> receiving others msg logical plan later (got @ [i]) r'"
proof -
  note fields = plan_fragment_fields [OF plan i(1) sz(1) i(2)]
  let ?start = "fragment_start plan i" and ?stop = "fragment_start plan i + fragment_size plan i"
  obtain q e where q: "accept f later r = store_fragment later f ?start ?stop q"
      "reassembler_inv later others q" "discarded_order q = []"
      "limits q = limits r" "maximum_packet_size q = maximum_packet_size r"
    and e: "entries q = [(msg, e)]" "original_length e = length logical"
      "ranges e = map (fragment_range plan) got"
    using receive_entry [OF rec plan i sz many time] by blast
  let ?e = "stored later (pk_payload f) ?start ?stop e"
  have found: "map_of (entries q) (pk_message_id f) = Some e"
    using e(1) fields(4) by simp
  have len: "original_length e = unat (pk_original_length f)"
    using e(2) fields(1) by simp
  have got': "distinct (got @ [i])" "set (got @ [i]) \<subseteq> {..<plan_count plan}"
    using got i(1) by auto
  have room: "length (ranges e) < (if pk_type f = pt_ipc then max_ipc_fragments_per_packet else max_fragments_per_packet)"
    using missing_fragment(1) [OF plan got'] make_fragment_plan_ok(4) [OF plan] lim e(3) fields(5) by simp
  have free: "\<not> overlaps ?start ?stop (ranges e)"
    unfolding e(3) by (rule fragment_ranges_free [OF got(1)])
  have "entry_ok (maximum_packet_size q) e"
    using q(2) e(1) by (simp add: reassembler_inv_def pool_ok_def)
  then have "received_bytes ?e = (\<Sum>j\<leftarrow>got @ [i]. fragment_size plan j)"
    using fields(3) e(3) by (simp add: stored_def entry_ok_def range_bytes_fragments)
  then have full: "received_bytes ?e = original_length e \<longleftrightarrow> Suc (length got) = plan_count plan"
    using missing_fragment(2) [OF plan got'] e(2) by simp
  show ?thesis
  proof (cases "Suc (length got) = plan_count plan")
    case True
    with full obtain r' where
      "store_fragment later f ?start ?stop q = Some (Some (buffer ?e, Some (later - first_seen e)), r')"
      using store_fragment_complete [OF q(2) found len room free refl] by blast
    with True q(1) show ?thesis by simp
  next
    case False
    with full have part: "received_bytes ?e \<noteq> original_length e" by simp
    have ne: "pk_payload f \<noteq> []" "?stop = ?start + length (pk_payload f)" "?stop \<le> original_length e"
      using fields make_fragment_plan_sizes(3) [OF plan, of i] e(2) by auto
    note stored = store_fragment_partial [OF q(2) found len room ne(2,1,3) free refl refl part]
    have "receiving others msg logical plan later (got @ [i])
      (q\<lparr>entries := AList.update (pk_message_id f) ?e (entries q),
         activity_order := remove1 (pk_message_id f) (activity_order q) @ [pk_message_id f]\<rparr>)"
      using stored(2) q e rec fields(4) by (simp add: receiving_def stored_def fragment_range_def)
    with False q(1) stored(1) show ?thesis by auto
  qed
qed

definition prompt :: "time list \<Rightarrow> bool" where
  "prompt = successively (\<lambda>a b. a \<le> b \<and> b - a < reassembly_timeout)"

lemma prompt_sorted: "prompt ts \<Longrightarrow> sorted ts"
  unfolding prompt_def by (induction ts rule: induct_list012) auto

lemma receive_run:
  assumes plan: "make_fragment_plan (length logical) m limit = Inr plan"
    and lim: "limit = (if t = pt_ipc then max_ipc_fragments_per_packet else max_fragments_per_packet)"
    and sz: "length logical < 2 ^ 32" "msg \<noteq> 0" and many: "1 < plan_count plan"
  shows "receiving others msg logical plan now got r \<Longrightarrow> rest \<noteq> [] \<Longrightarrow>
    distinct (got @ rest) \<Longrightarrow> set (got @ rest) = {..<plan_count plan} \<Longrightarrow>
    length ts = length rest \<Longrightarrow> prompt (now # ts) \<Longrightarrow>
    \<exists>P r'. accept_run (zip (map (plan_fragment t tunnel msg logical plan) rest) ts) r
      = Some (replicate (length rest - 1) None @ [Some P], r')"
proof (induction rest arbitrary: got r now ts)
  case Nil
  then show ?case by simp
next
  case (Cons i rest)
  obtain later ts' where ts: "ts = later # ts'" "length ts' = length rest"
    using Cons.prems(5) by (cases ts) auto
  have time: "now \<le> later" "later - now < reassembly_timeout" "prompt (later # ts')"
    using Cons.prems(6) ts by (simp_all add: prompt_def)
  have count: "plan_count plan = length got + Suc (length rest)"
    using Cons.prems(3,4) distinct_card [OF Cons.prems(3)] by simp
  have i: "i < plan_count plan" "i \<notin> set got" "distinct got" "set got \<subseteq> {..<plan_count plan}"
    using Cons.prems(3,4) by auto
  note step = receive_step [OF Cons.prems(1) plan lim i(1) refl i(2-4) sz many time(1,2), of tunnel]
  show ?case
  proof (cases "rest = []")
    case True
    with step count obtain out r' where "accept (plan_fragment t tunnel msg logical plan i) later r = Some (Some out, r')"
      by auto
    with True ts show ?thesis by simp
  next
    case False
    with step count obtain q where q: "accept (plan_fragment t tunnel msg logical plan i) later r = Some (None, q)"
        "receiving others msg logical plan later (got @ [i]) q"
      by auto
    have "\<exists>P r'. accept_run (zip (map (plan_fragment t tunnel msg logical plan) rest) ts') q
      = Some (replicate (length rest - 1) None @ [Some P], r')"
      using Cons.prems(3,4) False ts(2) time(3) by (intro Cons.IH [OF q(2)]) auto
    with q(1) ts False show ?thesis
      by (cases rest) auto
  qed
qed

lemma receive_single:
  assumes plan: "make_fragment_plan (length logical) m limit = Inr plan" "plan_count plan = 1"
    and sz: "length logical < 2 ^ 32" "msg \<noteq> 0" "length logical \<le> maximum_packet_size r"
  shows "accept (plan_fragment t tunnel msg logical plan 0) now r = Some (Some (logical, None), r)"
proof -
  note fields = plan_fragment_fields(1-4) [OF plan(1) _ sz(1) refl]
  have "fragment_size plan 0 = length logical" "logical \<noteq> []"
    using make_fragment_plan_sizes(2) [OF plan(1)] make_fragment_plan_ok(1) [OF plan(1)] plan(2) by auto
  moreover from this have "pk_payload (plan_fragment t tunnel msg logical plan 0) = logical"
    by (simp add: plan_fragment_def)
  ultimately show ?thesis
    using plan(2) sz by (simp add: accept_def Let_def fields)
qed

text \<open>
  C5. Delivery, end to end: take a packet that \<open>send_data\<close> splits and feed its fragments
  to a fresh reassembler in any order, with less than three seconds between arrivals.
  Nothing is delivered before the last fragment, and with the last fragment exactly the
  original packet is delivered.
\<close>

theorem reassembly_delivers:
  assumes "send_fragments t tunnel msg maximum limit logical = Inr frags"
    and "limit = (if t = pt_ipc then max_ipc_fragments_per_packet else max_fragments_per_packet)"
    and "mset fs = mset frags" "length ts = length fs" "prompt ts"
    and "Reassembler max_size m lim = Inr r0"
    and "length logical \<le> max_size" "length logical \<le> limit_bytes lim" "length logical < 2 ^ 32" "msg \<noteq> 0"
  shows "\<exists>r. accept_run (zip fs ts) r0 = Some (replicate (length fs - 1) None @ [Some logical], r)"
proof -
  obtain plan where plan:
    "make_fragment_plan (length logical) (send_size_limit t maximum (length logical)) limit = Inr plan"
    and frags: "frags = map (plan_fragment t tunnel msg logical plan) [0..<plan_count plan]"
    by (rule send_fragments_ok [OF assms(1)])
  obtain js where perm: "mset js = mset [0..<plan_count plan]"
    and fs: "fs = map (plan_fragment t tunnel msg logical plan) js"
    using mset_map_permutation [OF assms(3) [unfolded frags]] by blast
  have js: "distinct js" "set js = {..<plan_count plan}" "length js = plan_count plan"
    using perm mset_eq_imp_distinct_iff [of js "[0..<plan_count plan]"] mset_eq_setD [OF perm]
      mset_eq_length [OF perm] by auto
  have pos: "0 < plan_count plan"
    by (rule make_fragment_plan_sizes(1) [OF plan])
  note init = Reassembler_inv [OF assms(6)]
  have "length js = plan_count plan" "length ts = plan_count plan"
    using js(3) assms(4) by (simp_all add: fs)
  with pos have ne: "js \<noteq> []" "ts \<noteq> []"
    by fastforce+
  have "\<exists>P r. accept_run (zip fs ts) r0 = Some (replicate (length fs - 1) None @ [Some P], r)"
  proof (cases "plan_count plan = 1")
    case True
    then obtain j now where "js = [j]" "ts = [now]"
      using \<open>length js = plan_count plan\<close> \<open>length ts = plan_count plan\<close>
      by (metis One_nat_def Suc_length_conv length_0_conv)
    moreover from this have "j = 0"
      using js(2) True by auto
    ultimately show ?thesis
      using receive_single [OF plan True assms(9,10), of r0] init(8) assms(7) by (simp add: fs)
  next
    case False
    with pos have many: "1 < plan_count plan" by simp
    have "receiving (active_entries m, active_bytes m, discarded_ids m) msg logical plan (hd ts) [] r0"
      using init assms(7,8) by (simp add: receiving_def)
    moreover have "prompt (hd ts # ts)"
      using assms(5) ne(2) by (cases ts) (auto simp: prompt_def reassembly_timeout_def reassembly_timeout_seconds_def)
    ultimately show ?thesis
      using receive_run [OF plan assms(2,9,10) many, of _ "hd ts" "[]" r0 js ts tunnel] js ne assms(4) fs
      by simp
  qed
  then obtain P r where run: "accept_run (zip fs ts) r0 = Some (replicate (length fs - 1) None @ [Some P], r)"
    by blast
  have honest: "\<forall>(f, t) \<in> set (zip fs ts). honest [msg \<mapsto> logical] f"
    using plan_fragment_fields(7) [OF plan _ assms(9) refl] js(2) by (auto simp: fs dest!: set_zip_leftD)
  have "sorted (map snd (zip fs ts))"
    using prompt_sorted [OF assms(5)] assms(4) by simp
  moreover have "sorted (hd ts # map snd (zip fs ts))"
    using calculation assms(4) ne(2) by (cases ts) auto
  moreover have "pool_agrees [msg \<mapsto> logical] r0"
    by (simp add: pool_agrees_def init(2))
  ultimately have all: "list_all2 (\<lambda>(f, t) out. \<forall>P. out = Some P \<longrightarrow> [msg \<mapsto> logical] (pk_message_id f) = Some P)
      (zip fs ts) (replicate (length fs - 1) None @ [Some P])"
    using accept_run_ok [OF init(1), of "hd ts" "zip fs ts" "[msg \<mapsto> logical]"] honest run by auto
  from list_all2_nthD [OF this, of "length fs - 1"] have "P = logical"
    using ne assms(4) fs by (auto simp: nth_append split: if_splits)
  with run show ?thesis by blast
qed

subsection \<open>Witnesses\<close>

text \<open>A 21-byte packet, sent in three fragments of seven bytes, to a fresh reassembler.\<close>

definition sample_packet :: bytes where
  "sample_packet = map of_nat [1..<22]"

definition sample_fragments :: "packet list" where
  "sample_fragments = projr (send_fragments pt_data 7 99 8 64 sample_packet)"

definition sample_reassembler :: reassembler where
  "sample_reassembler = projr (Reassembler 1500 reassembly_metrics_init default_limits)"

lemma sample_reassembler_eq:
  "Reassembler 1500 reassembly_metrics_init default_limits = Inr sample_reassembler"
  by (simp add: sample_reassembler_def Reassembler_def default_limits_def max_reassembly_entries_def
      max_reassembly_bytes_def max_reassembly_discarded_def)

lemma sample_fragments_eq:
  "send_fragments pt_data 7 99 8 64 sample_packet = Inr sample_fragments"
  by (simp add: sample_fragments_def send_fragments_def make_fragment_plan_def send_size_limit_def
      sample_packet_def Let_def)

lemma sample_fragments_cases:
  "sample_fragments =
    [\<lparr>pk_type = pt_data, pk_tunnel_id = 7, pk_protocol_version = 5, pk_sequence = 0, pk_message_id = 99,
      pk_fragment_offset = 0, pk_original_length = 21, pk_payload = [1, 2, 3, 4, 5, 6, 7]\<rparr>,
     \<lparr>pk_type = pt_data, pk_tunnel_id = 7, pk_protocol_version = 5, pk_sequence = 0, pk_message_id = 99,
      pk_fragment_offset = 7, pk_original_length = 21, pk_payload = [8, 9, 10, 11, 12, 13, 14]\<rparr>,
     \<lparr>pk_type = pt_data, pk_tunnel_id = 7, pk_protocol_version = 5, pk_sequence = 0, pk_message_id = 99,
      pk_fragment_offset = 14, pk_original_length = 21, pk_payload = [15, 16, 17, 18, 19, 20, 21]\<rparr>]"
  by code_simp

theorem reassembly_delivers_witness:
  "\<exists>r. accept_run (zip (rev sample_fragments) [0, seconds 1, seconds 3]) sample_reassembler
     = Some ([None, None, Some sample_packet], r)"
proof -
  have "\<exists>r. accept_run (zip (rev sample_fragments) [0, seconds 1, seconds 3]) sample_reassembler
     = Some (replicate (length (rev sample_fragments) - 1) None @ [Some sample_packet], r)"
    by (rule reassembly_delivers [OF sample_fragments_eq _ _ _ _ sample_reassembler_eq])
       (simp_all add: max_fragments_per_packet_def sample_fragments_cases prompt_def sample_packet_def
         reassembly_timeout_def reassembly_timeout_seconds_def default_limits_def max_reassembly_bytes_def)
  then show ?thesis
    by (simp add: sample_fragments_cases numeral_2_eq_2)
qed

theorem reassembly_integrity_witness:
  "\<exists>outs r. accept_run (zip (rev sample_fragments) [0, 0, 0 :: time]) sample_reassembler = Some (outs, r) \<and>
     list_all2 (\<lambda>(f, t) out. \<forall>P. out = Some P \<longrightarrow> [99 \<mapsto> sample_packet] (pk_message_id f) = Some P)
       (zip (rev sample_fragments) [0, 0, 0 :: time]) outs"
  by (rule reassembly_integrity [OF sample_reassembler_eq])
     (simp_all add: sample_fragments_cases honest_def sample_packet_def slice_def upt_conv_Cons)

theorem reassembler_bounded_witness:
  "\<exists>outs r. accept_run (zip sample_fragments [0, 5, seconds 4]) sample_reassembler = Some (outs, r) \<and>
    length (entries r) \<le> limit_entries default_limits \<and>
    (\<Sum>(i, e) \<leftarrow> entries r. length (buffer e)) \<le> limit_bytes default_limits \<and>
    length (discarded_order r) \<le> limit_discarded_ids default_limits \<and>
    active_entries (destroy r) = 0 \<and> active_bytes (destroy r) = 0 \<and> discarded_ids (destroy r) = 0"
  using reassembler_bounded [OF sample_reassembler_eq, of "zip sample_fragments [0, 5, seconds 4]"]
  by (simp add: sample_fragments_cases reassembly_metrics_init_def)

theorem cleanup_drops_expired_witness:
  "\<exists>outs r r'. accept_run (zip (tl sample_fragments) [0, 5]) sample_reassembler = Some (outs, r) \<and>
     cleanup_expired (seconds 4) r = Some r' \<and> unexpired (seconds 4) r'"
proof -
  have "sorted (0 # map snd (zip (tl sample_fragments) [0, 5 :: time]))"
    by (simp add: sample_fragments_cases)
  then obtain outs r where run: "accept_run (zip (tl sample_fragments) [0, 5]) sample_reassembler = Some (outs, r)"
    using accept_run_ok [OF Reassembler_inv(1) [OF sample_reassembler_eq], of 0] by blast
  have "\<exists>r'. cleanup_expired (seconds 4) r = Some r' \<and> unexpired (seconds 4) r'"
    by (rule cleanup_drops_expired [OF sample_reassembler_eq _ run]) (simp add: sample_fragments_cases)
  with run show ?thesis by blast
qed

end
