(* ===== verification/Ascon.thy ===== *)
theory Ascon
  imports Wire
begin

text \<open>
  The symmetric cryptography of the tunnel: the Ascon permutation, the AEAD
  \<open>Aead128\<close>, the keyed sponge \<open>mac\<close>, key derivation and the constant-time comparison
  of \<open>src/ascon.hpp\<close>, and the key derivation of \<open>src/akdf.hpp\<close>. The permutation state
  is the code's array of five lanes. Wiping of secrets has no functional effect and is
  not modelled, except for the plaintext that a failed decryption overwrites.
\<close>

subsection \<open>Permutation\<close>

type_synonym lanes = "u64 list"

definition rotate_right :: "u64 \<Rightarrow> nat \<Rightarrow> u64" where
  "rotate_right v shift = (drop_bit shift v OR push_bit (64 - shift) v)"

definition xor_at :: "nat \<Rightarrow> u64 \<Rightarrow> lanes \<Rightarrow> lanes" where
  "xor_at i v s = s[i := s ! i XOR v]"

definition round_constants :: "u64 list" where
  "round_constants = [0xf0, 0xe1, 0xd2, 0xc3, 0xb4, 0xa5, 0x96, 0x87, 0x78, 0x69, 0x5a, 0x4b]"

text \<open>The 64 parallel S-boxes, as the code's sequence of bitwise operations.\<close>

definition sbox_layer :: "lanes \<Rightarrow> lanes" where
  "sbox_layer s =
     (let s = xor_at 0 (s ! 4) s;
          s = xor_at 4 (s ! 3) s;
          s = xor_at 2 (s ! 1) s;
          t0 = NOT (s ! 0) AND s ! 1;
          t1 = NOT (s ! 1) AND s ! 2;
          t2 = NOT (s ! 2) AND s ! 3;
          t3 = NOT (s ! 3) AND s ! 4;
          t4 = NOT (s ! 4) AND s ! 0;
          s = xor_at 0 t1 s;
          s = xor_at 1 t2 s;
          s = xor_at 2 t3 s;
          s = xor_at 3 t4 s;
          s = xor_at 4 t0 s;
          s = xor_at 1 (s ! 0) s;
          s = xor_at 0 (s ! 4) s;
          s = xor_at 3 (s ! 2) s
      in s[2 := NOT (s ! 2)])"

definition diffuse :: "nat \<Rightarrow> nat \<Rightarrow> nat \<Rightarrow> lanes \<Rightarrow> lanes" where
  "diffuse i a b s = xor_at i (rotate_right (s ! i) a XOR rotate_right (s ! i) b) s"

definition linear_layer :: "lanes \<Rightarrow> lanes" where
  "linear_layer s = diffuse 4 7 41 (diffuse 3 10 17 (diffuse 2 1 6 (diffuse 1 61 39 (diffuse 0 19 28 s))))"

definition permute_round :: "lanes \<Rightarrow> u64 \<Rightarrow> lanes" where
  "permute_round s c = linear_layer (sbox_layer (xor_at 2 c s))"

definition permute :: "lanes \<Rightarrow> nat \<Rightarrow> lanes" where
  "permute s rounds = foldl permute_round s (drop (12 - rounds) round_constants)"

subsection \<open>Aead128\<close>

record aead128 =
  k0 :: u64
  k1 :: u64

definition Aead128 :: "bytes \<Rightarrow> aead128" where
  "Aead128 key = \<lparr>k0 = load_le64 key, k1 = load_le64 (drop 8 key)\<rparr>"

fun absorb_tail :: "nat \<Rightarrow> bytes \<Rightarrow> lanes \<Rightarrow> lanes" where
  "absorb_tail i [] s = s"
| "absorb_tail i (x # xs) s =
     absorb_tail (i + 1) xs (xor_at (i div 8) (push_bit (8 * (i mod 8)) (ucast x)) s)"

definition pad_at :: "nat \<Rightarrow> lanes \<Rightarrow> lanes" where
  "pad_at n s = xor_at (n div 8) (push_bit (8 * (n mod 8)) 1) s"

function absorb_ad :: "bytes \<Rightarrow> lanes \<Rightarrow> lanes" where
  "absorb_ad ad s =
     (if length ad \<ge> 16
      then let s = xor_at 0 (load_le64 ad) s; s = xor_at 1 (load_le64 (drop 8 ad)) s
           in absorb_ad (drop 16 ad) (permute s 8)
      else permute (pad_at (length ad) (absorb_tail 0 ad s)) 8)"
  by pat_completeness auto
termination
  by (relation "measure (\<lambda>(ad, s). length ad)") auto

definition block_out :: "bytes \<Rightarrow> lanes \<Rightarrow> bytes" where
  "block_out input s =
     store_le64 (s ! 0 XOR load_le64 input) @ store_le64 (s ! 1 XOR load_le64 (drop 8 input))"

definition block_lanes :: "bool \<Rightarrow> bytes \<Rightarrow> lanes \<Rightarrow> lanes" where
  "block_lanes decrypting input s =
     (let a = load_le64 input; b = load_le64 (drop 8 input)
      in if decrypting then s[0 := a, 1 := b] else s[0 := s ! 0 XOR a, 1 := s ! 1 XOR b])"

function crypt_blocks :: "bool \<Rightarrow> bytes \<Rightarrow> lanes \<Rightarrow> bytes \<times> lanes \<times> bytes" where
  "crypt_blocks decrypting input s =
     (if length input \<ge> 16
      then let (outs, s', rest) =
             crypt_blocks decrypting (drop 16 input) (permute (block_lanes decrypting input s) 8)
           in (block_out input s @ outs, s', rest)
      else ([], s, input))"
  by pat_completeness auto
termination
  by (relation "measure (\<lambda>(d, input, s). length input)") auto

fun crypt_tail :: "bool \<Rightarrow> nat \<Rightarrow> bytes \<Rightarrow> lanes \<Rightarrow> bytes \<times> lanes" where
  "crypt_tail decrypting i [] s = ([], s)"
| "crypt_tail decrypting i (x # xs) s =
     (let shift = 8 * (i mod 8);
          lane = s ! (i div 8);
          out = ucast (drop_bit shift lane) XOR x;
          lane = (if decrypting then (lane AND NOT (push_bit shift 255)) OR push_bit shift (ucast x)
                  else lane XOR push_bit shift (ucast x));
          (outs, s) = crypt_tail decrypting (i + 1) xs (s[i div 8 := lane])
      in (out # outs, s))"

declare absorb_ad.simps [simp del] crypt_blocks.simps [simp del]

definition crypt_start :: "aead128 \<Rightarrow> bytes \<Rightarrow> bytes \<Rightarrow> lanes" where
  "crypt_start k nonce ad =
     (let s = [0x00001000808c0001, k0 k, k1 k, load_le64 nonce, load_le64 (drop 8 nonce)];
          s = permute s 12;
          s = xor_at 3 (k0 k) s;
          s = xor_at 4 (k1 k) s;
          s = (if ad \<noteq> [] then absorb_ad ad s else s)
      in xor_at 4 0x8000000000000000 s)"

definition crypt_finish :: "aead128 \<Rightarrow> nat \<Rightarrow> lanes \<Rightarrow> bytes" where
  "crypt_finish k n s =
     (let s = pad_at n s;
          s = xor_at 2 (k0 k) s;
          s = xor_at 3 (k1 k) s;
          s = permute s 12
      in store_le64 (s ! 3 XOR k0 k) @ store_le64 (s ! 4 XOR k1 k))"

definition crypt :: "bool \<Rightarrow> aead128 \<Rightarrow> bytes \<Rightarrow> bytes \<Rightarrow> bytes \<Rightarrow> bytes \<times> bytes" where
  "crypt decrypting k nonce ad input =
     (let (outs, s, rest) = crypt_blocks decrypting input (crypt_start k nonce ad);
          (outs', s) = crypt_tail decrypting 0 rest s
      in (outs @ outs', crypt_finish k (length rest) s))"

definition aead_encrypt :: "aead128 \<Rightarrow> bytes \<Rightarrow> bytes \<Rightarrow> bytes \<Rightarrow> bytes \<times> bytes" where
  "aead_encrypt k nonce ad input = crypt False k nonce ad input"

text \<open>The accumulated difference of the first \<open>n\<close> bytes, and the comparison built on it.\<close>

definition tag_difference :: "nat \<Rightarrow> bytes \<Rightarrow> bytes \<Rightarrow> u8" where
  "tag_difference n a b = foldl (\<lambda>difference i. difference OR (a ! i XOR b ! i)) 0 [0..<n]"

definition constant_time_equal :: "nat \<Rightarrow> bytes \<Rightarrow> bytes \<Rightarrow> bool" where
  "constant_time_equal n a b \<longleftrightarrow> tag_difference n a b = 0"

text \<open>
  \<open>decrypt\<close> returns its verdict and what it leaves in the output buffer, which on failure
  is overwritten with zeros.
\<close>

definition aead_decrypt :: "aead128 \<Rightarrow> bytes \<Rightarrow> bytes \<Rightarrow> bytes \<Rightarrow> bytes \<Rightarrow> bool \<times> bytes" where
  "aead_decrypt k nonce ad input tag =
     (let (output, expected) = crypt True k nonce ad input
      in if tag_difference 16 expected tag = 0 then (True, output)
         else (False, replicate (length input) 0))"

subsection \<open>Keyed sponge and key derivation\<close>

function mac_blocks :: "bytes \<Rightarrow> lanes \<Rightarrow> lanes \<times> bytes" where
  "mac_blocks data s =
     (if length data \<ge> 8 then mac_blocks (drop 8 data) (permute (xor_at 0 (load_be64 data) s) 8)
      else (s, data))"
  by pat_completeness auto
termination
  by (relation "measure (\<lambda>(data, s). length data)") auto

declare mac_blocks.simps [simp del]

definition mac :: "bytes \<Rightarrow> u16 \<Rightarrow> bytes \<Rightarrow> bytes" where
  "mac key tunnel_id data =
     (let k0 = load_be64 key;
          k1 = load_be64 (drop 8 key);
          state = [0x54554e544f4d4d41, k0, k1, ucast tunnel_id, NOT (ucast tunnel_id)];
          state = permute state 12;
          state = xor_at 3 k0 state;
          state = xor_at 4 k1 state;
          (state, rest) = mac_blocks data state;
          final_block = rest @ [0x80] @ replicate (7 - length rest) 0;
          state = xor_at 0 (load_be64 final_block) state;
          state = xor_at 4 1 state;
          state = xor_at 1 k0 state;
          state = xor_at 2 k1 state;
          state = permute state 12;
          state = xor_at 3 k0 state;
          state = xor_at 4 k1 state
      in store_be64 (state ! 3) @ store_be64 (state ! 4))"

definition derive_node_key :: "bytes \<Rightarrow> u16 \<Rightarrow> bytes" where
  "derive_node_key master_key tunnel_id = mac master_key tunnel_id (bytes_of_string ''TUNTOM-NODE-KEY'')"

definition derive_direction_key :: "bytes \<Rightarrow> u16 \<Rightarrow> bool \<Rightarrow> bytes" where
  "derive_direction_key master_key tunnel_id client_to_server =
     mac master_key tunnel_id
       (bytes_of_string (if client_to_server then ''TUNTOM-V4-CLIENT-TO-SERVER''
                         else ''TUNTOM-V4-SERVER-TO-CLIENT''))"

definition akdf_extract :: "bytes \<Rightarrow> u16 \<Rightarrow> bytes \<Rightarrow> bytes" where
  "akdf_extract psk tid dh = mac psk tid (bytes_of_string ''TUNTOM-AKDF-v1-EXTRACT'' @ [0] @ dh)"

definition akdf_expand :: "bytes \<Rightarrow> u16 \<Rightarrow> string \<Rightarrow> bytes \<Rightarrow> bytes" where
  "akdf_expand prk tid label transcript =
     mac prk tid
       (bytes_of_string label @ [0] @ store_be64 (of_nat (length transcript)) @ transcript @ [1])"

subsection \<open>Lengths\<close>

lemma length_block_out [simp]: "length (block_out input s) = 16"
  by (simp add: block_out_def)

lemma length_xor_at [simp]: "length (xor_at i v s) = length s"
  by (simp add: xor_at_def)

lemma length_mac [simp]: "length (mac key tid data) = 16"
  by (simp add: mac_def Let_def split: prod.splits)

lemma length_crypt_finish [simp]: "length (crypt_finish k n s) = 16"
  by (simp add: crypt_finish_def Let_def)

lemma crypt_blocks_length:
  "crypt_blocks d input s = (outs, s', rest) \<Longrightarrow> length outs + length rest = length input \<and> length rest < 16"
proof (induction d input s arbitrary: outs s' rest rule: crypt_blocks.induct)
  case (1 d input s)
  show ?case
  proof (cases "length input \<ge> 16")
    case True
    obtain outs1 where step: "crypt_blocks d (drop 16 input) (permute (block_lanes d input s) 8) = (outs1, s', rest)"
      "outs = block_out input s @ outs1"
      using 1(2) True unfolding crypt_blocks.simps [of d input s] by (auto split: prod.splits)
    from 1(1) [OF True step(1)] step(2) True show ?thesis by simp linarith
  next
    case False
    with 1(2) show ?thesis
      unfolding crypt_blocks.simps [of d input s] by auto
  qed
qed

lemma crypt_tail_length: "crypt_tail d i xs s = (outs, s') \<Longrightarrow> length outs = length xs"
  by (induction d i xs s arbitrary: outs s' rule: crypt_tail.induct) (auto simp: Let_def split: prod.splits)

lemma crypt_length:
  "crypt d k nonce ad input = (output, tag) \<Longrightarrow> length output = length input \<and> length tag = 16"
  by (auto simp: crypt_def Let_def dest!: crypt_blocks_length crypt_tail_length split: prod.splits)

subsection \<open>The S-box layer against the published table\<close>

text \<open>The Ascon S-box as a lookup table; lane 0 holds the most significant input bit.\<close>

definition ascon_sbox :: "nat list" where
  "ascon_sbox = [4, 11, 31, 20, 26, 21, 9, 2, 27, 5, 8, 18, 29, 3, 6, 28,
                 30, 19, 7, 14, 0, 13, 17, 24, 16, 12, 1, 25, 22, 10, 15, 23]"

definition sbox_input :: "lanes \<Rightarrow> nat \<Rightarrow> nat" where
  "sbox_input s b =
     16 * of_bool (bit (s ! 0) b) + 8 * of_bool (bit (s ! 1) b) + 4 * of_bool (bit (s ! 2) b) +
     2 * of_bool (bit (s ! 3) b) + of_bool (bit (s ! 4) b)"

lemma list_5E:
  assumes "length xs = 5"
  obtains a b c d e where "xs = [a, b, c, d, e]"
  using assms by (auto simp: numeral_eq_Suc length_Suc_conv)

lemma sbox_layer_bits:
  assumes "b < 64"
  shows "map (\<lambda>x. bit x b) (sbox_layer [x0, x1, x2, x3, x4])
    = map (\<lambda>w. bit (ascon_sbox ! sbox_input [x0, x1, x2, x3, x4] b) (4 - w)) [0..<5]"
  using assms
  by (cases "bit x0 b"; cases "bit x1 b"; cases "bit x2 b"; cases "bit x3 b"; cases "bit x4 b")
     (simp_all add: sbox_layer_def xor_at_def Let_def bit_simps ascon_sbox_def sbox_input_def upt_conv_Cons
       bit_numeral_rec)

text \<open>
  C39. The bit-sliced substitution layer computes the published 5-bit Ascon S-box in each of
  the 64 columns of the state.
\<close>

theorem sbox_layer_table:
  assumes "length s = 5" "b < 64" "w < 5"
  shows "bit (sbox_layer s ! w) b \<longleftrightarrow> bit (ascon_sbox ! sbox_input s b) (4 - w)"
proof -
  obtain x0 x1 x2 x3 x4 where s: "s = [x0, x1, x2, x3, x4]"
    by (rule list_5E [OF assms(1)])
  have len: "length (sbox_layer s) = 5"
    by (simp add: s sbox_layer_def Let_def)
  from arg_cong [OF sbox_layer_bits [OF assms(2), of x0 x1 x2 x3 x4], of "\<lambda>xs. xs ! w"] assms(3) len
  show ?thesis
    by (simp add: s)
qed

subsection \<open>Decryption undoes encryption\<close>

text \<open>
  Both directions drive the permutation state through the same values: absorbing the
  plaintext when encrypting leaves the lane that overwriting it with the ciphertext leaves
  when decrypting.
\<close>

lemma bit_255: "bit (255 :: u64) n \<longleftrightarrow> n < 8"
  using bit_mask_iff [of 8 n, where 'a = u64] by (auto simp: mask_eq_exp_minus_1)

lemma lane_overwrite:
  fixes lane :: u64 and x :: u8
  assumes "j < 8"
  shows "(lane AND NOT (push_bit (8 * j) 255)) OR push_bit (8 * j) (ucast (ucast (drop_bit (8 * j) lane) XOR x))
     = lane XOR push_bit (8 * j) (ucast x)"
proof (rule bit_eqI)
  fix m
  assume "possible_bit TYPE(u64) m"
  then have m: "m < 64" by simp
  have byte: "bit (ucast (ucast (drop_bit (8 * j) lane) XOR x :: u8) :: u64) n
      \<longleftrightarrow> n < 8 \<and> (bit lane (8 * j + n) \<noteq> bit x n)" if "n < 64" for n
    using that assms by (auto simp: bit_simps dest: bit_lt_8)
  have ext: "bit (ucast x :: u64) n \<longleftrightarrow> bit x n" if "n < 64" for n
    using that by (simp add: bit_simps)
  show "bit ((lane AND NOT (push_bit (8 * j) 255)) OR
      push_bit (8 * j) (ucast (ucast (drop_bit (8 * j) lane) XOR x))) m
    = bit (lane XOR push_bit (8 * j) (ucast x)) m"
    using m bit_255 [of "m - 8 * j"] byte [of "m - 8 * j"] ext [of "m - 8 * j"] bit_lt_8 [of x "m - 8 * j"]
    by (auto simp: bit_or_iff bit_and_iff bit_not_iff bit_xor_iff bit_push_bit_iff)
qed

lemma crypt_tail_inverse:
  assumes "crypt_tail d i xs s = (outs, s')"
  shows "crypt_tail (\<not> d) i outs s = (xs, s')"
  using assms
proof (induction d i xs s arbitrary: outs s' rule: crypt_tail.induct)
  case (1 d i s)
  then show ?case by auto
next
  case (2 d i x xs s)
  define lane where "lane = s ! (i div 8)"
  define c where "c = ucast (drop_bit (8 * (i mod 8)) lane) XOR x"
  have undo: "ucast (drop_bit (8 * (i mod 8)) lane) XOR c = x"
    by (simp add: c_def xor.assoc [symmetric])
  have over: "(lane AND NOT (push_bit (8 * (i mod 8)) 255)) OR push_bit (8 * (i mod 8)) (ucast c)
      = lane XOR push_bit (8 * (i mod 8)) (ucast x)"
    unfolding c_def by (rule lane_overwrite) simp
  have over': "(lane AND NOT (push_bit (8 * (i mod 8)) 255)) OR push_bit (8 * (i mod 8)) (ucast x)
      = lane XOR push_bit (8 * (i mod 8)) (ucast c)"
    using lane_overwrite [of "i mod 8" lane c] undo by simp
  show ?case
    using 2 by (cases d) (auto simp: Let_def lane_def [symmetric] c_def [symmetric] undo over over' split: prod.splits)
qed

lemma block_inverse:
  assumes "length input \<ge> 16"
  shows "block_out (block_out input s @ rest) s = take 16 input"
    and "block_lanes (\<not> d) (block_out input s @ rest) s = block_lanes d input s"
proof -
  let ?c = "block_out input s @ rest"
  have lanes: "load_le64 ?c = s ! 0 XOR load_le64 input" "load_le64 (drop 8 ?c) = s ! 1 XOR load_le64 (drop 8 input)"
    by (simp_all add: block_out_def)
  have "store_le64 (load_le64 input) = take 8 input" "store_le64 (load_le64 (drop 8 input)) = take 8 (drop 8 input)"
    using store_load_le64 [of "take 8 input"] store_load_le64 [of "take 8 (drop 8 input)"] assms
    by (simp_all add: load_le64_def)
  moreover have "take 16 input = take 8 input @ take 8 (drop 8 input)"
    using take_add [of 8 8 input] by simp
  ultimately show "block_out ?c s = take 16 input"
    unfolding block_out_def [of ?c] lanes by (simp add: xor.assoc [symmetric])
  show "block_lanes (\<not> d) ?c s = block_lanes d input s"
    unfolding block_lanes_def Let_def lanes by (cases d) (simp_all add: xor.assoc [symmetric])
qed

lemma crypt_blocks_inverse:
  assumes "crypt_blocks d input s = (outs, s', rest)" "length rest' = length rest"
  shows "crypt_blocks (\<not> d) (outs @ rest') s = (take (length outs) input, s', rest')"
  using assms
proof (induction d input s arbitrary: outs s' rest rule: crypt_blocks.induct)
  case (1 d input s)
  show ?case
  proof (cases "length input \<ge> 16")
    case True
    obtain outs1 where step: "crypt_blocks d (drop 16 input) (permute (block_lanes d input s) 8) = (outs1, s', rest)"
      and outs: "outs = block_out input s @ outs1"
      using 1(2) True unfolding crypt_blocks.simps [of d input s] by (auto split: prod.splits)
    let ?c = "block_out input s @ outs1 @ rest'"
    have "crypt_blocks (\<not> d) (outs1 @ rest') (permute (block_lanes d input s) 8)
        = (take (length outs1) (drop 16 input), s', rest')"
      by (rule 1(1) [OF True step 1(3)])
    moreover have "block_lanes (\<not> d) ?c s = block_lanes d input s" "block_out ?c s = take 16 input"
      by (rule block_inverse [OF True])+
    ultimately have "crypt_blocks (\<not> d) ?c s = (take 16 input @ take (length outs1) (drop 16 input), s', rest')"
      by (simp add: crypt_blocks.simps [of "\<not> d" ?c s])
    then show ?thesis
      by (simp add: outs take_add)
  next
    case False
    with 1(2,3) show ?thesis
      unfolding crypt_blocks.simps [of d input s] by (auto simp: crypt_blocks.simps [of "\<not> d" rest' s'])
  qed
qed

lemma crypt_blocks_rest:
  "crypt_blocks d input s = (outs, s', rest) \<Longrightarrow> rest = drop (length outs) input"
proof (induction d input s arbitrary: outs s' rest rule: crypt_blocks.induct)
  case (1 d input s)
  show ?case
  proof (cases "length input \<ge> 16")
    case True
    obtain outs1 where step: "crypt_blocks d (drop 16 input) (permute (block_lanes d input s) 8) = (outs1, s', rest)"
      and outs: "outs = block_out input s @ outs1"
      using 1(2) True unfolding crypt_blocks.simps [of d input s] by (auto split: prod.splits)
    from 1(1) [OF True step] outs show ?thesis
      by (simp add: add.commute)
  next
    case False
    with 1(2) show ?thesis
      unfolding crypt_blocks.simps [of d input s] by auto
  qed
qed

lemma crypt_inverse:
  assumes "crypt d k nonce ad input = (output, tag)"
  shows "crypt (\<not> d) k nonce ad output = (input, tag)"
proof -
  let ?s = "crypt_start k nonce ad"
  obtain outs s1 rest where blocks: "crypt_blocks d input ?s = (outs, s1, rest)"
    by (metis prod_cases3)
  obtain outs' s2 where tail: "crypt_tail d 0 rest s1 = (outs', s2)"
    by force
  have out: "output = outs @ outs'" "tag = crypt_finish k (length rest) s2"
    using assms blocks tail by (simp_all add: crypt_def)
  have len: "length outs' = length rest"
    by (rule crypt_tail_length [OF tail])
  have "crypt (\<not> d) k nonce ad output = (take (length outs) input @ rest, crypt_finish k (length outs') s2)"
    using crypt_blocks_inverse [OF blocks len] crypt_tail_inverse [OF tail]
    by (simp add: crypt_def out)
  then show ?thesis
    using crypt_blocks_rest [OF blocks] out len by simp
qed

subsection \<open>Constant-time comparison\<close>

lemma foldl_or_zero: "foldl (\<lambda>d i. d OR f i) (a :: u8) xs = 0 \<longleftrightarrow> a = 0 \<and> (\<forall>i \<in> set xs. f i = 0)"
  by (induction xs arbitrary: a) (auto simp: or_eq_0_iff)

lemma xor_zero_iff: "a XOR b = 0 \<longleftrightarrow> a = (b :: 'a :: len word)"
  by (auto simp: bit_eq_iff bit_simps)

lemma constant_time_equal_iff:
  assumes "n \<le> length a" "n \<le> length b"
  shows "constant_time_equal n a b \<longleftrightarrow> take n a = take n b"
proof -
  have "constant_time_equal n a b \<longleftrightarrow> (\<forall>i<n. a ! i = b ! i)"
    by (auto simp: constant_time_equal_def tag_difference_def foldl_or_zero xor_zero_iff)
  also have "\<dots> \<longleftrightarrow> take n a = take n b"
    using assms by (auto simp: list_eq_iff_nth_eq)
  finally show ?thesis .
qed

lemma aead_open_iff:
  assumes "length tag = 16"
  shows "aead_decrypt k nonce ad c tag = (True, p) \<longleftrightarrow> aead_encrypt k nonce ad p = (c, tag)"
proof -
  obtain out expected where dec: "crypt True k nonce ad c = (out, expected)"
    by force
  have "tag_difference 16 expected tag = 0 \<longleftrightarrow> expected = tag"
    using constant_time_equal_iff [of 16 expected tag] crypt_length [OF dec] assms
    by (simp add: constant_time_equal_def)
  then have "aead_decrypt k nonce ad c tag = (True, p) \<longleftrightarrow> crypt True k nonce ad c = (p, tag)"
    by (auto simp: aead_decrypt_def dec)
  also have "\<dots> \<longleftrightarrow> crypt False k nonce ad p = (c, tag)"
    using crypt_inverse [of True k nonce ad c p tag] crypt_inverse [of False k nonce ad p c tag] by auto
  finally show ?thesis
    by (simp add: aead_encrypt_def)
qed

subsection \<open>Properties\<close>

text \<open>
  C9. Authenticated decryption is the exact inverse of encryption: with a 16-byte tag,
  decryption accepts a ciphertext with plaintext \<open>p\<close> if and only if encrypting \<open>p\<close>
  under the same key, nonce and associated data gives that ciphertext and that tag.
\<close>

theorem aead_decrypt_iff_encrypt:
  assumes "length tag = 16"
  shows "aead_decrypt k nonce ad c tag = (True, p) \<longleftrightarrow> aead_encrypt k nonce ad p = (c, tag)"
  using assms by (rule aead_open_iff)


theorem aead_decrypt_iff_encrypt_witness:
  "\<exists>c tag. aead_encrypt (Aead128 (replicate 16 1)) (replicate 16 2) [3] [7, 8, 9] = (c, tag) \<and>
           aead_decrypt (Aead128 (replicate 16 1)) (replicate 16 2) [3] c tag = (True, [7, 8, 9])"
proof -
  obtain c tag where enc: "aead_encrypt (Aead128 (replicate 16 1)) (replicate 16 2) [3] [7, 8, 9] = (c, tag)"
    by force
  then have "length tag = 16"
    by (simp add: aead_encrypt_def crypt_length)
  from aead_decrypt_iff_encrypt [OF this] enc show ?thesis by blast
qed

theorem sbox_layer_table_witness:
  "bit (sbox_layer [1, 0, 0, 0, 0] ! 3) 0 \<longleftrightarrow> bit (ascon_sbox ! 16) 1"
  using sbox_layer_table [of "[1, 0, 0, 0, 0]" 0 3] by (simp add: sbox_input_def)

end
