(* ===== verification/Replay.thy ===== *)
theory Replay
  imports Wire
begin

text \<open>
  Sequence numbers and replay protection: \<open>SequenceGenerator\<close> and \<open>ReplayWindow\<close> of
  \<open>src/replay.hpp\<close>. The clock reading is an argument. The window is the code's
  64-slot array with its fill count; the abstract state is the set of all sequences
  accepted so far, of which the array retains the 64 largest.
\<close>

subsection \<open>SequenceGenerator\<close>

text \<open>The state is \<open>last_sequence_\<close>; \<open>now\<close> is the system clock in nanoseconds.\<close>

definition next_sequence :: "int \<Rightarrow> u64 \<Rightarrow> u64 \<times> u64" where
  "next_sequence now last_sequence =
     (let candidate = word_of_int now;
          candidate = (if candidate \<le> last_sequence then last_sequence + 1 else candidate)
      in (candidate, candidate))"

fun sequence_run :: "u64 \<Rightarrow> int list \<Rightarrow> u64 list" where
  "sequence_run last_sequence [] = []"
| "sequence_run last_sequence (now # clock) =
     (let (s, last') = next_sequence now last_sequence in s # sequence_run last' clock)"

subsection \<open>ReplayWindow\<close>

definition window_capacity :: nat where
  "window_capacity = 64"

record replay_window =
  sequences :: "u64 list"
  sequence_count :: nat

definition replay_window_init :: replay_window where
  "replay_window_init = \<lparr>sequences = replicate window_capacity 0, sequence_count = 0\<rparr>"

text \<open>
  \<open>std::lower_bound\<close> on a range partitioned by \<open>p\<close>: the index of the first element
  that does not satisfy \<open>p\<close>, or the length of the range.
\<close>

definition lower_bound :: "('a \<Rightarrow> bool) \<Rightarrow> 'a list \<Rightarrow> nat" where
  "lower_bound p xs = length (takeWhile p xs)"

fun shift_up :: "nat \<Rightarrow> nat \<Rightarrow> 'a list \<Rightarrow> 'a list" where
  "shift_up 0 index xs = xs"
| "shift_up (Suc i) index xs =
     (if Suc i > index then shift_up i index (xs[Suc i := xs ! i]) else xs)"

definition replay_accept :: "replay_window \<Rightarrow> u64 \<Rightarrow> bool \<times> replay_window" where
  "replay_accept w sequence =
     (if sequence = 0 then (False, w) else
      let live = take (sequence_count w) (sequences w);
          index = lower_bound (\<lambda>accepted. accepted > sequence) live
      in if index \<noteq> sequence_count w \<and> sequences w ! index = sequence then (False, w)
         else if index = length (sequences w) then (False, w)
         else let moved = shift_up (min (sequence_count w) (length (sequences w) - 1)) index (sequences w)
              in (True, w\<lparr>sequences := moved[index := sequence],
                          sequence_count := min (sequence_count w + 1) (length (sequences w))\<rparr>))"

subsection \<open>The replay-filter interface\<close>

text \<open>
  The inputs an acceptance function lets through, in order. Every replay filter of the
  program promises the laws of the locale, relative to the history of the keys of accepted
  inputs; the client's guarantee is that no key is ever accepted twice.
\<close>

fun accepted_run :: "('s \<Rightarrow> 'a \<Rightarrow> bool \<times> 's) \<Rightarrow> 's \<Rightarrow> 'a list \<Rightarrow> 'a list" where
  "accepted_run accept s [] = []"
| "accepted_run accept s (x # xs) =
     (let (ok, s') = accept s x in (if ok then [x] else []) @ accepted_run accept s' xs)"

locale replay_filter =
  fixes accept :: "'s \<Rightarrow> 'x \<Rightarrow> bool \<times> 's"
    and key :: "'x \<Rightarrow> 'k"
    and start :: 's
    and history :: "'k set \<Rightarrow> 's \<Rightarrow> bool"
  assumes start_history: "history {} start"
    and accept_fresh: "history H s \<Longrightarrow> accept s x = (True, s') \<Longrightarrow> key x \<notin> H"
    and accept_history: "history H s \<Longrightarrow> accept s x = (True, s') \<Longrightarrow> history (insert (key x) H) s'"
    and reject_history: "history H s \<Longrightarrow> accept s x = (False, s') \<Longrightarrow> history H s'"
begin

lemma run_fresh:
  "history H s \<Longrightarrow> distinct (map key (accepted_run accept s xs)) \<and>
     set (map key (accepted_run accept s xs)) \<inter> H = {}"
proof (induction xs arbitrary: H s)
  case Nil
  then show ?case by simp
next
  case (Cons x xs)
  obtain ok s' where step: "accept s x = (ok, s')"
    by force
  show ?case
  proof (cases ok)
    case True
    then have "history (insert (key x) H) s'" "key x \<notin> H"
      using accept_history [OF Cons.prems] accept_fresh [OF Cons.prems] step by auto
    with Cons.IH [of "insert (key x) H" s'] show ?thesis
      using step True by auto
  next
    case False
    then have "history H s'"
      using reject_history [OF Cons.prems] step by simp
    with Cons.IH [of H s'] show ?thesis
      using step False by simp
  qed
qed

lemma no_replay: "distinct (map key (accepted_run accept start xs))"
  using run_fresh [OF start_history] by blast

lemma duplicate_rejected:
  assumes "history H s" "key x \<in> H"
  shows "\<not> fst (accept s x)"
  using assms accept_fresh [of H s x "snd (accept s x)"] by (cases "accept s x") auto

end

subsection \<open>Lemmas on the array operations\<close>

lemma length_shift_up [simp]: "length (shift_up i index xs) = length xs"
  by (induction i arbitrary: xs) simp_all

lemma shift_up_nth:
  assumes "i < length xs"
  shows "shift_up i index xs ! k =
           (if index < k \<and> k \<le> i then xs ! (k - 1) else xs ! k)"
  using assms
proof (induction i arbitrary: xs)
  case 0
  then show ?case by simp
next
  case (Suc i)
  then show ?case
    by (cases "k = Suc i") (auto simp: nth_list_update Suc_diff_le)
qed

lemma shift_insert:
  assumes "index \<le> n" "n \<le> length xs" "index < length xs"
  shows "take (min (n + 1) (length xs))
           ((shift_up (min n (length xs - 1)) index xs)[index := x])
         = take (length xs) (take index xs @ x # drop index (take n xs))"
    (is "?l = ?r")
proof (rule nth_equalityI)
  show "length ?l = length ?r"
    using assms by (simp add: min_def) linarith
next
  fix k
  assume "k < length ?l"
  then have k: "k < length xs" "k \<le> n"
    using assms by auto
  have "min n (length xs - 1) < length xs"
    using assms by linarith
  then have "?l ! k = (if k = index then x else if index < k then xs ! (k - 1) else xs ! k)"
    using k assms by (auto simp: nth_list_update shift_up_nth)
  moreover have "?r ! k = (if k = index then x else if index < k then xs ! (k - 1) else xs ! k)"
    using k assms by (auto simp: nth_append nth_Cons' min_def)
  ultimately show "?l ! k = ?r ! k"
    by simp
qed

lemma takeWhile_take: "takeWhile P (take n xs) = take n (takeWhile P xs)"
proof (induction xs arbitrary: n)
  case Nil
  then show ?case by simp
next
  case (Cons a xs)
  then show ?case by (cases n) simp_all
qed

lemma takeWhile_descending:
  assumes "sorted_wrt (>) (D :: 'a :: linorder list)"
  shows "set (takeWhile (\<lambda>a. a > s) D) = {h \<in> set D. h > s}"
    and "\<forall>h \<in> set (dropWhile (\<lambda>a. a > s) D). h \<le> s"
  using assms by (induction D) (auto simp: not_less)

lemma insert_descending:
  assumes "sorted_wrt (>) (D :: 'a :: linorder list)" "s \<notin> set D"
  shows "sorted_wrt (>) (takeWhile (\<lambda>a. a > s) D @ s # dropWhile (\<lambda>a. a > s) D)"
proof -
  let ?t = "takeWhile (\<lambda>a. a > s) D" and ?d = "dropWhile (\<lambda>a. a > s) D"
  have split: "sorted_wrt (>) (?t @ ?d)" and sets: "set ?t \<union> set ?d = set D"
    using assms(1) by (simp_all del: set_append flip: set_append)
  have "\<forall>h \<in> set ?d. h < s"
    using takeWhile_descending(2) [OF assms(1), of s] sets assms(2) by (metis UnI2 order_le_less)
  moreover have "\<forall>h \<in> set ?t. h > s"
    using takeWhile_descending(1) [OF assms(1), of s] by simp
  ultimately show ?thesis
    using split unfolding sorted_wrt_append by (auto intro: less_trans)
qed

lemma member_descending:
  assumes "sorted_wrt (>) (D :: 'a :: linorder list)"
  shows "s \<in> set D \<longleftrightarrow>
    length (takeWhile (\<lambda>a. a > s) D) < length D \<and> D ! length (takeWhile (\<lambda>a. a > s) D) = s"
  using assms by (induction D) auto

subsection \<open>The window against the set of accepted sequences\<close>

definition live :: "replay_window \<Rightarrow> u64 list" where
  "live w = take (sequence_count w) (sequences w)"

text \<open>The array holds the 64 largest accepted sequences in descending order.\<close>

definition window_history :: "u64 set \<Rightarrow> replay_window \<Rightarrow> bool" where
  "window_history H w \<longleftrightarrow>
     length (sequences w) = window_capacity \<and> sequence_count w \<le> window_capacity \<and>
     (\<exists>D. sorted_wrt (>) D \<and> set D = H \<and> live w = take window_capacity D)"

text \<open>
  What the window promises: a sequence is accepted exactly when it is not zero, was not
  accepted before and fewer than 64 accepted sequences are larger.
\<close>

definition admissible :: "u64 set \<Rightarrow> u64 \<Rightarrow> bool" where
  "admissible H s \<longleftrightarrow> s \<noteq> 0 \<and> s \<notin> H \<and> card {h \<in> H. h > s} < window_capacity"

lemma window_history_init: "window_history {} replay_window_init"
  by (auto simp: window_history_def replay_window_init_def live_def)

lemma window_history_finite: "window_history H w \<Longrightarrow> finite H"
  by (auto simp: window_history_def)

definition insert_at :: "nat \<Rightarrow> u64 \<Rightarrow> replay_window \<Rightarrow> replay_window" where
  "insert_at index s w =
     w\<lparr>sequences := (shift_up (min (sequence_count w) (length (sequences w) - 1)) index (sequences w))[index := s],
       sequence_count := min (sequence_count w + 1) (length (sequences w))\<rparr>"

lemma replay_accept_at:
  assumes "index = lower_bound (\<lambda>a. a > s) (live w)"
  shows "replay_accept w s =
    (if s = 0 \<or> index \<noteq> sequence_count w \<and> sequences w ! index = s \<or> index = length (sequences w)
     then (False, w) else (True, insert_at index s w))"
  unfolding replay_accept_def live_def assms insert_at_def by (simp add: Let_def)

lemma live_insert_at:
  assumes "index \<le> sequence_count w" "sequence_count w \<le> length (sequences w)" "index < length (sequences w)"
  shows "live (insert_at index s w) =
    take (length (sequences w)) (take index (live w) @ s # drop index (live w))"
  using shift_insert [OF assms, of s] assms
  by (simp add: live_def insert_at_def min_absorb2)

text \<open>Positions in the array, read off the descending list of all accepted sequences.\<close>

lemma window_position:
  assumes "sorted_wrt (>) D" "live w = take window_capacity D"
    and "length (sequences w) = window_capacity" "sequence_count w \<le> window_capacity"
    and "t = length (takeWhile (\<lambda>a. a > s) D)"
  shows "lower_bound (\<lambda>a. a > s) (live w) = min window_capacity t"
    and "sequence_count w = min window_capacity (length D)"
    and "card {h \<in> set D. h > s} = t"
    and "t \<le> length D"
    and "t < sequence_count w \<Longrightarrow> sequences w ! t = D ! t"
proof -
  show "lower_bound (\<lambda>a. a > s) (live w) = min window_capacity t"
    by (simp add: lower_bound_def assms(2,5) takeWhile_take min.commute)
  show count: "sequence_count w = min window_capacity (length D)"
    using assms(2-4) by (metis length_take live_def min.absorb2 min.commute)
  have "distinct D"
    using assms(1) by (induction D) auto
  then show "card {h \<in> set D. h > s} = t"
    using takeWhile_descending(1) [OF assms(1), of s] assms(5)
    by (metis distinct_card distinct_takeWhile)
  show "t \<le> length D"
    by (simp add: assms(5) length_takeWhile_le)
  show "t < sequence_count w \<Longrightarrow> sequences w ! t = D ! t"
    using assms(2) count by (metis live_def min_less_iff_conj nth_take)
qed

lemma replay_accept_step:
  assumes "window_history H w"
  shows "fst (replay_accept w s) = admissible H s \<and>
    window_history (if admissible H s then insert s H else H) (snd (replay_accept w s))"
proof -
  obtain D where D: "sorted_wrt (>) D" "set D = H" "live w = take window_capacity D"
    and len: "length (sequences w) = window_capacity" "sequence_count w \<le> window_capacity"
    using assms by (auto simp: window_history_def)
  let ?P = "\<lambda>a. a > s"
  define t where "t = length (takeWhile ?P D)"
  note pos = window_position [OF D(1,3) len t_def]
  note accept = replay_accept_at [OF pos(1) [symmetric]]
  have seen: "s \<in> H \<longleftrightarrow> t < length D \<and> D ! t = s"
    using member_descending [OF D(1), of s] D(2) by (simp add: t_def)
  have adm: "admissible H s \<longleftrightarrow> s \<noteq> 0 \<and> t < window_capacity \<and> s \<notin> H"
    using pos(3) D(2) by (auto simp: admissible_def)
  show ?thesis
  proof (cases "admissible H s")
    case True
    then have t: "t < window_capacity" "t \<le> sequence_count w" "s \<noteq> 0" "s \<notin> H"
      using adm pos(2,4) by simp_all
    moreover have "t < sequence_count w \<Longrightarrow> sequences w ! t \<noteq> s"
      using seen pos(2,5) t by simp
    ultimately have ok: "replay_accept w s = (True, insert_at t s w)"
      unfolding accept using len by (cases "t = sequence_count w") simp_all
    from t have "live (insert_at t s w) = take window_capacity (takeWhile ?P D @ s # dropWhile ?P D)"
      using live_insert_at [of t w s] len D(3) takeWhile_eq_take [of ?P D, folded t_def]
        dropWhile_eq_drop [of ?P D, folded t_def] pos(4)
      by (simp add: take_Cons' drop_take min_absorb1 min_absorb2)
    moreover have "set (takeWhile ?P D @ s # dropWhile ?P D) = insert s H"
      using D(2) by (metis (no_types) Un_insert_right list.simps(15) set_append takeWhile_dropWhile_id)
    moreover have "sorted_wrt (>) (takeWhile ?P D @ s # dropWhile ?P D)"
      using insert_descending [OF D(1)] True adm D(2) by blast
    ultimately have "window_history (insert s H) (insert_at t s w)"
      using len by (auto simp: window_history_def insert_at_def simp del: set_append)
    with ok True show ?thesis by simp
  next
    case False
    then consider "s = 0" | "t \<ge> window_capacity" | "t < window_capacity" "s \<in> H"
      using adm by linarith
    then have "replay_accept w s = (False, w)"
    proof cases
      case 3
      then have "t < sequence_count w"
        using seen pos(2) by simp
      with 3 show ?thesis
        unfolding accept using pos(5) seen by simp
    qed (unfold accept, simp_all add: len)
    with False assms show ?thesis by simp
  qed
qed

interpretation rw: replay_filter replay_accept "\<lambda>s. s" replay_window_init window_history
proof unfold_locales
  show "window_history {} replay_window_init"
    by (rule window_history_init)
next
  fix H w s w'
  assume inv: "window_history H w" and step: "replay_accept w s = (True, w')"
  show "s \<notin> H" "window_history (insert s H) w'"
    using replay_accept_step [OF inv, of s] step by (auto simp: admissible_def)
next
  fix H w s w'
  assume "window_history H w" "replay_accept w s = (False, w')"
  then show "window_history H w'"
    using replay_accept_step [of H w s] by auto
qed

subsection \<open>Properties\<close>

text \<open>The filter that remembers every accepted sequence, as an abstract specification.\<close>

fun admitted :: "u64 set \<Rightarrow> u64 list \<Rightarrow> u64 list" where
  "admitted H [] = []"
| "admitted H (s # xs) =
     (if admissible H s then s # admitted (insert s H) xs else admitted H xs)"

lemma accepted_run_admitted:
  "window_history H w \<Longrightarrow> accepted_run replay_accept w xs = admitted H xs"
proof (induction xs arbitrary: H w)
  case Nil
  then show ?case by simp
next
  case (Cons s xs)
  obtain ok w' where step: "replay_accept w s = (ok, w')"
    by force
  with replay_accept_step [OF Cons.prems, of s] Cons.IH show ?case
    by (auto split: if_splits)
qed

text \<open>
  C4. The 64-slot replay window accepts exactly the sequences that the filter with
  unbounded memory accepts: those that are not zero, were not accepted before and have
  fewer than 64 accepted sequences above them.
\<close>

theorem replay_window_refines:
  "accepted_run replay_accept replay_window_init xs = admitted {} xs"
  by (rule accepted_run_admitted [OF window_history_init])

text \<open>
  C16. Replay safety: whatever datagrams arrive, in whatever order, no sequence is ever
  accepted twice, also after its array slot was overwritten.
\<close>

theorem replay_no_duplicate: "distinct (accepted_run replay_accept replay_window_init xs)"
  using rw.no_replay [of xs] by simp

lemma next_sequence_greater:
  assumes "0 \<le> now" "now + n < 2 ^ 64" "uint l0 + n < 2 ^ 64" "0 < n"
    and "next_sequence now l0 = (s, l0')"
  shows "l0 < s" "l0' = s" "uint s + (n - 1) < 2 ^ 64"
proof -
  have now: "uint (word_of_int now :: u64) = now"
    using assms by (simp add: uint_word_of_int_eq take_bit_int_eq_self)
  have inc: "uint (l0 + 1) = uint l0 + 1"
    using assms by (simp add: uint_word_ariths(1) mod_pos_pos_trivial)
  show "l0 < s" "l0' = s" "uint s + (n - 1) < 2 ^ 64"
    using assms inc now
    by (auto simp: next_sequence_def Let_def word_less_def word_le_def split: if_splits)
qed

lemma sequence_run_above:
  assumes "\<forall>now \<in> set clock. 0 \<le> now \<and> now + int (length clock) < 2 ^ 64"
    and "uint l0 + int (length clock) < 2 ^ 64"
  shows "sorted_wrt (<) (l0 # sequence_run l0 clock)"
  using assms
proof (induction clock arbitrary: l0)
  case Nil
  then show ?case by simp
next
  case (Cons now clock)
  obtain s l' where step: "next_sequence now l0 = (s, l')"
    by force
  have after: "l0 < s" "l' = s" "uint s + int (length clock) < 2 ^ 64"
    using next_sequence_greater [of now "int (length (now # clock))" l0 s l'] Cons.prems step
    by simp_all
  have "sorted_wrt (<) (s # sequence_run s clock)"
    using Cons.IH [of s] Cons.prems after by fastforce
  with step after show ?case by (auto intro: less_trans)
qed

text \<open>
  C40. Sequence numbers strictly increase, even when the clock stands still or runs
  backwards, as long as neither the clock nor the counter is within the number of calls
  of the end of the 64-bit range.
\<close>

theorem sequence_run_increasing:
  assumes "\<forall>now \<in> set clock. 0 \<le> now \<and> now + int (length clock) < 2 ^ 64"
    and "uint l0 + int (length clock) < 2 ^ 64"
  shows "sorted_wrt (<) (l0 # sequence_run l0 clock)"
  using assms by (rule sequence_run_above)

theorem sequence_run_increasing_witness:
  "sorted_wrt (<) (7 # sequence_run 7 [100, 100, 40, 1000]) \<and>
   sequence_run 7 [100, 100, 40, 1000] = [100, 101, 102, 1000]"
proof -
  have "sorted_wrt (<) (7 # sequence_run 7 [100, 100, 40, 1000])"
    by (rule sequence_run_increasing) simp_all
  then show ?thesis
    by (simp add: next_sequence_def Let_def)
qed

end
