(* ===== verification/Info.thy ===== *)
theory Info
  imports Replay "HOL-Library.List_Lexorder" "HOL-Library.Char_ord"
begin

text \<open>
  The INFO message: \<open>decode\<close>, \<open>encode\<close>, \<open>encode_access\<close> and \<open>PeerSnapshot\<close> of
  \<open>src/info_codec.hpp\<close>. \<open>std::map\<close> is an association list in ascending key order.
\<close>

type_synonym fields = "(string \<times> string) list"

definition max_payload :: nat where
  "max_payload = 4096"

text \<open>\<open>std::map::emplace\<close>: fails when the key is present.\<close>

fun emplace :: "string \<Rightarrow> string \<Rightarrow> fields \<Rightarrow> fields option" where
  "emplace k v [] = Some [(k, v)]"
| "emplace k v ((k', v') # fs) =
     (if k = k' then None
      else if k < k' then Some ((k, v) # (k', v') # fs)
      else map_option (Cons (k', v')) (emplace k v fs))"

definition valid_key :: "string \<Rightarrow> bool" where
  "valid_key key =
     (key \<noteq> [] \<and> CHR ''a'' \<le> hd key \<and> hd key \<le> CHR ''z'' \<and>
      list_all (\<lambda>c. (CHR ''a'' \<le> c \<and> c \<le> CHR ''z'') \<or> (CHR ''0'' \<le> c \<and> c \<le> CHR ''9'') \<or> c = CHR ''_'') key)"

definition tab :: char where "tab = CHR 0x09"
definition newline :: char where "newline = CHR 0x0A"

definition blank :: "char \<Rightarrow> bool" where
  "blank c \<longleftrightarrow> c = CHR '' '' \<or> c = tab"

definition trim_value :: "string \<Rightarrow> string" where
  "trim_value v = rev (dropWhile blank (rev (dropWhile blank v)))"

definition printable :: "u8 \<Rightarrow> bool" where
  "printable c \<longleftrightarrow> 0x20 \<le> c \<and> c \<le> 0x7e \<or> c = 0x09 \<or> c = 0x0A"

function decode_lines :: "string \<Rightarrow> fields \<Rightarrow> fields option" where
  "decode_lines text result =
     (if text = [] then Some result
      else let line = takeWhile (\<lambda>c. c \<noteq> newline) text;
               after = dropWhile (\<lambda>c. c \<noteq> newline) text;
               key = takeWhile (\<lambda>c. c \<noteq> CHR ''='') line;
               v = dropWhile (\<lambda>c. c \<noteq> CHR ''='') line
           in if v = [] then None
              else if \<not> valid_key key then None
              else case emplace key (trim_value (tl v)) result of
                     None \<Rightarrow> None
                   | Some result' \<Rightarrow> if after = [] then Some result' else decode_lines (tl after) result')"
  by pat_completeness auto
termination
proof (relation "measure (\<lambda>(text, result). length text)", goal_cases)
  case 1
  then show ?case by simp
next
  case (2 t result line aft key v result')
  then have "length aft \<le> length t" "0 < length t"
    by (auto simp: length_dropWhile_le)
  then have "length (tl aft) < length t"
    by (simp del: length_greater_0_conv)
  then show ?case by simp
qed

declare decode_lines.simps [simp del]

definition info_decode :: "bytes \<Rightarrow> fields option" where
  "info_decode payload =
     (if payload = [] \<or> length payload > max_payload then None
      else if \<not> list_all printable payload then None
      else decode_lines (string_of_bytes payload) [])"

definition sanitize_char :: "char \<Rightarrow> char result" where
  "sanitize_char c =
     (let byte = byte_of_char c
      in if byte \<ge> 0x80 then Inr (CHR ''?'')
         else if (byte < 0x20 \<or> byte = 0x7f) \<and> c \<noteq> tab then Inl (Runtime_error ''Invalid INFO value'')
         else Inr c)"

fun sanitize :: "string \<Rightarrow> string result" where
  "sanitize [] = Inr []"
| "sanitize (c # cs) =
     (case sanitize_char c of Inl e \<Rightarrow> Inl e
      | Inr c' \<Rightarrow> (case sanitize cs of Inl e \<Rightarrow> Inl e | Inr cs' \<Rightarrow> Inr (c' # cs')))"

fun encode_fields :: "fields \<Rightarrow> string \<Rightarrow> string result" where
  "encode_fields [] text = Inr text"
| "encode_fields ((k, v) # fs) text =
     (if \<not> valid_key k then Inl (Runtime_error ''Invalid INFO key'')
      else case sanitize v of
             Inl e \<Rightarrow> Inl e
           | Inr v' \<Rightarrow>
               let trimmed = trim_value v'
               in if length text + length k + length trimmed + 2 > max_payload
                  then Inl (Runtime_error ''INFO exceeds payload limit'')
                  else encode_fields fs (text @ k @ ''='' @ trimmed @ [newline]))"

definition info_encode :: "fields \<Rightarrow> bytes result" where
  "info_encode fs =
     (if fs = [] then Inl (Runtime_error ''INFO requires at least one field'')
      else case encode_fields fs [] of Inl e \<Rightarrow> Inl e | Inr text \<Rightarrow> Inr (bytes_of_string text))"

subsection \<open>PeerSnapshot\<close>

record peer_snapshot =
  ps_fields :: fields
  ps_received :: bool
  ps_exchange :: u64
  ps_sequence :: u64

definition peer_snapshot_init :: peer_snapshot where
  "peer_snapshot_init = \<lparr>ps_fields = [], ps_received = False, ps_exchange = 0, ps_sequence = 0\<rparr>"

definition snapshot_activated :: "u64 \<Rightarrow> peer_snapshot \<Rightarrow> peer_snapshot" where
  "snapshot_activated exchange p =
     (if ps_exchange p = exchange then p
      else \<lparr>ps_fields = [], ps_received = False, ps_exchange = exchange, ps_sequence = 0\<rparr>)"

definition snapshot_accept :: "u64 \<Rightarrow> u64 \<Rightarrow> bytes \<Rightarrow> peer_snapshot \<Rightarrow> bool \<times> peer_snapshot" where
  "snapshot_accept exchange seq payload p =
     (if exchange = ps_exchange p \<and> seq \<le> ps_sequence p then (False, p)
      else case info_decode payload of
             None \<Rightarrow> (False, p)
           | Some fs \<Rightarrow> (True, \<lparr>ps_fields = fs, ps_received = True, ps_exchange = exchange, ps_sequence = seq\<rparr>))"

subsection \<open>Text lemmas\<close>

lemma dropWhile_fixed: "xs = [] \<or> \<not> P (hd xs) \<Longrightarrow> dropWhile P xs = xs"
  by (cases xs) auto

lemma hd_dropWhile_False: "dropWhile P xs = [] \<or> \<not> P (hd (dropWhile P xs))"
  using hd_dropWhile [of P xs] by blast

lemma trim_value_idem [simp]: "trim_value (trim_value v) = trim_value v"
proof -
  define w where "w = dropWhile blank v"
  define t where "t = rev (dropWhile blank (rev w))"
  have t: "trim_value v = t"
    by (simp add: trim_value_def t_def w_def)
  have "rev (takeWhile blank (rev w) @ dropWhile blank (rev w)) = w"
    by simp
  then have "w = t @ rev (takeWhile blank (rev w))"
    unfolding rev_append by (simp add: t_def)
  then have "t = [] \<or> hd t = hd w"
    by (metis hd_append2)
  moreover have "w = [] \<or> \<not> blank (hd w)"
    unfolding w_def by (rule hd_dropWhile_False)
  moreover have "w = [] \<Longrightarrow> t = []"
    by (simp add: t_def)
  ultimately have "dropWhile blank t = t"
    by (intro dropWhile_fixed) auto
  moreover have "dropWhile blank (rev t) = rev t"
    unfolding t_def by (simp add: dropWhile_fixed [OF hd_dropWhile_False])
  ultimately show ?thesis
    unfolding t by (simp add: trim_value_def)
qed

lemma set_trim_value: "set (trim_value v) \<subseteq> set v"
  unfolding trim_value_def by (metis set_dropWhileD set_rev subsetI)

lemma length_trim_value: "length (trim_value v) \<le> length v"
  unfolding trim_value_def
  by (metis length_dropWhile_le length_rev order_trans)

lemma valid_key_chars:
  assumes "valid_key k"
  shows "k \<noteq> []" "\<forall>c \<in> set k. c \<noteq> newline \<and> c \<noteq> CHR ''='' \<and> printable (byte_of_char c)"
proof -
  show "k \<noteq> []"
    using assms by (simp add: valid_key_def)
  have "c \<noteq> newline \<and> c \<noteq> CHR ''='' \<and> printable (byte_of_char c)"
    if "(CHR ''a'' \<le> c \<and> c \<le> CHR ''z'') \<or> (CHR ''0'' \<le> c \<and> c \<le> CHR ''9'') \<or> c = CHR ''_''" for c
    using that
    by (auto simp: less_eq_char_def printable_def newline_def byte_of_char_def word_le_nat_alt unat_of_nat
        take_bit_nat_def)
  then show "\<forall>c \<in> set k. c \<noteq> newline \<and> c \<noteq> CHR ''='' \<and> printable (byte_of_char c)"
    using assms by (auto simp: valid_key_def list_all_iff)
qed

subsection \<open>Decoding what was encoded\<close>

lemma emplace_last:
  "\<forall>(k', v') \<in> set fs. k' < k \<Longrightarrow> emplace k v fs = Some (fs @ [(k, v)])"
  by (induction k v fs rule: emplace.induct) auto

lemma decode_lines_Cons:
  assumes "valid_key k" "newline \<notin> set v" "\<forall>(k', v') \<in> set acc. k' < k"
  shows "decode_lines (k @ ''='' @ v @ [newline] @ rest) acc = decode_lines rest (acc @ [(k, trim_value v)])"
proof -
  let ?text = "k @ ''='' @ v @ [newline] @ rest"
  have key: "\<forall>c \<in> set k. c \<noteq> newline \<and> c \<noteq> CHR ''=''"
    using valid_key_chars(2) [OF assms(1)] by blast
  have line: "takeWhile (\<lambda>c. c \<noteq> newline) ?text = k @ ''='' @ v" "dropWhile (\<lambda>c. c \<noteq> newline) ?text = newline # rest"
    using key assms(2) by (auto simp: takeWhile_append dropWhile_append newline_def)
  have "takeWhile (\<lambda>c. c \<noteq> CHR ''='') (k @ ''='' @ v) = k" "dropWhile (\<lambda>c. c \<noteq> CHR ''='') (k @ ''='' @ v) = ''='' @ v"
    using key by (auto simp: takeWhile_append dropWhile_append)
  then show ?thesis
    unfolding decode_lines.simps [of ?text] line Let_def
    using assms(1) emplace_last [OF assms(3)] by simp
qed

definition field_line :: "string \<times> string \<Rightarrow> string" where
  "field_line f = fst f @ ''='' @ snd f @ [newline]"

lemma decode_lines_fields:
  assumes "\<forall>(k, v) \<in> set fs. valid_key k \<and> newline \<notin> set v" "sorted_wrt (<) (map fst (acc @ fs))"
  shows "decode_lines (concat (map field_line fs)) acc = Some (acc @ map (\<lambda>(k, v). (k, trim_value v)) fs)"
  using assms
proof (induction fs arbitrary: acc)
  case Nil
  then show ?case by (simp add: decode_lines.simps [of "[]"])
next
  case (Cons f fs)
  obtain k v where f: "f = (k, v)" by force
  have "decode_lines (concat (map field_line (f # fs))) acc
      = decode_lines (concat (map field_line fs)) (acc @ [(k, trim_value v)])"
    using Cons.prems f decode_lines_Cons [of k v acc] by (fastforce simp: field_line_def sorted_wrt_append)
  also have "\<dots> = Some ((acc @ [(k, trim_value v)]) @ map (\<lambda>(k, v). (k, trim_value v)) fs)"
    using Cons.prems f by (intro Cons.IH) auto
  finally show ?case by (simp add: f)
qed

text \<open>What a peer reads for each field: non-ASCII bytes replaced and blanks trimmed.\<close>

definition replace_char :: "char \<Rightarrow> char" where
  "replace_char c = (if byte_of_char c \<ge> 0x80 then CHR ''?'' else c)"

definition published :: "fields \<Rightarrow> fields" where
  "published fs = map (\<lambda>(k, v). (k, trim_value (map replace_char v))) fs"

lemma byte_below_127:
  fixes b :: u8
  assumes "\<not> 0x80 \<le> b" "b \<noteq> 0x7f"
  shows "b \<le> 0x7e"
proof -
  have "unat b \<noteq> 0x7f"
    using assms(2) by (metis unat_numeral_8 unsigned_word_eqI)
  with assms(1) show ?thesis
    by (simp add: word_le_nat_alt)
qed

lemma sanitize_ok:
  "sanitize v = Inr v' \<Longrightarrow> v' = map replace_char v \<and>
     (\<forall>c \<in> set v'. c \<noteq> newline \<and> printable (byte_of_char c))"
proof (induction v arbitrary: v')
  case Nil
  then show ?case by simp
next
  case (Cons c cs)
  obtain c' cs' where *: "sanitize_char c = Inr c'" "sanitize cs = Inr cs'" "v' = c' # cs'"
    using Cons.prems by (auto split: sum.splits)
  have "c' = replace_char c \<and> c' \<noteq> newline \<and> printable (byte_of_char c')"
    using *(1) byte_below_127 [of "byte_of_char c"]
    by (auto simp: sanitize_char_def replace_char_def Let_def printable_def newline_def tab_def
        byte_of_char_def not_less split: if_splits)
  with * Cons.IH show ?case by auto
qed

lemma encode_fields_ok:
  "encode_fields fs buf = Inr out \<Longrightarrow> length buf \<le> max_payload \<Longrightarrow>
     out = buf @ concat (map field_line (published fs)) \<and> length out \<le> max_payload \<and>
     (\<forall>(k, v) \<in> set (published fs). valid_key k \<and> newline \<notin> set v \<and> list_all printable (bytes_of_string v))"
proof (induction fs arbitrary: buf)
  case Nil
  then show ?case by (simp add: published_def)
next
  case (Cons f fs)
  obtain k v where f: "f = (k, v)" by force
  obtain v' where step: "valid_key k" "sanitize v = Inr v'"
      "length buf + length k + length (trim_value v') + 2 \<le> max_payload"
      "encode_fields fs (buf @ k @ ''='' @ trim_value v' @ [newline]) = Inr out"
    using Cons.prems(1) f by (auto simp: Let_def split: if_splits sum.splits)
  have "\<forall>c \<in> set (trim_value v'). c \<noteq> newline \<and> printable (byte_of_char c)"
    using sanitize_ok [OF step(2)] set_trim_value [of v'] by blast
  then have "newline \<notin> set (trim_value v')" "list_all printable (bytes_of_string (trim_value v'))"
    by (auto simp: list_all_iff)
  moreover have v': "v' = map replace_char v"
    using sanitize_ok [OF step(2)] by simp
  ultimately have head: "valid_key k \<and> newline \<notin> set (trim_value (map replace_char v)) \<and>
      list_all printable (bytes_of_string (trim_value (map replace_char v)))"
    using step(1) by simp
  have "length (buf @ k @ ''='' @ trim_value v' @ [newline]) \<le> max_payload"
    using step(3) by simp
  note IH = Cons.IH [OF step(4) this]
  have p: "published (f # fs) = (k, trim_value v') # published fs"
    by (simp add: f published_def v')
  show ?case
  proof (intro conjI)
    show "out = buf @ concat (map field_line (published (f # fs)))"
      using IH by (simp add: p field_line_def [of "(k, trim_value v')"])
    show "length out \<le> max_payload"
      using IH by blast
    show "\<forall>(k, v) \<in> set (published (f # fs)).
        valid_key k \<and> newline \<notin> set v \<and> list_all printable (bytes_of_string v)"
      using IH head by (simp add: p v')
  qed
qed

lemma trim_published: "map (\<lambda>(k, v). (k, trim_value v)) (published fs) = published fs"
  by (auto simp: published_def)

lemma printable_fields:
  assumes "\<forall>(k, v) \<in> set fs. valid_key k \<and> list_all printable (bytes_of_string v)"
  shows "list_all printable (bytes_of_string (concat (map field_line fs)))"
proof -
  have seps: "printable (byte_of_char (CHR ''=''))" "printable (byte_of_char newline)"
    by (simp_all add: printable_def newline_def byte_of_char_def)
  have "list_all printable (bytes_of_string (field_line f))" if "f \<in> set fs" for f
    using that assms valid_key_chars(2) [of "fst f"] seps
    by (auto simp: field_line_def list_all_iff)
  then show ?thesis
    by (auto simp: list_all_iff)
qed

text \<open>
  C34. INFO round trip: decoding what \<open>encode\<close> produces for a map of fields gives the same
  keys in the same order, each with its value trimmed and its non-ASCII bytes replaced.
\<close>

theorem info_round_trip:
  assumes "sorted_wrt (<) (map fst fs)" "info_encode fs = Inr payload"
  shows "info_decode payload = Some (published fs)"
proof -
  obtain out where out: "encode_fields fs [] = Inr out" "payload = bytes_of_string out" "fs \<noteq> []"
    using assms(2) by (auto simp: info_encode_def split: if_splits sum.splits)
  note ok = encode_fields_ok [OF out(1), simplified]
  have keys: "map fst (published fs) = map fst fs"
    by (simp add: published_def comp_def case_prod_beta')
  have "decode_lines out [] = Some (published fs)"
    using decode_lines_fields [of "published fs" "[]"] ok assms(1) keys trim_published by fastforce
  moreover have "list_all printable payload"
    using printable_fields [of "published fs"] ok out(2) by fastforce
  moreover have "out \<noteq> []"
    using ok out(3) by (cases fs) (auto simp: published_def field_line_def)
  ultimately show ?thesis
    using conjunct1 [OF conjunct2 [OF ok]] out(2) by (simp add: info_decode_def comp_def)
qed

theorem info_round_trip_witness:
  "info_decode (bytes_of_string (''access=10.0.0.1'' @ [newline] @ ''site='' @ [newline]))
     = Some [(''access'', ''10.0.0.1''), (''site'', [])]"
proof -
  have "info_encode [(''access'', '' 10.0.0.1''), (''site'', '' '')]
      = Inr (bytes_of_string (''access=10.0.0.1'' @ [newline] @ ''site='' @ [newline]))"
    by code_simp
  from info_round_trip [OF _ this] have "info_decode (bytes_of_string (''access=10.0.0.1'' @ [newline] @ ''site='' @ [newline]))
      = Some (published [(''access'', '' 10.0.0.1''), (''site'', '' '')])"
    by (simp add: less_char_def)
  moreover have "published [(''access'', '' 10.0.0.1''), (''site'', '' '')] = [(''access'', ''10.0.0.1''), (''site'', [])]"
    by code_simp
  ultimately show ?thesis by simp
qed

subsection \<open>Snapshots of one exchange\<close>

definition snapshot_history :: "u64 \<Rightarrow> u64 set \<Rightarrow> peer_snapshot \<Rightarrow> bool" where
  "snapshot_history exchange H p \<longleftrightarrow> ps_exchange p = exchange \<and> (\<forall>seq \<in> H. seq \<le> ps_sequence p)"

interpretation ps: replay_filter
  "\<lambda>p x. snapshot_accept exchange (fst x) (snd x) p" fst "snapshot_activated exchange peer_snapshot_init"
  "snapshot_history exchange" for exchange
proof unfold_locales
  show "snapshot_history exchange {} (snapshot_activated exchange peer_snapshot_init)"
    by (simp add: snapshot_history_def snapshot_activated_def peer_snapshot_init_def)
qed (fastforce simp: snapshot_history_def snapshot_accept_def split: if_splits option.splits)+

text \<open>
  C35. Within one key exchange, no INFO sequence is ever accepted twice, so a replayed message
  cannot bring an older snapshot of the peer back.
\<close>

theorem snapshot_no_replay:
  "distinct (map fst (accepted_run (\<lambda>p x. snapshot_accept exchange (fst x) (snd x) p)
     (snapshot_activated exchange peer_snapshot_init) messages))"
  by (rule ps.no_replay)

end
