(* ===== verification/Protocol.thy ===== *)
theory Protocol
  imports Ascon Info Packet
begin

text \<open>
  The datagram format, \<open>ProtocolV5\<close> of \<open>src/protocol.hpp\<close>: a type byte with flags, the
  wire sequence, type-specific metadata, a 16-byte tag and the payload. \<open>decode\<close> returns
  the packet or nothing; the caller's packet after a failed \<open>decode\<close> is not modelled.
\<close>

record protocol_v5 =
  pv_tunnel_id :: u16
  pv_tx_key :: bytes
  pv_rx_key :: bytes
  pv_encrypt :: bool
  pv_tx_aead :: aead128
  pv_rx_aead :: aead128

text \<open>The two constructors: from the master key for handshakes, and with session keys.\<close>

definition ProtocolV5_master :: "u16 \<Rightarrow> bytes \<Rightarrow> bool \<Rightarrow> protocol_v5" where
  "ProtocolV5_master tunnel master_key server_mode =
     (let tx = derive_direction_key master_key tunnel (\<not> server_mode);
          rx = derive_direction_key master_key tunnel server_mode
      in \<lparr>pv_tunnel_id = tunnel, pv_tx_key = tx, pv_rx_key = rx, pv_encrypt = False,
          pv_tx_aead = Aead128 tx, pv_rx_aead = Aead128 rx\<rparr>)"

definition ProtocolV5 :: "u16 \<Rightarrow> bytes \<Rightarrow> bytes \<Rightarrow> bool \<Rightarrow> protocol_v5" where
  "ProtocolV5 tunnel tx rx encrypt =
     \<lparr>pv_tunnel_id = tunnel, pv_tx_key = tx, pv_rx_key = rx, pv_encrypt = encrypt,
      pv_tx_aead = Aead128 tx, pv_rx_aead = Aead128 rx\<rparr>"

subsection \<open>Layout\<close>

definition fragmented :: "packet \<Rightarrow> bool" where
  "fragmented p \<longleftrightarrow> (pk_type p = pt_data \<or> pk_type p = pt_ipc) \<and>
     (pk_fragment_offset p \<noteq> 0 \<or> unat (pk_original_length p) \<noteq> length (pk_payload p))"

fun metadata_size :: "packet_type \<Rightarrow> bool \<Rightarrow> nat" where
  "metadata_size pt_data fragment = (if fragment then 21 else 9)"
| "metadata_size pt_ipc fragment = (if fragment then 25 else 9)"
| "metadata_size pt_ping fragment = 17"
| "metadata_size pt_pong fragment = 17"
| "metadata_size pt_confirm fragment = 17"
| "metadata_size pt_confirm_ack fragment = 17"
| "metadata_size pt_mtu_probe fragment = 19"
| "metadata_size pt_mtu_reply fragment = 19"
| "metadata_size pt_init fragment = 18"
| "metadata_size pt_response fragment = 18"
| "metadata_size _ fragment = 9"

definition header_size :: "packet \<Rightarrow> nat" where
  "header_size p = metadata_size (pk_type p) (fragmented p) + 16"

definition packet_limit :: "packet_type \<Rightarrow> nat" where
  "packet_limit t = (if t = pt_ipc then max_ipc_packet_size else max_ip_packet_size)"

definition handshake_type :: "packet_type \<Rightarrow> bool" where
  "handshake_type t \<longleftrightarrow> t = pt_init \<or> t = pt_response"

text \<open>The first \<open>metadata_size\<close> bytes of the output, in the order of their offsets.\<close>

definition encode_metadata :: "bool \<Rightarrow> packet \<Rightarrow> bytes" where
  "encode_metadata encrypt p =
     (let t = pk_type p; fragment = fragmented p; meta = metadata_size t fragment
      in [type_code t OR (if encrypt then 0x80 else 0) OR (if fragment then 0x40 else 0)] @
         store_be64 (pk_sequence p) @
         (if handshake_type t then [protocol_version_v5] @ store_be64 (pk_message_id p)
          else if meta > 9 then
            store_be64 (pk_message_id p) @
            (if fragment then
               (if t = pt_ipc then store_be32 (pk_fragment_offset p) @ store_be32 (pk_original_length p)
                else store_be16 (ucast (pk_fragment_offset p)) @ store_be16 (ucast (pk_original_length p)))
             else if meta = 19 then store_be16 (ucast (pk_original_length p)) else [])
          else []))"

text \<open>Authentication: the tag goes between the metadata and the possibly encrypted payload.\<close>

definition seal :: "protocol_v5 \<Rightarrow> u64 \<Rightarrow> bytes \<Rightarrow> bytes \<Rightarrow> bytes" where
  "seal v seq metadata payload =
     (if pv_encrypt v then
        (let nonce = replicate 8 0 @ store_be64 seq;
             (c, tag) = aead_encrypt (pv_tx_aead v) nonce metadata payload
         in metadata @ tag @ c)
      else metadata @ mac (pv_tx_key v) (pv_tunnel_id v) (metadata @ payload) @ payload)"

definition encode_into :: "protocol_v5 \<Rightarrow> packet \<Rightarrow> bytes result" where
  "encode_into v p =
     (let t = pk_type p; meta = metadata_size t (fragmented p); limit = packet_limit t
      in if meta = 0 \<or> unat (pk_fragment_offset p) > limit \<or> unat (pk_original_length p) > limit \<or>
            length (pk_payload p) > limit
         then Inl (Runtime_error ''Invalid V5 packet metadata'')
         else if handshake_type t \<and> pv_encrypt v
         then Inl (Runtime_error ''INIT/RESPONSE must use handshake authentication'')
         else Inr (seal v (pk_sequence p) (encode_metadata (pv_encrypt v) p) (pk_payload p)))"

subsection \<open>Decoding\<close>

definition unseal :: "protocol_v5 \<Rightarrow> nat \<Rightarrow> bytes \<Rightarrow> bytes option" where
  "unseal v meta data =
     (let header = meta + 16
      in if pv_encrypt v then
           (let nonce = replicate 8 0 @ slice 1 8 data;
                (ok, payload) = aead_decrypt (pv_rx_aead v) nonce (take meta data) (drop header data) (slice meta 16 data)
            in if ok then Some payload else None)
         else
           (let tag = mac (pv_rx_key v) (pv_tunnel_id v) (take meta data @ drop header data)
            in if constant_time_equal 16 (slice meta 16 data) tag then Some (drop header data) else None))"

text \<open>Message id, fragment offset and original length, where the type has them.\<close>

definition decode_fields :: "packet_type \<Rightarrow> bool \<Rightarrow> bytes \<Rightarrow> bytes \<Rightarrow> (u64 \<times> u32 \<times> u32) option" where
  "decode_fields t fragment data payload =
     (let meta = metadata_size t fragment
      in if handshake_type t then Some (load_be64 (drop 10 data), 0, 0)
         else if meta > 9 then
           (let msg = load_be64 (drop 9 data)
            in if fragment then
                 (let offset = (if t = pt_ipc then load_be32 (drop 17 data) else ucast (load_be16 (drop 17 data)));
                      len = (if t = pt_ipc then load_be32 (drop 21 data) else ucast (load_be16 (drop 19 data)))
                  in if unat len > packet_limit t then None
                     else if offset = 0 \<and> unat len = length payload then None
                     else Some (msg, offset, len))
               else Some (msg, 0, if meta = 19 then ucast (load_be16 (drop 17 data)) else 0))
         else if t = pt_data \<or> t = pt_ipc then Some (load_be64 (drop 1 data), 0, of_nat (length payload))
         else Some (0, 0, 0))"

definition valid_packet :: "packet \<Rightarrow> bool" where
  "valid_packet p =
     (let t = pk_type p; msg = pk_message_id p; offset = pk_fragment_offset p;
          len = unat (pk_original_length p); body = pk_payload p
      in if handshake_type t then
           (let expected = (if t = pt_init then 44 else 68)
            in pk_sequence p = 0 \<and> msg \<noteq> 0 \<and> offset = 0 \<and> len = 0 \<and> length body \<ge> expected \<and>
               (let suite = load_be16 (drop (expected - 4) body);
                    dh_size = load_be16 (drop (expected - 2) body)
                in suite \<le> 2 \<and> dh_size = (if suite = 2 then 32 else 0) \<and>
                   length body = expected + unat dh_size))
         else if t = pt_control \<or> t = pt_control_challenge then length body \<ge> 32
         else if t = pt_info then info_decode body \<noteq> None
         else if t \<in> {pt_auth_challenge, pt_auth_response, pt_auth_ok, pt_auth_failed, pt_relocate, pt_config,
                      pt_relocate_bind, pt_relocate_ok} then body \<noteq> []
         else if t = pt_confirm \<or> t = pt_confirm_ack then
           msg \<noteq> 0 \<and> offset = 0 \<and> len = 0 \<and> body = [] \<and> pk_sequence p AND 0x0000ffffffffffff = 0
         else if t = pt_data \<or> t = pt_ipc then
           msg \<noteq> 0 \<and> len \<noteq> 0 \<and> body \<noteq> [] \<and> unat offset + length body \<le> len
         else if t = pt_ping \<or> t = pt_pong then msg \<noteq> 0 \<and> offset = 0 \<and> len = 0 \<and> body = []
         else if t = pt_mtu_probe then
           msg \<noteq> 0 \<and> offset = 0 \<and> min_transport_mtu \<le> len \<and> len \<le> max_ip_packet_size
         else if t = pt_mtu_reply then
           msg \<noteq> 0 \<and> offset = 0 \<and> min_transport_mtu \<le> len \<and> len \<le> max_ip_packet_size \<and> body = []
         else msg = 0 \<and> offset = 0 \<and> len = 0 \<and> body = [])"

definition decode :: "protocol_v5 \<Rightarrow> bytes \<Rightarrow> packet option" where
  "decode v data =
     (if length data < protocol_header_v5_size then None
      else if (data ! 0 AND 0x80 \<noteq> 0) \<noteq> pv_encrypt v \<or> data ! 0 AND 0x20 \<noteq> 0 then None
      else case packet_type_of (data ! 0 AND 0x1f) of
        None \<Rightarrow> None
      | Some t \<Rightarrow>
          let fragment = (data ! 0 AND 0x40 \<noteq> 0);
              meta = metadata_size t fragment;
              header = meta + 16
          in if fragment \<and> t \<noteq> pt_data \<and> t \<noteq> pt_ipc then None
             else if meta = 0 \<or> length data < header \<or> length data - header > packet_limit t then None
             else if handshake_type t \<and> (pv_encrypt v \<or> data ! 9 \<noteq> protocol_version_v5) then None
             else case unseal v meta data of
               None \<Rightarrow> None
             | Some body \<Rightarrow>
                 (case decode_fields t fragment data body of
                    None \<Rightarrow> None
                  | Some (msg, offset, len) \<Rightarrow>
                      let p = \<lparr>pk_type = t, pk_tunnel_id = pv_tunnel_id v,
                               pk_protocol_version = protocol_version_v5,
                               pk_sequence = load_be64 (drop 1 data), pk_message_id = msg,
                               pk_fragment_offset = offset, pk_original_length = len, pk_payload = body\<rparr>
                      in if valid_packet p then Some p else None))"

end
