(* ===== verification/Session.thy ===== *)
theory Session
  imports Protocol Replay Reassembly
begin

text \<open>
  The session layer, \<open>SessionProtocol\<close> of \<open>src/session.hpp\<close>: handshake, rekeying, key
  derivation, transmit counters and dispatch of received datagrams. Sessions are held in
  three slots (active, pending, previous). The clocks, the random bytes and the X25519
  functions are arguments; the session objects' reassemblers share the metrics of the
  protocol object, which are put into a reassembler when one of its operations runs.
\<close>

subsection \<open>State\<close>

record session =
  s_codec :: protocol_v5
  s_replay :: replay_window
  s_reassembly :: reassembler
  s_hint :: u16
  s_created :: time
  s_next_counter :: u64
  s_exchange :: u64
  s_init :: bytes
  s_response :: bytes

record counters =
  handshake_started :: nat
  handshake_completed :: nat
  rekey_started :: nat
  rekey_completed :: nat
  handshake_retries :: nat
  handshake_timeouts :: nat
  handshake_suite_mismatch :: nat
  handshake_dh_rejected :: nat
  handshake_random_errors :: nat

record session_protocol =
  sp_metrics :: reassembly_metrics
  sp_counters :: counters
  sp_last_completed :: time
  sp_id :: u16
  sp_master :: bytes
  sp_server :: bool
  sp_mtu :: nat
  sp_encrypt :: bool
  sp_pfs :: bool
  sp_client_secret :: bytes
  sp_handshake :: protocol_v5
  sp_transmit_generation :: nat
  sp_active :: "session option"
  sp_previous :: "session option"
  sp_pending :: "session option"
  sp_previous_until :: time
  sp_pending_until :: time
  sp_last_received :: time
  sp_response_resend_after :: time
  sp_random_retry_after :: time
  sp_flight_started :: time
  sp_last_retry :: time
  sp_waiting_ack :: bool
  sp_begin_retry :: bool
  sp_client_exchange :: u64
  sp_client_init :: bytes
  sp_flight :: bytes
  sp_seen_nonces :: "bytes list"
  sp_nonce_expiry :: "(u64 \<times> bytes) list"
  sp_init_window :: nat
  sp_wall_high_water :: int

datatype slot = Active | Pending | Previous

record received =
  rx_data :: bool
  rx_control :: bool
  rx_replay_drop :: bool
  rx_activated :: bool
  rx_update_peer :: bool
  rx_timestamp_rejected :: bool
  rx_clock_warning :: bool
  rx_nonce_capacity :: bool
  rx_clock_offset :: int
  rx_session :: "slot option"
  rx_reply :: bytes

definition received_init :: received where
  "received_init =
    \<lparr>rx_data = False, rx_control = False, rx_replay_drop = False, rx_activated = False,
     rx_update_peer = False, rx_timestamp_rejected = False, rx_clock_warning = False,
     rx_nonce_capacity = False, rx_clock_offset = 0, rx_session = None, rx_reply = []\<rparr>"

text \<open>What the environment supplies: X25519 and the random bytes one call may draw.\<close>

record crypto =
  dh_public :: "bytes \<Rightarrow> bytes"
  dh_shared :: "bytes \<Rightarrow> bytes \<Rightarrow> bytes option"

record randoms =
  rnd_id :: "bytes option"
  rnd_nonce :: "bytes option"
  rnd_secret :: "bytes option"

definition counter_mask :: u64 where "counter_mask = 0x0000ffffffffffff"
definition retry_interval :: time where "retry_interval = seconds 1"
definition response_resend_interval :: time where "response_resend_interval = milliseconds 200"
definition pending_lifetime :: time where "pending_lifetime = seconds 5"
definition old_lifetime :: time where "old_lifetime = seconds 3"
definition rekey_interval :: time where "rekey_interval = seconds 120"
definition idle_restart :: time where "idle_restart = seconds 20"
definition nonce_capacity :: nat where "nonce_capacity = 65536"

definition counters_init :: counters where
  "counters_init =
    \<lparr>handshake_started = 0, handshake_completed = 0, rekey_started = 0, rekey_completed = 0,
     handshake_retries = 0, handshake_timeouts = 0, handshake_suite_mismatch = 0,
     handshake_dh_rejected = 0, handshake_random_errors = 0\<rparr>"

definition SessionProtocol ::
  "u16 \<Rightarrow> bytes \<Rightarrow> bool \<Rightarrow> nat \<Rightarrow> bool \<Rightarrow> nat \<Rightarrow> bool \<Rightarrow> session_protocol result" where
  "SessionProtocol tid master server mtu encrypt init_window pfs =
     (if init_window < 2 \<or> init_window > 86400 \<or> init_window mod 2 \<noteq> 0
      then Inl (Runtime_error ''INIT window must be even and in range 2..86400 seconds'')
      else Inr \<lparr>sp_metrics = reassembly_metrics_init, sp_counters = counters_init, sp_last_completed = 0,
                sp_id = tid, sp_master = master, sp_server = server, sp_mtu = mtu,
                sp_encrypt = (encrypt \<or> pfs), sp_pfs = pfs, sp_client_secret = replicate 32 0,
                sp_handshake = ProtocolV5_master tid master server, sp_transmit_generation = 0,
                sp_active = None, sp_previous = None, sp_pending = None, sp_previous_until = 0,
                sp_pending_until = 0, sp_last_received = 0, sp_response_resend_after = 0,
                sp_random_retry_after = 0, sp_flight_started = 0, sp_last_retry = 0,
                sp_waiting_ack = False, sp_begin_retry = False, sp_client_exchange = 0,
                sp_client_init = [], sp_flight = [], sp_seen_nonces = [], sp_nonce_expiry = [],
                sp_init_window = init_window, sp_wall_high_water = 0\<rparr>)"

subsection \<open>Counters and slots\<close>

definition count :: "(counters \<Rightarrow> counters) \<Rightarrow> session_protocol \<Rightarrow> session_protocol" where
  "count f sp = sp\<lparr>sp_counters := f (sp_counters sp)\<rparr>"

definition started :: "session_protocol \<Rightarrow> session_protocol" where
  "started sp = count (\<lambda>c. let c = c\<lparr>handshake_started := handshake_started c + 1\<rparr>
     in if handshake_completed c \<noteq> 0 then c\<lparr>rekey_started := rekey_started c + 1\<rparr> else c) sp"

definition completed :: "time \<Rightarrow> session_protocol \<Rightarrow> session_protocol" where
  "completed now sp =
     (count (\<lambda>c. let c = (if handshake_completed c \<noteq> 0 then c\<lparr>rekey_completed := rekey_completed c + 1\<rparr> else c)
        in c\<lparr>handshake_completed := handshake_completed c + 1\<rparr>) sp)\<lparr>sp_last_completed := now\<rparr>"

text \<open>Destroying a session object returns its share of the reassembly gauges.\<close>

definition retire :: "session option \<Rightarrow> session_protocol \<Rightarrow> session_protocol" where
  "retire old sp =
     (case old of None \<Rightarrow> sp
      | Some s \<Rightarrow> sp\<lparr>sp_metrics := destroy ((s_reassembly s)\<lparr>metrics := sp_metrics sp\<rparr>)\<rparr>)"

definition reset_active :: "session_protocol \<Rightarrow> session_protocol" where
  "reset_active sp = (retire (sp_active sp) sp)\<lparr>sp_active := None\<rparr>"

definition reset_previous :: "session_protocol \<Rightarrow> session_protocol" where
  "reset_previous sp = (retire (sp_previous sp) sp)\<lparr>sp_previous := None\<rparr>"

definition reset_pending :: "session_protocol \<Rightarrow> session_protocol" where
  "reset_pending sp = (retire (sp_pending sp) sp)\<lparr>sp_pending := None\<rparr>"

definition expire_previous :: "time \<Rightarrow> session_protocol \<Rightarrow> session_protocol" where
  "expire_previous now sp =
     (if sp_previous sp \<noteq> None \<and> now \<ge> sp_previous_until sp then reset_previous sp else sp)"

definition expire_pending :: "time \<Rightarrow> session_protocol \<Rightarrow> session_protocol" where
  "expire_pending now sp =
     (if sp_pending sp \<noteq> None \<and> now \<ge> sp_pending_until sp
      then reset_pending (count (\<lambda>c. c\<lparr>handshake_timeouts := handshake_timeouts c + 1\<rparr>) sp) else sp)"

definition random_failed :: "time \<Rightarrow> session_protocol \<Rightarrow> session_protocol" where
  "random_failed now sp =
     (count (\<lambda>c. c\<lparr>handshake_random_errors := handshake_random_errors c + 1\<rparr>) sp)
       \<lparr>sp_random_retry_after := now + retry_interval\<rparr>"

text \<open>\<open>previous_ = std::move(active_); active_ = candidate\<close>, with the grace period.\<close>

definition promote :: "session \<Rightarrow> time \<Rightarrow> session_protocol \<Rightarrow> session_protocol" where
  "promote candidate now sp =
     (let sp = retire (sp_previous sp) sp
      in sp\<lparr>sp_previous := sp_active sp, sp_previous_until := now + old_lifetime,
            sp_active := Some candidate, sp_transmit_generation := sp_transmit_generation sp + 1\<rparr>)"

subsection \<open>Keys and handshake packets\<close>

definition suite :: "session_protocol \<Rightarrow> u16" where
  "suite sp = (if sp_pfs sp then 2 else if sp_encrypt sp then 1 else 0)"

definition expand :: "bytes \<Rightarrow> u16 \<Rightarrow> string \<Rightarrow> bytes \<Rightarrow> bytes" where
  "expand master tid label transcript = mac master tid (bytes_of_string label @ [0] @ transcript)"

definition commitment :: "bytes \<Rightarrow> u16 \<Rightarrow> bytes \<Rightarrow> bytes" where
  "commitment master tid init = expand master tid ''V4-INIT-BIND-0'' init @ expand master tid ''V4-INIT-BIND-1'' init"

definition control :: "session_protocol \<Rightarrow> packet_type \<Rightarrow> u64 \<Rightarrow> packet" where
  "control sp t exchange =
     \<lparr>pk_type = t, pk_tunnel_id = sp_id sp, pk_protocol_version = protocol_version_v5, pk_sequence = 0,
      pk_message_id = exchange, pk_fragment_offset = 0, pk_original_length = 0, pk_payload = []\<rparr>"

text \<open>\<open>ProtocolV5::encode\<close> for the packets of the handshake, which never throws for them.\<close>

definition encoded :: "protocol_v5 \<Rightarrow> packet \<Rightarrow> bytes" where
  "encoded v p = (case encode_into v p of Inr data \<Rightarrow> data | Inl _ \<Rightarrow> [])"

definition session_keys :: "session_protocol \<Rightarrow> bytes \<Rightarrow> bytes \<Rightarrow> bytes \<times> bytes \<times> bytes" where
  "session_keys sp transcript dh =
     (if sp_pfs sp then
        (let prk = akdf_extract (sp_master sp) (sp_id sp) dh
         in (akdf_expand prk (sp_id sp) ''TUNTOM-AKDF-v1-C2S'' transcript,
             akdf_expand prk (sp_id sp) ''TUNTOM-AKDF-v1-S2C'' transcript,
             akdf_expand prk (sp_id sp) ''TUNTOM-AKDF-v1-HINT'' transcript))
      else (expand (sp_master sp) (sp_id sp) ''V4-SESSION-C2S'' transcript,
            expand (sp_master sp) (sp_id sp) ''V4-SESSION-S2C'' transcript,
            expand (sp_master sp) (sp_id sp) ''V4-SESSION-HINT'' transcript))"

definition derive :: "session_protocol \<Rightarrow> bytes \<Rightarrow> bytes \<Rightarrow> u64 \<Rightarrow> bytes \<Rightarrow> time \<Rightarrow> session" where
  "derive sp init response exchange dh now =
     (let (c2s, s2c, hint) = session_keys sp (init @ response) dh
      in \<lparr>s_codec = ProtocolV5 (sp_id sp) (if sp_server sp then s2c else c2s)
                     (if sp_server sp then c2s else s2c) (sp_encrypt sp),
          s_replay = replay_window_init,
          s_reassembly = projr (Reassembler (sp_mtu sp) (sp_metrics sp) default_limits),
          s_hint = load_be16 hint, s_created = now, s_next_counter = 1, s_exchange = exchange,
          s_init = init, s_response = response\<rparr>)"

definition confirmation :: "session_protocol \<Rightarrow> session \<Rightarrow> packet_type \<Rightarrow> bytes" where
  "confirmation sp s t =
     encoded (s_codec s) ((control sp t (s_exchange s))\<lparr>pk_sequence := push_bit 48 (ucast (s_hint s))\<rparr>)"

subsection \<open>Client flights\<close>

definition ready :: "session_protocol \<Rightarrow> bool" where
  "ready sp = (case sp_active sp of None \<Rightarrow> False
     | Some s \<Rightarrow> s_next_counter s \<le> (if sp_encrypt sp then 0xffffffff else counter_mask))"

definition active_exchange :: "session_protocol \<Rightarrow> u64" where
  "active_exchange sp = (case sp_active sp of None \<Rightarrow> 0 | Some s \<Rightarrow> s_exchange s)"

text \<open>The INIT payload: nonce, Unix time, suite and, with forward secrecy, the public key.\<close>

definition init_payload :: "crypto \<Rightarrow> session_protocol \<Rightarrow> bytes \<Rightarrow> int \<Rightarrow> bytes \<Rightarrow> bytes" where
  "init_payload c sp nonce wall secret =
     nonce @ store_be64 (word_of_int (max 0 wall)) @ store_be16 (suite sp) @
     (if sp_pfs sp then store_be16 32 @ dh_public c secret else store_be16 0)"

definition begin_flight :: "session_protocol \<Rightarrow> packet \<Rightarrow> bytes \<Rightarrow> time \<Rightarrow> bytes \<times> session_protocol" where
  "begin_flight sp init secret now =
     (let wire = encoded (sp_handshake sp) init;
          sp = reset_pending (reset_previous sp)
      in (wire, started (sp\<lparr>sp_waiting_ack := False, sp_client_secret := secret, sp_client_init := wire,
                            sp_client_exchange := pk_message_id init, sp_flight := wire,
                            sp_flight_started := now, sp_last_retry := now, sp_begin_retry := False\<rparr>)))"

definition begin_handshake :: "crypto \<Rightarrow> randoms \<Rightarrow> time \<Rightarrow> int \<Rightarrow> session_protocol \<Rightarrow> bytes \<times> session_protocol" where
  "begin_handshake c rnd now wall sp =
     (if sp_server sp then ([], sp)
      else
        let sp = sp\<lparr>sp_begin_retry := True\<rparr>
        in if now < sp_random_retry_after sp then ([], sp)
           else
             let msg = (case rnd_id rnd of None \<Rightarrow> 0 | Some b \<Rightarrow> load_be64 b)
             in if msg = 0 then ([], random_failed now sp)
                else case rnd_nonce rnd of
                  None \<Rightarrow> ([], random_failed now sp)
                | Some nonce \<Rightarrow>
                    if sp_pfs sp then
                      (case rnd_secret rnd of
                         None \<Rightarrow> ([], random_failed now sp)
                       | Some secret \<Rightarrow>
                           begin_flight sp ((control sp pt_init msg)
                             \<lparr>pk_payload := init_payload c sp nonce wall secret\<rparr>) secret now)
                    else begin_flight sp ((control sp pt_init msg)
                           \<lparr>pk_payload := init_payload c sp nonce wall []\<rparr>) (replicate 32 0) now)"

definition restart :: "crypto \<Rightarrow> randoms \<Rightarrow> time \<Rightarrow> int \<Rightarrow> session_protocol \<Rightarrow> bytes \<times> session_protocol" where
  "restart c rnd now wall sp =
     (if sp_server sp then ([], sp)
      else let sp = reset_pending (reset_previous (reset_active sp));
               sp = sp\<lparr>sp_waiting_ack := False, sp_flight := [], sp_client_init := [],
                        sp_client_secret := replicate 32 0,
                        sp_transmit_generation := sp_transmit_generation sp + 1\<rparr>
           in begin_handshake c rnd now wall sp)"

definition flight_timeout :: "session_protocol \<Rightarrow> session_protocol" where
  "flight_timeout sp =
     (let sp = count (\<lambda>c. c\<lparr>handshake_timeouts := handshake_timeouts c + 1\<rparr>) sp;
          sp = (if sp_waiting_ack sp
                then (retire (sp_active sp) sp)
                       \<lparr>sp_active := sp_previous sp, sp_previous := None,
                        sp_transmit_generation := sp_transmit_generation sp + 1\<rparr>
                else sp)
      in sp\<lparr>sp_waiting_ack := False, sp_flight := [], sp_client_init := [],
            sp_client_secret := replicate 32 0\<rparr>)"

text \<open>
  The condition under which an idle client starts a new handshake; the last disjunct
  reads the active session, which exists because \<open>ready\<close> holds there.
\<close>

definition must_begin :: "time \<Rightarrow> session_protocol \<Rightarrow> bool" where
  "must_begin now sp \<longleftrightarrow>
     sp_begin_retry sp \<or> \<not> ready sp \<or> now - sp_last_received sp \<ge> idle_restart \<or>
     (sp_pfs sp \<and> (case sp_active sp of None \<Rightarrow> False | Some s \<Rightarrow> now - s_created s \<ge> rekey_interval))"

definition tick :: "crypto \<Rightarrow> randoms \<Rightarrow> time \<Rightarrow> int \<Rightarrow> session_protocol \<Rightarrow> bytes \<times> session_protocol" where
  "tick c rnd now wall sp =
     (let sp = expire_pending now (expire_previous now sp)
      in if sp_server sp then ([], sp)
         else if sp_flight sp \<noteq> [] then
           (if now - sp_flight_started sp \<ge> pending_lifetime then begin_handshake c rnd now wall (flight_timeout sp)
            else if now - sp_last_retry sp \<ge> retry_interval
            then (sp_flight sp, (count (\<lambda>c. c\<lparr>handshake_retries := handshake_retries c + 1\<rparr>) sp)
                    \<lparr>sp_last_retry := now\<rparr>)
            else ([], sp))
         else if must_begin now sp then begin_handshake c rnd now wall sp
         else ([], sp))"

subsection \<open>Sending\<close>

text \<open>
  \<open>encode_into\<close> assigns the next counter under the session's hint. It returns nothing when no
  session is ready; an exception of the codec leaves the counter advanced.
\<close>

definition next_wire_sequence :: "session \<Rightarrow> u64" where
  "next_wire_sequence s = (push_bit 48 (ucast (s_hint s)) OR s_next_counter s)"

definition session_encode :: "packet \<Rightarrow> session_protocol \<Rightarrow> bytes option result \<times> session_protocol" where
  "session_encode p sp =
     (case sp_active sp of
        None \<Rightarrow> (Inr None, sp)
      | Some s \<Rightarrow>
          if \<not> ready sp then (Inr None, sp)
          else let p = p\<lparr>pk_sequence := next_wire_sequence s\<rparr>;
                   sp = sp\<lparr>sp_active := Some (s\<lparr>s_next_counter := s_next_counter s + 1\<rparr>)\<rparr>
               in (map_sum id Some (encode_into (s_codec s) p), sp))"

subsection \<open>Receiving an INIT\<close>

fun purge_nonces :: "u64 \<Rightarrow> (u64 \<times> bytes) list \<Rightarrow> bytes list \<Rightarrow> (u64 \<times> bytes) list \<times> bytes list" where
  "purge_nonces current [] seen = ([], seen)"
| "purge_nonces current ((expiry, nonce) # rest) seen =
     (if expiry < current then purge_nonces current rest (removeAll nonce seen)
      else ((expiry, nonce) # rest, seen))"

text \<open>\<open>std::multimap::emplace\<close>: after the entries whose key is not greater.\<close>

definition multimap_emplace :: "u64 \<Rightarrow> bytes \<Rightarrow> (u64 \<times> bytes) list \<Rightarrow> (u64 \<times> bytes) list" where
  "multimap_emplace k v m = takeWhile (\<lambda>(k', v'). k' \<le> k) m @ (k, v) # dropWhile (\<lambda>(k', v'). k' \<le> k) m"

definition clock_distance :: "u64 \<Rightarrow> u64 \<Rightarrow> u64" where
  "clock_distance stamp current = (if stamp > current then stamp - current else current - stamp)"

definition clock_offset :: "u64 \<Rightarrow> u64 \<Rightarrow> int" where
  "clock_offset stamp current =
     (let magnitude = min (uint (clock_distance stamp current)) (2 ^ 63 - 1)
      in if stamp \<ge> current then magnitude else - magnitude)"

definition response_payload :: "crypto \<Rightarrow> session_protocol \<Rightarrow> bytes \<Rightarrow> bytes \<Rightarrow> bytes \<Rightarrow> bytes" where
  "response_payload c sp init nonce secret =
     commitment (sp_master sp) (sp_id sp) init @ nonce @ store_be16 (suite sp) @
     (if sp_pfs sp then store_be16 32 @ dh_public c secret else store_be16 0)"

text \<open>Answering a fresh INIT; \<open>keep\<close> is the state in which its nonce stays reserved.\<close>

definition answer_init ::
  "crypto \<Rightarrow> randoms \<Rightarrow> time \<Rightarrow> packet \<Rightarrow> bytes \<Rightarrow> received \<Rightarrow> session_protocol \<Rightarrow> session_protocol \<Rightarrow>
   received \<times> session_protocol" where
  "answer_init c rnd now p wire res sp keep =
     (case rnd_nonce rnd of
        None \<Rightarrow> (res, random_failed now sp)
      | Some nonce \<Rightarrow>
          let finish = (\<lambda>secret dh.
                let response = (control sp pt_response (pk_message_id p))
                      \<lparr>pk_payload := response_payload c sp wire nonce secret\<rparr>;
                    response_wire = encoded (sp_handshake sp) response;
                    candidate = derive keep wire response_wire (pk_message_id p) dh now;
                    sp = reset_previous keep
                in (res\<lparr>rx_reply := response_wire\<rparr>,
                    started (sp\<lparr>sp_pending := Some candidate, sp_pending_until := now + pending_lifetime,
                                sp_response_resend_after := now\<rparr>)))
          in if sp_pfs sp then
               (case rnd_secret rnd of
                  None \<Rightarrow> (res, random_failed now sp)
                | Some secret \<Rightarrow>
                    (case dh_shared c secret (slice 44 32 (pk_payload p)) of
                       None \<Rightarrow> (res, count (\<lambda>c. c\<lparr>handshake_dh_rejected := handshake_dh_rejected c + 1\<rparr>) keep)
                     | Some dh \<Rightarrow> finish secret dh))
             else finish [] (replicate 32 0))"

definition purge_expired :: "u64 \<Rightarrow> session_protocol \<Rightarrow> session_protocol" where
  "purge_expired current sp =
     (let (expiry, seen) = purge_nonces current (sp_nonce_expiry sp) (sp_seen_nonces sp)
      in sp\<lparr>sp_nonce_expiry := expiry, sp_seen_nonces := seen\<rparr>)"

definition reserve_nonce :: "u64 \<Rightarrow> bytes \<Rightarrow> session_protocol \<Rightarrow> session_protocol" where
  "reserve_nonce expiry nonce sp =
     sp\<lparr>sp_seen_nonces := nonce # sp_seen_nonces sp,
        sp_nonce_expiry := multimap_emplace expiry nonce (sp_nonce_expiry sp)\<rparr>"

text \<open>A nonce seen before: only an exact retry of the pending INIT gets the cached reply.\<close>

definition repeated_init :: "time \<Rightarrow> bytes \<Rightarrow> received \<Rightarrow> session_protocol \<Rightarrow> received \<times> session_protocol" where
  "repeated_init now wire res sp =
     (case sp_pending sp of
        Some s \<Rightarrow>
          if s_init s = wire then
            (if now < sp_response_resend_after sp then (res, sp)
             else (res\<lparr>rx_reply := s_response s\<rparr>,
                   (count (\<lambda>c. c\<lparr>handshake_retries := handshake_retries c + 1\<rparr>) sp)
                     \<lparr>sp_response_resend_after := now + response_resend_interval\<rparr>))
          else (res\<lparr>rx_replay_drop := True\<rparr>, sp)
      | None \<Rightarrow> (res\<lparr>rx_replay_drop := True\<rparr>, sp))"

definition admit_init ::
  "crypto \<Rightarrow> randoms \<Rightarrow> time \<Rightarrow> packet \<Rightarrow> bytes \<Rightarrow> u64 \<Rightarrow> received \<Rightarrow> session_protocol \<Rightarrow> received \<times> session_protocol" where
  "admit_init c rnd now p wire expiry res sp =
     (let nonce = take 32 (pk_payload p)
      in if nonce \<in> set (sp_seen_nonces sp) then repeated_init now wire res sp
         else if length (sp_seen_nonces sp) \<ge> nonce_capacity then (res\<lparr>rx_nonce_capacity := True\<rparr>, sp)
         else if sp_pending sp = None \<and> now < sp_random_retry_after sp then (res, sp)
         else
           let keep = reserve_nonce expiry nonce sp
           in if sp_pending sp \<noteq> None then (res, keep)
              else answer_init c rnd now p wire res sp keep)"

definition clock_result :: "u64 \<Rightarrow> u64 \<Rightarrow> nat \<Rightarrow> received" where
  "clock_result stamp current half =
     (let distance = unat (clock_distance stamp current)
      in received_init\<lparr>rx_control := True, rx_clock_offset := clock_offset stamp current,
           rx_timestamp_rejected := distance > half,
           rx_clock_warning := distance \<ge> (half * 4 + 4) div 5\<rparr>)"

definition receive_init ::
  "crypto \<Rightarrow> randoms \<Rightarrow> time \<Rightarrow> int \<Rightarrow> packet \<Rightarrow> bytes \<Rightarrow> session_protocol \<Rightarrow> received \<times> session_protocol" where
  "receive_init c rnd now wall p wire sp =
     (let sp = sp\<lparr>sp_wall_high_water := max (sp_wall_high_water sp) (max 0 wall)\<rparr>;
          stamp = load_be64 (drop 32 (pk_payload p));
          current = word_of_int (sp_wall_high_water sp);
          half = sp_init_window sp div 2;
          res = clock_result stamp current half
      in if rx_timestamp_rejected res then (res, sp)
         else admit_init c rnd now p wire (stamp + of_nat half) res (purge_expired current sp))"

subsection \<open>Receiving a RESPONSE\<close>

definition receive_response ::
  "crypto \<Rightarrow> time \<Rightarrow> packet \<Rightarrow> bytes \<Rightarrow> session_protocol \<Rightarrow> received \<times> session_protocol" where
  "receive_response c now p wire sp =
     (if sp_client_init sp = [] \<or> pk_message_id p \<noteq> sp_client_exchange sp then (received_init, sp)
      else if \<not> constant_time_equal 32 (commitment (sp_master sp) (sp_id sp) (sp_client_init sp)) (pk_payload p)
      then (received_init, sp)
      else
        let res = received_init\<lparr>rx_control := True\<rparr>
        in if sp_waiting_ack sp then
             (case sp_active sp of
                Some s \<Rightarrow> if s_response s = wire
                  then (res\<lparr>rx_reply := sp_flight sp\<rparr>,
                        count (\<lambda>c. c\<lparr>handshake_retries := handshake_retries c + 1\<rparr>) sp)
                  else (res, sp)
              | None \<Rightarrow> (res, sp))
           else
             case (if sp_pfs sp then dh_shared c (sp_client_secret sp) (slice 68 32 (pk_payload p))
                   else Some (replicate 32 0)) of
               None \<Rightarrow> (res, count (\<lambda>c. c\<lparr>handshake_dh_rejected := handshake_dh_rejected c + 1\<rparr>) sp)
             | Some dh \<Rightarrow>
                 let candidate = derive sp (sp_client_init sp) wire (sp_client_exchange sp) dh now;
                     flight = confirmation sp candidate pt_confirm;
                     sp = promote candidate now (sp\<lparr>sp_client_secret := replicate 32 0\<rparr>)
                 in (res\<lparr>rx_reply := flight\<rparr>,
                     sp\<lparr>sp_waiting_ack := True, sp_flight := flight, sp_flight_started := now,
                        sp_last_retry := now\<rparr>))"

subsection \<open>Receiving in a session\<close>

definition slot_session :: "slot \<Rightarrow> session_protocol \<Rightarrow> session option" where
  "slot_session k sp =
     (case k of Active \<Rightarrow> sp_active sp | Pending \<Rightarrow> sp_pending sp | Previous \<Rightarrow> sp_previous sp)"

definition set_slot :: "slot \<Rightarrow> session \<Rightarrow> session_protocol \<Rightarrow> session_protocol" where
  "set_slot k s sp =
     (case k of Active \<Rightarrow> sp\<lparr>sp_active := Some s\<rparr> | Pending \<Rightarrow> sp\<lparr>sp_pending := Some s\<rparr>
      | Previous \<Rightarrow> sp\<lparr>sp_previous := Some s\<rparr>)"

fun match_session :: "slot list \<Rightarrow> bytes \<Rightarrow> session_protocol \<Rightarrow> (slot \<times> session \<times> packet) option" where
  "match_session [] wire sp = None"
| "match_session (k # ks) wire sp =
     (case slot_session k sp of
        None \<Rightarrow> match_session ks wire sp
      | Some s \<Rightarrow>
          if s_hint s = ucast (drop_bit 48 (load_be64 (drop 1 wire))) then
            (case decode (s_codec s) wire of
               Some p \<Rightarrow> Some (k, s, p)
             | None \<Rightarrow> match_session ks wire sp)
          else match_session ks wire sp)"

definition receive_confirm :: "time \<Rightarrow> slot \<Rightarrow> session \<Rightarrow> packet \<Rightarrow> session_protocol \<Rightarrow> received \<times> session_protocol" where
  "receive_confirm now k s p sp =
     (if \<not> sp_server sp \<or> pk_message_id p \<noteq> s_exchange s then (received_init, sp)
      else
        let res = received_init\<lparr>rx_control := True\<rparr>;
            res = (if k = Pending \<or> k = Active then res\<lparr>rx_reply := confirmation sp s pt_confirm_ack\<rparr> else res)
        in if k = Pending
           then (res\<lparr>rx_activated := True, rx_update_peer := True\<rparr>,
                 completed now ((promote s now sp)\<lparr>sp_pending := None\<rparr>))
           else if k = Active
           then (res, count (\<lambda>c. c\<lparr>handshake_retries := handshake_retries c + 1\<rparr>) sp)
           else (res, sp))"

definition receive_confirm_ack :: "time \<Rightarrow> slot \<Rightarrow> session \<Rightarrow> packet \<Rightarrow> session_protocol \<Rightarrow> received \<times> session_protocol" where
  "receive_confirm_ack now k s p sp =
     (if sp_server sp \<or> k \<noteq> Active \<or> pk_message_id p \<noteq> s_exchange s then (received_init, sp)
      else
        let res = received_init\<lparr>rx_control := True\<rparr>
        in if \<not> sp_waiting_ack sp then (res, sp)
           else (res\<lparr>rx_activated := True\<rparr>,
                 completed now (sp\<lparr>sp_waiting_ack := False, sp_flight := [], sp_client_init := [],
                                  sp_last_received := now\<rparr>)))"

definition metadata_type :: "packet_type \<Rightarrow> bool" where
  "metadata_type t \<longleftrightarrow> t \<in> {pt_info, pt_control, pt_control_challenge, pt_auth_challenge, pt_auth_response,
     pt_auth_ok, pt_auth_failed, pt_relocate, pt_config, pt_relocate_bind, pt_relocate_ok}"

definition receive_data :: "time \<Rightarrow> slot \<Rightarrow> session \<Rightarrow> packet \<Rightarrow> session_protocol \<Rightarrow> received \<times> session_protocol" where
  "receive_data now k s p sp =
     (if k = Pending then (received_init, sp)
      else if metadata_type (pk_type p) \<and> k \<noteq> Active then (received_init, sp)
      else
        let (ok, w) = replay_accept (s_replay s) (pk_sequence p AND counter_mask);
            sp = set_slot k (s\<lparr>s_replay := w\<rparr>) sp
        in if \<not> ok then (received_init\<lparr>rx_replay_drop := True\<rparr>, sp)
           else
             let sp = (if k = Active then sp\<lparr>sp_last_received := now\<rparr> else sp);
                 res = (if k = Active then received_init\<lparr>rx_update_peer := sp_server sp\<rparr> else received_init)
             in (res\<lparr>rx_data := True, rx_session := Some k\<rparr>, sp))"

definition receive_session :: "time \<Rightarrow> bytes \<Rightarrow> session_protocol \<Rightarrow> received \<times> packet option \<times> session_protocol" where
  "receive_session now wire sp =
     (case match_session [Active, Pending, Previous] wire sp of
        None \<Rightarrow> (received_init, None, sp)
      | Some (k, s, p) \<Rightarrow>
          let (res, sp) = (if pk_type p = pt_confirm then receive_confirm now k s p sp
                           else if pk_type p = pt_confirm_ack then receive_confirm_ack now k s p sp
                           else receive_data now k s p sp)
          in (res, Some p, sp))"

definition receive ::
  "crypto \<Rightarrow> randoms \<Rightarrow> bytes \<Rightarrow> time \<Rightarrow> int \<Rightarrow> session_protocol \<Rightarrow> received \<times> packet option \<times> session_protocol" where
  "receive c rnd wire now wall sp =
     (let sp = expire_pending now (expire_previous now sp)
      in if length wire < protocol_header_v5_size then (received_init, None, sp)
         else
           let t = packet_type_of (wire ! 0 AND 0x1f)
           in if \<not> sp_server sp \<and> sp_flight sp \<noteq> [] \<and> now - sp_flight_started sp \<ge> pending_lifetime \<and>
                 (t = Some pt_response \<or> t = Some pt_confirm_ack)
              then (received_init, None, sp)
              else if t = Some pt_init \<or> t = Some pt_response then
                (if sp_server sp \<and> t \<noteq> Some pt_init \<or> \<not> sp_server sp \<and> t \<noteq> Some pt_response
                 then (received_init, None, sp)
                 else case decode (sp_handshake sp) wire of
                   None \<Rightarrow> (received_init, None, sp)
                 | Some p \<Rightarrow>
                     if load_be16 (drop (if t = Some pt_init then 40 else 64) (pk_payload p)) \<noteq> suite sp
                     then (received_init, Some p,
                           count (\<lambda>c. c\<lparr>handshake_suite_mismatch := handshake_suite_mismatch c + 1\<rparr>) sp)
                     else let (res, sp) = (if sp_server sp then receive_init c rnd now wall p wire sp
                                           else receive_response c now p wire sp)
                          in (res, Some p, sp))
              else receive_session now wire sp)"

text \<open>Periodic expiry of partial messages in the active and the previous session.\<close>

definition cleanup_slot :: "slot \<Rightarrow> time \<Rightarrow> session_protocol \<Rightarrow> session_protocol option" where
  "cleanup_slot k now sp =
     (case slot_session k sp of
        None \<Rightarrow> Some sp
      | Some s \<Rightarrow> map_option
          (\<lambda>r. (set_slot k (s\<lparr>s_reassembly := r\<rparr>) sp)\<lparr>sp_metrics := metrics r\<rparr>)
          (cleanup_expired now ((s_reassembly s)\<lparr>metrics := sp_metrics sp\<rparr>)))"

definition cleanup :: "time \<Rightarrow> session_protocol \<Rightarrow> session_protocol option" where
  "cleanup now sp = Option.bind (cleanup_slot Active now sp) (cleanup_slot Previous now)"

end
