(* ===== verification/Protocol_Correct.thy ===== *)
theory Protocol_Correct
  imports Protocol Fragmentation
begin

text \<open>
  Correctness of the datagram format: a receiver accepts exactly the datagrams its peer
  can produce, and reads back the packet that was encoded.
\<close>

subsection \<open>Flags\<close>

lemma flag_byte:
  fixes t :: packet_type and e f :: bool
  defines "b \<equiv> type_code t OR (if e then 0x80 else 0) OR (if f then 0x40 else 0)"
  shows "b AND 0x80 \<noteq> 0 \<longleftrightarrow> e" "b AND 0x40 \<noteq> 0 \<longleftrightarrow> f" "b AND 0x20 = 0" "b AND 0x1f = type_code t"
  unfolding b_def by (cases t; cases e; cases f; simp)+

lemma bit_singleton_8:
  fixes b :: u8
  shows "b AND 0x80 \<noteq> 0 \<longleftrightarrow> bit b 7" "b AND 0x40 \<noteq> 0 \<longleftrightarrow> bit b 6" "b AND 0x20 \<noteq> 0 \<longleftrightarrow> bit b 5"
proof -
  have pow: "(0x80 :: u8) = 2 ^ 7" "(0x40 :: u8) = 2 ^ 6" "(0x20 :: u8) = 2 ^ 5"
    by simp_all
  have *: "b AND 2 ^ n \<noteq> 0 \<longleftrightarrow> bit b n" for n
    by (simp add: and_exp_eq_0_iff_not_bit)
  show "b AND 0x80 \<noteq> 0 \<longleftrightarrow> bit b 7" "b AND 0x40 \<noteq> 0 \<longleftrightarrow> bit b 6" "b AND 0x20 \<noteq> 0 \<longleftrightarrow> bit b 5"
    unfolding pow by (rule *)+
qed

lemma flag_byte_split:
  fixes b :: u8
  assumes "b AND 0x20 = 0"
  shows "(b AND 0x1f) OR (if b AND 0x80 \<noteq> 0 then 0x80 else 0) OR (if b AND 0x40 \<noteq> 0 then 0x40 else 0) = b"
proof (rule bit_eqI)
  fix m
  assume "possible_bit TYPE(u8) m"
  then have "m < 8" by simp
  then have "m = 0 \<or> m = 1 \<or> m = 2 \<or> m = 3 \<or> m = 4 \<or> m = 5 \<or> m = 6 \<or> m = 7"
    by linarith
  moreover have "\<not> bit b 5"
    using assms bit_singleton_8(3) [of b] by blast
  ultimately show "bit ((b AND 0x1f) OR (if b AND 0x80 \<noteq> 0 then 0x80 else 0) OR (if b AND 0x40 \<noteq> 0 then 0x40 else 0)) m = bit b m"
    unfolding bit_singleton_8 by (auto simp: bit_or_iff bit_and_iff bit_numeral_rec)
qed

subsection \<open>Metadata\<close>

lemma metadata_size_ge: "9 \<le> metadata_size t f"
  by (cases t) simp_all

lemma length_encode_metadata [simp]:
  "length (encode_metadata e p) = metadata_size (pk_type p) (fragmented p)"
  by (cases "pk_type p") (auto simp: encode_metadata_def Let_def handshake_type_def fragmented_def)

lemma encode_metadata_prefix:
  "encode_metadata e p ! 0 = type_code (pk_type p) OR (if e then 0x80 else 0) OR (if fragmented p then 0x40 else 0)"
  "load_be64 (drop 1 (encode_metadata e p @ rest)) = pk_sequence p"
  by (simp_all add: encode_metadata_def Let_def)

subsection \<open>Sealing\<close>

text \<open>Two ends of one direction: the receiver holds the sender's transmit keys.\<close>

definition peers :: "protocol_v5 \<Rightarrow> protocol_v5 \<Rightarrow> bool" where
  "peers s r \<longleftrightarrow> pv_tunnel_id s = pv_tunnel_id r \<and> pv_encrypt s = pv_encrypt r \<and>
     pv_tx_key s = pv_rx_key r \<and> pv_tx_aead s = pv_rx_aead r"

lemma split_datagram:
  assumes "meta + 16 \<le> length data"
  shows "data = take meta data @ slice meta 16 data @ drop (meta + 16) data"
  using assms by (metis append_take_drop_id drop_drop slice_def add.commute)

lemma seal_eq_iff:
  assumes "meta + 16 \<le> length data" "length tag = 16"
  shows "take meta data @ tag @ body = data \<longleftrightarrow> tag = slice meta 16 data \<and> body = drop (meta + 16) data"
proof -
  have "take meta data @ tag @ body = data \<longleftrightarrow>
      take meta data @ tag @ body = take meta data @ slice meta 16 data @ drop (meta + 16) data"
    using split_datagram [OF assms(1)] by simp
  also have "\<dots> \<longleftrightarrow> tag = slice meta 16 data \<and> body = drop (meta + 16) data"
    using assms by (simp add: append_eq_append_conv)
  finally show ?thesis .
qed

lemma unseal_iff:
  assumes "peers s r" "meta + 16 \<le> length data" "9 \<le> meta"
  shows "unseal r meta data = Some body \<longleftrightarrow> seal s (load_be64 (drop 1 data)) (take meta data) body = data"
proof -
  have tag: "length (slice meta 16 data) = 16"
    using assms(2) by simp
  have "store_be64 (load_be64 (slice 1 8 data)) = slice 1 8 data"
    using assms(2,3) by (intro store_load_be64) simp
  moreover have "load_be64 (slice 1 8 data) = load_be64 (drop 1 data)"
    by (simp add: load_be64_def slice_def)
  ultimately have nonce: "store_be64 (load_be64 (drop 1 data)) = slice 1 8 data"
    by simp
  show ?thesis
  proof (cases "pv_encrypt r")
    case True
    let ?n = "replicate 8 0 @ slice 1 8 data"
    obtain c t where enc: "aead_encrypt (pv_rx_aead r) ?n (take meta data) body = (c, t)"
      by force
    have len: "length t = 16"
      using enc by (simp add: aead_encrypt_def crypt_length)
    have "unseal r meta data = Some body \<longleftrightarrow>
        aead_decrypt (pv_rx_aead r) ?n (take meta data) (drop (meta + 16) data) (slice meta 16 data) = (True, body)"
      using True by (auto simp: unseal_def Let_def split: prod.splits)
    also have "\<dots> \<longleftrightarrow> t = slice meta 16 data \<and> c = drop (meta + 16) data"
      using aead_open_iff [OF tag] enc by auto
    also have "\<dots> \<longleftrightarrow> seal s (load_be64 (drop 1 data)) (take meta data) body = data"
      using True assms(1) enc len seal_eq_iff [OF assms(2), of t c] by (simp add: seal_def peers_def nonce [unfolded One_nat_def])
    finally show ?thesis .
  next
    case False
    let ?tag = "\<lambda>b. mac (pv_rx_key r) (pv_tunnel_id r) (take meta data @ b)"
    have "unseal r meta data = Some body \<longleftrightarrow>
        slice meta 16 data = ?tag (drop (meta + 16) data) \<and> body = drop (meta + 16) data"
      using False tag constant_time_equal_iff [of 16 "slice meta 16 data" "?tag (drop (meta + 16) data)"]
      by (auto simp: unseal_def Let_def)
    also have "\<dots> \<longleftrightarrow> seal s (load_be64 (drop 1 data)) (take meta data) body = data"
      using False assms(1) seal_eq_iff [OF assms(2), of "?tag body" body] by (auto simp: seal_def peers_def)
    finally show ?thesis .
  qed
qed

lemma length_seal: "length (seal v seq metadata body) = length metadata + 16 + length body"
  by (auto simp: seal_def aead_encrypt_def Let_def dest: crypt_length split: prod.splits)

lemma take_seal: "take (length metadata) (seal v seq metadata body) = metadata"
  by (simp add: seal_def Let_def split: prod.splits)

subsection \<open>Fields\<close>

text \<open>
  The packets that have a wire image of their own: valid, with the message id of a whole
  datagram equal to its sequence, and with the fields that the type does not transmit zero.
\<close>

definition canonical :: "packet \<Rightarrow> bool" where
  "canonical p \<longleftrightarrow> valid_packet p \<and>
     (metadata_size (pk_type p) (fragmented p) = 9 \<longrightarrow>
        (if pk_type p = pt_data \<or> pk_type p = pt_ipc then pk_message_id p = pk_sequence p
         else pk_message_id p = 0 \<and> pk_fragment_offset p = 0 \<and> pk_original_length p = 0))"

lemma ucast_16_32: "unat (x :: u32) \<le> 65535 \<Longrightarrow> ucast (ucast x :: u16) = x"
  by (rule unsigned_word_eqI [where ?'a = nat])
     (simp add: unsigned_ucast_eq unsigned_take_bit_eq take_bit_nat_eq_self)

lemma ucast_32_16 [simp]: "ucast (ucast (x :: u16) :: u32) = x"
  by (rule bit_word_eqI) (simp add: bit_simps)

lemma ucast_16_bound: "unat (ucast (x :: u16) :: u32) \<le> 65535"
  using unsigned_less [of x, where ?'a = nat]
  by (simp add: unsigned_ucast_eq take_bit_nat_eq_self)

lemma canonical_unsent:
  assumes "canonical p" "pk_type p \<noteq> pt_data" "pk_type p \<noteq> pt_ipc"
  shows "pk_fragment_offset p = 0"
    and "pk_type p \<noteq> pt_mtu_probe \<Longrightarrow> pk_type p \<noteq> pt_mtu_reply \<Longrightarrow> pk_original_length p = 0"
    and "metadata_size (pk_type p) False = 9 \<Longrightarrow> pk_message_id p = 0"
proof -
  have nf: "\<not> fragmented p"
    using assms(2,3) by (simp add: fragmented_def)
  have valid: "valid_packet p"
    using assms(1) by (simp add: canonical_def)
  have nine: "metadata_size (pk_type p) False = 9 \<Longrightarrow>
      pk_message_id p = 0 \<and> pk_fragment_offset p = 0 \<and> pk_original_length p = 0"
    using assms nf by (simp add: canonical_def)
  then show "metadata_size (pk_type p) False = 9 \<Longrightarrow> pk_message_id p = 0"
    by simp
  show "pk_fragment_offset p = 0"
    using assms(2,3) valid nine by (cases "pk_type p") (simp_all add: valid_packet_def Let_def handshake_type_def)
  show "pk_type p \<noteq> pt_mtu_probe \<Longrightarrow> pk_type p \<noteq> pt_mtu_reply \<Longrightarrow> pk_original_length p = 0"
    using assms(2,3) valid nine
    by (cases "pk_type p") (simp_all add: valid_packet_def Let_def handshake_type_def unat_eq_0)
qed

lemma whole_length:
  assumes "\<not> fragmented p" "pk_type p = pt_data \<or> pk_type p = pt_ipc"
  shows "pk_fragment_offset p = 0" "of_nat (length (pk_payload p)) = pk_original_length p"
proof -
  have len: "length (pk_payload p) = unat (pk_original_length p)"
    using assms by (auto simp: fragmented_def)
  show "pk_fragment_offset p = 0"
    using assms by (auto simp: fragmented_def)
  show "of_nat (length (pk_payload p)) = pk_original_length p"
    unfolding len by simp
qed

lemma decode_fields_fragment:
  assumes "fragmented p" "unat (pk_fragment_offset p) \<le> packet_limit (pk_type p)"
    "unat (pk_original_length p) \<le> packet_limit (pk_type p)"
  shows "decode_fields (pk_type p) True (encode_metadata e p @ rest) (pk_payload p)
    = Some (pk_message_id p, pk_fragment_offset p, pk_original_length p)"
proof -
  have t: "pk_type p = pt_data \<or> pk_type p = pt_ipc"
    and frag: "\<not> (pk_fragment_offset p = 0 \<and> unat (pk_original_length p) = length (pk_payload p))"
    using assms(1) by (auto simp: fragmented_def)
  from t show ?thesis
  proof
    assume t: "pk_type p = pt_data"
    then have "ucast (ucast (pk_fragment_offset p) :: u16) = pk_fragment_offset p"
      "ucast (ucast (pk_original_length p) :: u16) = pk_original_length p"
      using assms(2,3) by (simp_all add: ucast_16_32 packet_limit_def max_ip_packet_size_def)
    with t assms(1,3) frag show ?thesis
      by (simp add: decode_fields_def encode_metadata_def handshake_type_def Let_def)
  next
    assume t: "pk_type p = pt_ipc"
    with assms(1,3) frag show ?thesis
      by (simp add: decode_fields_def encode_metadata_def handshake_type_def Let_def)
  qed
qed

lemma decode_fields_whole:
  assumes "canonical p" "\<not> fragmented p" "unat (pk_original_length p) \<le> packet_limit (pk_type p)"
  shows "decode_fields (pk_type p) False (encode_metadata e p @ rest) (pk_payload p)
    = Some (pk_message_id p, pk_fragment_offset p, pk_original_length p)"
proof (cases "pk_type p = pt_data \<or> pk_type p = pt_ipc")
  case True
  then have "pk_message_id p = pk_sequence p"
    using assms(1,2) by (auto simp: canonical_def)
  with True assms(2) whole_length [OF assms(2) True] show ?thesis
    by (auto simp: decode_fields_def encode_metadata_def handshake_type_def)
next
  case False
  note unsent = canonical_unsent [OF assms(1)]
  have "ucast (ucast (pk_original_length p) :: u16) = pk_original_length p" if "metadata_size (pk_type p) False = 19"
    using that assms(3) by (cases "pk_type p") (simp_all add: ucast_16_32 packet_limit_def max_ip_packet_size_def)
  then show ?thesis
    using False assms(2) unsent
    by (cases "pk_type p") (simp_all add: decode_fields_def encode_metadata_def handshake_type_def)
qed

lemma decode_fields_encode:
  assumes "canonical p" "unat (pk_fragment_offset p) \<le> packet_limit (pk_type p)"
    "unat (pk_original_length p) \<le> packet_limit (pk_type p)"
  shows "decode_fields (pk_type p) (fragmented p) (encode_metadata e p @ rest) (pk_payload p)
    = Some (pk_message_id p, pk_fragment_offset p, pk_original_length p)"
  using decode_fields_fragment [OF _ assms(2,3)] decode_fields_whole [OF assms(1) _ assms(3)]
  by (cases "fragmented p") simp_all

subsection \<open>Decoded packets encode to the datagram they came from\<close>

lemma decode_fields_bounds:
  assumes "decode_fields t fragment data body = Some (msg, offset, len)"
    and "fragment \<longrightarrow> t = pt_data \<or> t = pt_ipc" "length body \<le> packet_limit t"
    and p: "pk_type p = t" "pk_fragment_offset p = offset" "pk_original_length p = len" "pk_payload p = body"
  shows "fragmented p = fragment" "unat len \<le> packet_limit t"
proof -
  have small: "unat (of_nat (length body) :: u32) = length body"
    using assms(3) by (simp add: unat_of_nat take_bit_nat_eq_self packet_limit_def protocol_constants split: if_splits)
  have "fragmented p = fragment \<and> unat len \<le> packet_limit t"
  proof (cases fragment)
    case True
    then have t: "t = pt_data \<or> t = pt_ipc"
      using assms(2) by simp
    with True assms(1) p show ?thesis
      by (auto simp: decode_fields_def handshake_type_def fragmented_def Let_def split: if_splits)
  next
    case whole: False
    show ?thesis
    proof (cases "t = pt_data \<or> t = pt_ipc")
      case True
      with whole assms(1,3) p small show ?thesis
        by (auto simp: decode_fields_def handshake_type_def fragmented_def)
    next
      case False
      then have "\<not> fragmented p"
        using p by (simp add: fragmented_def)
      moreover have "unat len \<le> 65535"
        using whole False assms(1) ucast_16_bound
        by (auto simp: decode_fields_def Let_def split: if_splits)
      ultimately show ?thesis
        using whole False by (simp add: packet_limit_def protocol_constants)
    qed
  qed
  then show "fragmented p = fragment" "unat len \<le> packet_limit t"
    by simp_all
qed

lemma encode_metadata_decode:
  assumes fields: "decode_fields t fragment data body = Some (msg, offset, len)"
    and len: "metadata_size t fragment + 16 \<le> length data"
    and flags: "data ! 0 = type_code t OR (if e then 0x80 else 0) OR (if fragment then 0x40 else 0)"
    and kind: "fragment \<longrightarrow> t = pt_data \<or> t = pt_ipc" "handshake_type t \<longrightarrow> data ! 9 = protocol_version_v5"
    and p: "pk_type p = t" "pk_sequence p = load_be64 (drop 1 data)" "pk_message_id p = msg"
      "pk_fragment_offset p = offset" "pk_original_length p = len"
    and frag: "fragmented p = fragment"
  shows "encode_metadata e p = take (metadata_size t fragment) data"
proof -
  have ne: "data \<noteq> []" "9 \<le> length data"
    using len metadata_size_ge [of t fragment] by auto
  have nine: "take 9 data = [data ! 0] @ store_be64 (load_be64 (drop 1 data))"
    using take_split [of 1 8 data] take_1 [OF ne(1)] stored_slices(1) [of 1 data] ne(2) by simp
  have byte: "slice 9 1 data = [data ! 9]" if "10 \<le> length data"
    using that by (simp add: slice_def take_Suc_conv_app_nth)
  have m17: "take 17 data = take 9 data @ slice 9 8 data" and m18: "take 18 data = take 9 data @ slice 9 1 data @ slice 10 8 data"
    and m19: "take 19 data = take 17 data @ slice 17 2 data" and m21: "take 21 data = take 17 data @ slice 17 2 data @ slice 19 2 data"
    and m25: "take 25 data = take 17 data @ slice 17 4 data @ slice 21 4 data"
    using take_split [of 9 8 data] take_split [of 9 1 data] take_split [of 10 8 data] take_split [of 17 2 data]
      take_split [of 19 2 data] take_split [of 17 4 data] take_split [of 21 4 data] by simp_all
  note slices = nine m17 m18 m19 m21 m25
  show ?thesis
  proof (cases fragment)
    case True
    then have t: "t = pt_data \<or> t = pt_ipc"
      using kind(1) by simp
    then have "pk_message_id p = load_be64 (drop 9 data)"
      "pk_fragment_offset p = (if t = pt_ipc then load_be32 (drop 17 data) else ucast (load_be16 (drop 17 data)))"
      "pk_original_length p = (if t = pt_ipc then load_be32 (drop 21 data) else ucast (load_be16 (drop 19 data)))"
      using True fields p
      by (auto simp: decode_fields_def handshake_type_def Let_def split: if_splits)
    with t True len frag p(1,2) flags show ?thesis
      by (elim disjE) (simp_all add: encode_metadata_def handshake_type_def slices stored_slices)
  next
    case False
    then have "handshake_type t \<Longrightarrow> pk_message_id p = load_be64 (drop 10 data)"
      "\<not> handshake_type t \<Longrightarrow> metadata_size t False > 9 \<Longrightarrow> pk_message_id p = load_be64 (drop 9 data)"
      "metadata_size t False = 19 \<Longrightarrow> pk_original_length p = ucast (load_be16 (drop 17 data))"
      using fields p by (auto simp: decode_fields_def handshake_type_def Let_def split: if_splits)
    with False len frag p(1,2) flags kind(2) byte show ?thesis
      by (cases t) (simp_all add: encode_metadata_def handshake_type_def slices stored_slices)
  qed
qed

lemma decode_Some:
  assumes "decode r data = Some p" "fragment = (data ! 0 AND 0x40 \<noteq> 0)" "meta = metadata_size (pk_type p) fragment"
  shows "(data ! 0 AND 0x80 \<noteq> 0) = pv_encrypt r" "data ! 0 AND 0x20 = 0"
    "packet_type_of (data ! 0 AND 0x1f) = Some (pk_type p)"
    "fragment \<longrightarrow> pk_type p = pt_data \<or> pk_type p = pt_ipc" "meta + 16 \<le> length data"
    "length data - (meta + 16) \<le> packet_limit (pk_type p)"
    "handshake_type (pk_type p) \<longrightarrow> \<not> pv_encrypt r \<and> data ! 9 = protocol_version_v5"
    "unseal r meta data = Some (pk_payload p)"
    "decode_fields (pk_type p) fragment data (pk_payload p) =
       Some (pk_message_id p, pk_fragment_offset p, pk_original_length p)"
    "pk_sequence p = load_be64 (drop 1 data)" "pk_tunnel_id p = pv_tunnel_id r"
    "pk_protocol_version p = protocol_version_v5" "valid_packet p"
  using assms by (auto simp: decode_def Let_def not_less split: if_splits option.splits prod.splits)

lemma decode_encode:
  assumes peers: "peers s r" and dec: "decode r data = Some p"
  shows "encode_into s p = Inr data" "canonical p"
proof -
  define t where "t = pk_type p"
  define fragment where "fragment = (data ! 0 AND 0x40 \<noteq> 0)"
  define meta where "meta = metadata_size t fragment"
  note d = decode_Some [OF dec fragment_def meta_def [unfolded t_def], folded t_def]
  have flags: "data ! 0 = type_code t OR (if pv_encrypt r then 0x80 else 0) OR (if fragment then 0x40 else 0)"
    using flag_byte_split [OF d(2)] type_code_of [OF d(3)] d(1) by (simp add: fragment_def)
  have ge: "9 \<le> meta"
    unfolding meta_def by (rule metadata_size_ge)
  have sealed: "seal s (pk_sequence p) (take meta data) (pk_payload p) = data"
    using iffD1 [OF unseal_iff [OF peers d(5) ge] d(8)] d(10) by simp
  have body: "length (pk_payload p) \<le> packet_limit t"
    using length_seal [of s "pk_sequence p" "take meta data" "pk_payload p"] sealed d(5,6) by simp
  note bounds = decode_fields_bounds [OF d(9,4) body t_def [symmetric] refl refl refl]
  have meta: "encode_metadata (pv_encrypt r) p = take meta data"
    unfolding meta_def
    using encode_metadata_decode [OF d(9) _ flags d(4) _ t_def [symmetric] d(10) refl refl refl bounds(1)] d(5,7)
    by (simp add: meta_def)
  have offset: "unat (pk_fragment_offset p) \<le> packet_limit t"
  proof (cases fragment)
    case True
    then have "unat (pk_fragment_offset p) \<le> unat (pk_original_length p)"
      using d(4,13) by (auto simp: valid_packet_def handshake_type_def Let_def t_def)
    with bounds(2) show ?thesis by linarith
  next
    case False
    then have "pk_fragment_offset p = 0"
      using d(9) by (auto simp: decode_fields_def Let_def split: if_splits)
    then show ?thesis by simp
  qed
  have enc: "pv_encrypt s = pv_encrypt r"
    using peers by (simp add: peers_def)
  show "encode_into s p = Inr data"
    using bounds body offset meta sealed d(7) enc ge
    by (auto simp: encode_into_def Let_def t_def [symmetric] meta_def [symmetric])
  show "canonical p"
    unfolding canonical_def
  proof (intro conjI impI)
    show "valid_packet p"
      by (rule d(13))
    assume "metadata_size (pk_type p) (fragmented p) = 9"
    then have "metadata_size t fragment = 9"
      using bounds(1) by (simp add: t_def)
    then have "\<not> handshake_type t"
      by (auto simp: handshake_type_def)
    with d(9,10) \<open>metadata_size t fragment = 9\<close>
    show "if pk_type p = pt_data \<or> pk_type p = pt_ipc then pk_message_id p = pk_sequence p
      else pk_message_id p = 0 \<and> pk_fragment_offset p = 0 \<and> pk_original_length p = 0"
      by (auto simp: decode_fields_def t_def)
  qed
qed

lemma encode_decode:
  assumes peers: "peers s r" and enc: "encode_into s p = Inr data" and can: "canonical p"
    and hdr: "pk_tunnel_id p = pv_tunnel_id r" "pk_protocol_version p = protocol_version_v5"
  shows "decode r data = Some p"
proof -
  let ?t = "pk_type p" and ?f = "fragmented p"
  let ?meta = "metadata_size ?t ?f" and ?m = "encode_metadata (pv_encrypt s) p"
  have e: "pv_encrypt s = pv_encrypt r"
    using peers by (simp add: peers_def)
  have ok: "unat (pk_fragment_offset p) \<le> packet_limit ?t" "unat (pk_original_length p) \<le> packet_limit ?t"
      "length (pk_payload p) \<le> packet_limit ?t" "handshake_type ?t \<longrightarrow> \<not> pv_encrypt r"
    and data: "data = seal s (pk_sequence p) ?m (pk_payload p)"
    using enc e by (auto simp: encode_into_def Let_def split: if_splits)
  have len: "length data = ?meta + 16 + length (pk_payload p)"
    by (simp add: data length_seal)
  have meta: "take ?meta data = ?m"
    using take_seal [of ?m] by (simp add: data)
  then obtain rest where rest: "data = ?m @ rest"
    by (metis append_take_drop_id)
  have seq: "load_be64 (drop 1 data) = pk_sequence p"
    unfolding rest by (rule encode_metadata_prefix(2))
  have b: "data ! 0 = type_code ?t OR (if pv_encrypt s then 0x80 else 0) OR (if ?f then 0x40 else 0)"
    using encode_metadata_prefix(1) [of "pv_encrypt s" p] metadata_size_ge [of ?t ?f]
    by (simp add: rest nth_append)
  have nine: "handshake_type ?t \<Longrightarrow> data ! 9 = protocol_version_v5"
    by (auto simp: rest encode_metadata_def Let_def handshake_type_def nth_append)
  have "unseal r ?meta data = Some (pk_payload p)"
    using unseal_iff [OF peers _ metadata_size_ge, of ?t ?f data "pk_payload p"] len meta seq data by simp
  moreover have "decode_fields ?t ?f data (pk_payload p) =
      Some (pk_message_id p, pk_fragment_offset p, pk_original_length p)"
    unfolding rest by (rule decode_fields_encode [OF can ok(1,2)])
  moreover have "valid_packet p" "?f \<longrightarrow> ?t = pt_data \<or> ?t = pt_ipc"
    using can by (auto simp: canonical_def fragmented_def)
  moreover have "\<lparr>pk_type = ?t, pk_tunnel_id = pv_tunnel_id r, pk_protocol_version = protocol_version_v5,
      pk_sequence = pk_sequence p, pk_message_id = pk_message_id p, pk_fragment_offset = pk_fragment_offset p,
      pk_original_length = pk_original_length p, pk_payload = pk_payload p\<rparr> = p"
    using hdr by (cases p) simp
  ultimately show ?thesis
    using len metadata_size_ge [of ?t ?f] nine ok e seq flag_byte [of ?t "pv_encrypt s" ?f]
    by (simp add: decode_def Let_def b protocol_header_v5_size_def)
qed

text \<open>
  C8. The datagram codec is exact and canonical: a receiver decodes a datagram to a packet if
  and only if its peer encodes that packet to exactly these bytes and the packet is valid
  in the form it is transmitted. So every encoded packet is read back unchanged, every
  accepted datagram was sealed under the shared key, and no packet has two encodings.
\<close>

theorem decode_iff_encode:
  assumes "peers s r" "pk_tunnel_id p = pv_tunnel_id r" "pk_protocol_version p = protocol_version_v5"
  shows "decode r data = Some p \<longleftrightarrow> encode_into s p = Inr data \<and> canonical p"
  using assms decode_encode encode_decode by blast

text \<open>The two ends of a handshake share the direction keys of the master key.\<close>

lemma master_peers: "peers (ProtocolV5_master tunnel key m) (ProtocolV5_master tunnel key (\<not> m))"
  by (simp add: peers_def ProtocolV5_master_def Let_def)

lemma session_peers: "peers (ProtocolV5 tunnel a b e) (ProtocolV5 tunnel c a e)"
  by (simp add: peers_def ProtocolV5_def)

theorem decode_iff_encode_witness:
  "\<exists>data. encode_into (ProtocolV5_master 7 (replicate 16 1) False)
      \<lparr>pk_type = pt_ping, pk_tunnel_id = 7, pk_protocol_version = 5, pk_sequence = 9, pk_message_id = 3,
       pk_fragment_offset = 0, pk_original_length = 0, pk_payload = []\<rparr> = Inr data \<and>
    decode (ProtocolV5_master 7 (replicate 16 1) True) data = Some
      \<lparr>pk_type = pt_ping, pk_tunnel_id = 7, pk_protocol_version = 5, pk_sequence = 9, pk_message_id = 3,
       pk_fragment_offset = 0, pk_original_length = 0, pk_payload = []\<rparr>"
proof -
  let ?p = "\<lparr>pk_type = pt_ping, pk_tunnel_id = 7, pk_protocol_version = 5, pk_sequence = 9, pk_message_id = 3,
       pk_fragment_offset = 0, pk_original_length = 0, pk_payload = []\<rparr>"
  let ?s = "ProtocolV5_master 7 (replicate 16 1) False" and ?r = "ProtocolV5_master 7 (replicate 16 1) True"
  have peers: "peers ?s ?r"
    using master_peers [of 7 "replicate 16 1" False] by simp
  obtain data where enc: "encode_into ?s ?p = Inr data"
    by (simp add: encode_into_def Let_def packet_limit_def protocol_constants handshake_type_def)
  have "canonical ?p"
    by (simp add: canonical_def valid_packet_def Let_def handshake_type_def)
  then have "decode ?r data = Some ?p"
    using decode_iff_encode [OF peers, of ?p data] enc
    by (simp add: ProtocolV5_master_def Let_def protocol_version_v5_def)
  with enc show ?thesis by blast
qed

subsection \<open>Datagrams fit the path\<close>

lemma length_encode_into:
  "encode_into v p = Inr data \<Longrightarrow> length data = header_size p + length (pk_payload p)"
  by (auto simp: encode_into_def header_size_def length_seal Let_def split: if_splits)

text \<open>
  C19. Every datagram of a packet that \<open>send_data\<close> splits fits the transport MTU: the outer IP
  header, the UDP header and the encoded datagram together, for whole packets and for
  fragments, for tunnelled packets and, in relay mode, for relayed ones.
\<close>

theorem datagram_fits_mtu:
  assumes "maximum_fragment_payload outer relay_mode mtu = Inr maximum"
    and "send_fragments t tunnel msg maximum limit logical = Inr frags" "length logical < 2 ^ 32"
    and "t = pt_data \<or> t = pt_ipc \<and> relay_mode" "f \<in> set frags"
    and "encode_into v (f\<lparr>pk_sequence := seq\<rparr>) = Inr data"
  shows "outer + udp_header_size + length data \<le> mtu"
proof -
  obtain plan where plan:
    "make_fragment_plan (length logical) (send_size_limit t maximum (length logical)) limit = Inr plan"
    and frags: "frags = map (plan_fragment t tunnel msg logical plan) [0..<plan_count plan]"
    by (rule send_fragments_ok [OF assms(2)])
  obtain i where i: "i < plan_count plan" "f = plan_fragment t tunnel msg logical plan i"
    using assms(5) frags by auto
  note b = fragment_start_bound [OF plan i(1)]
  have fields: "pk_type f = t" "length (pk_payload f) = fragment_size plan i"
    "unat (pk_original_length f) = length logical" "unat (pk_fragment_offset f) = fragment_start plan i"
    using b assms(3) by (simp_all add: i(2) plan_fragment_def unat_of_nat take_bit_nat_eq_self)
  have size: "fragment_size plan i \<le> send_size_limit t maximum (length logical)"
    by (rule make_fragment_plan_sizes(4) [OF plan])
  have whole: "\<not> fragmented f" if "length logical \<le> send_size_limit t maximum (length logical)"
  proof -
    have "(plan_count plan - 1) * send_size_limit t maximum (length logical)
        < 1 * send_size_limit t maximum (length logical)"
      using make_fragment_plan_sizes(5) [OF plan] that by linarith
    then have "plan_count plan \<le> 1"
      unfolding mult_less_cancel2 by simp
    then have one: "plan_count plan = 1" "i = 0"
      using i(1) by simp_all
    then have "fragment_size plan 0 = length logical"
      using make_fragment_plan_sizes(2) [OF plan] by simp
    then show ?thesis
      using fields one by (simp add: fragmented_def unat_eq_0)
  qed
  have "length data = metadata_size t (fragmented f) + 16 + fragment_size plan i"
    using length_encode_into [OF assms(6)] fields by (simp add: header_size_def fragmented_def)
  then show ?thesis
    using assms(1,4) size whole
    by (auto simp: maximum_fragment_payload_def Let_def send_size_limit_def protocol_constants split: if_splits)
qed

theorem datagram_fits_mtu_witness:
  "\<exists>data. encode_into (ProtocolV5_master 7 (replicate 16 1) False)
      \<lparr>pk_type = pt_data, pk_tunnel_id = 7, pk_protocol_version = 5, pk_sequence = 4, pk_message_id = 99,
       pk_fragment_offset = 0, pk_original_length = 22, pk_payload = replicate 8 1\<rparr> = Inr data \<and>
    20 + udp_header_size + length data \<le> 73"
proof -
  let ?f = "\<lparr>pk_type = pt_data, pk_tunnel_id = 7, pk_protocol_version = 5, pk_sequence = 4, pk_message_id = 99,
       pk_fragment_offset = 0, pk_original_length = 22, pk_payload = replicate 8 1\<rparr>"
  let ?frags = "projr (send_fragments pt_data 7 99 8 64 (replicate 22 1))"
  obtain data where enc: "encode_into (ProtocolV5_master 7 (replicate 16 1) False) ?f = Inr data"
    by (simp add: encode_into_def Let_def packet_limit_def protocol_constants handshake_type_def)
  have "maximum_fragment_payload 20 False 73 = Inr 8"
    by (simp add: maximum_fragment_payload_def protocol_constants)
  moreover have "send_fragments pt_data 7 99 8 64 (replicate 22 1) = Inr ?frags"
    by (simp add: send_fragments_def make_fragment_plan_def send_size_limit_def Let_def)
  moreover have "?f\<lparr>pk_sequence := 0\<rparr> \<in> set ?frags"
    by code_simp
  ultimately have "20 + udp_header_size + length data \<le> 73"
    using datagram_fits_mtu [of 20 False 73 8 pt_data 7 99 64 "replicate 22 1" ?frags "?f\<lparr>pk_sequence := 0\<rparr>" _ 4 data] enc
    by simp
  with enc show ?thesis by blast
qed

end
