(* ===== verification/Session_Correct.thy ===== *)
theory Session_Correct
  imports Session Protocol_Correct
begin

text \<open>
  What the session layer guarantees: a complete handshake leaves both ends with the two
  halves of one session, transmit sequences never repeat while the keys stay, no INIT is
  answered twice, and only authentic, fresh packets of confirmed sessions are delivered.
\<close>

subsection \<open>Configuration\<close>

text \<open>The fields that are set once, by the constructor.\<close>

definition config :: "session_protocol \<Rightarrow> u16 \<times> bytes \<times> bool \<times> bool \<times> bool \<times> protocol_v5 \<times> nat" where
  "config sp = (sp_id sp, sp_master sp, sp_server sp, sp_encrypt sp, sp_pfs sp, sp_handshake sp, sp_init_window sp)"

named_theorems session_defs \<open>definitions of the small state changes of the session layer\<close>

lemmas [session_defs] = count_def started_def completed_def retire_def reset_active_def reset_previous_def
  reset_pending_def expire_previous_def expire_pending_def random_failed_def promote_def Let_def

lemma config_ops [simp]:
  "config (count f sp) = config sp" "config (started sp) = config sp" "config (completed now sp) = config sp"
  "config (retire s sp) = config sp" "config (reset_previous sp) = config sp"
  "config (reset_pending sp) = config sp" "config (reset_active sp) = config sp"
  "config (expire_previous now sp) = config sp" "config (expire_pending now sp) = config sp"
  "config (random_failed now sp) = config sp" "config (promote cand now sp) = config sp"
  by (auto simp: config_def session_defs split: option.splits)

lemma config_sel:
  assumes "config sp = config sp'"
  shows "sp_id sp = sp_id sp'" "sp_master sp = sp_master sp'" "sp_server sp = sp_server sp'"
    "sp_encrypt sp = sp_encrypt sp'" "sp_pfs sp = sp_pfs sp'" "sp_handshake sp = sp_handshake sp'"
    "sp_init_window sp = sp_init_window sp'" "suite sp = suite sp'"
  using assms by (auto simp: config_def suite_def)

text \<open>The two ends of one tunnel: same identity, master key and suite, opposite roles.\<close>

definition paired :: "session_protocol \<Rightarrow> session_protocol \<Rightarrow> bool" where
  "paired cl sv \<longleftrightarrow> \<not> sp_server cl \<and> sp_server sv \<and> sp_id cl = sp_id sv \<and> sp_master cl = sp_master sv \<and>
     sp_encrypt cl = sp_encrypt sv \<and> sp_pfs cl = sp_pfs sv \<and>
     sp_handshake cl = ProtocolV5_master (sp_id cl) (sp_master cl) False \<and>
     sp_handshake sv = ProtocolV5_master (sp_id sv) (sp_master sv) True"

lemma paired_handshake:
  assumes "paired cl sv"
  shows "peers (sp_handshake cl) (sp_handshake sv)" "peers (sp_handshake sv) (sp_handshake cl)"
    "\<not> pv_encrypt (sp_handshake cl)" "\<not> pv_encrypt (sp_handshake sv)"
    "pv_tunnel_id (sp_handshake cl) = sp_id cl" "pv_tunnel_id (sp_handshake sv) = sp_id sv"
    "suite cl = suite sv"
  using assms by (auto simp: paired_def peers_def ProtocolV5_master_def Let_def suite_def)

lemma paired_config:
  "paired cl sv \<Longrightarrow> config cl' = config cl \<Longrightarrow> config sv' = config sv \<Longrightarrow> paired cl' sv'"
  by (auto simp: paired_def config_def)

subsection \<open>Handshake packets are readable\<close>

lemma length_commitment [simp]: "length (commitment master tid init) = 32"
  by (simp add: commitment_def expand_def)

lemma decode_encoded:
  assumes "peers s r" "canonical p" "pk_tunnel_id p = pv_tunnel_id r" "pk_protocol_version p = protocol_version_v5"
    and "pk_fragment_offset p = 0" "pk_original_length p = 0" "length (pk_payload p) \<le> 65535"
    and "handshake_type (pk_type p) \<longrightarrow> \<not> pv_encrypt s"
  shows "decode r (encoded s p) = Some p"
proof -
  have "encode_into s p = Inr (encoded s p)"
    using assms metadata_size_ge [of "pk_type p" "fragmented p"]
    by (auto simp: encoded_def encode_into_def Let_def packet_limit_def protocol_constants)
  then show ?thesis
    using assms encode_decode by blast
qed

lemma decoded_header:
  assumes "decode r wire = Some p"
  shows "protocol_header_v5_size \<le> length wire" "packet_type_of (wire ! 0 AND 0x1f) = Some (pk_type p)"
    "load_be64 (drop 1 wire) = pk_sequence p" "wire \<noteq> []"
proof -
  show "protocol_header_v5_size \<le> length wire"
    using assms by (auto simp: decode_def split: if_splits)
  then show "wire \<noteq> []"
    by (auto simp: protocol_constants)
  show "packet_type_of (wire ! 0 AND 0x1f) = Some (pk_type p)" "load_be64 (drop 1 wire) = pk_sequence p"
    using decode_Some [OF assms refl refl] by simp_all
qed

lemma control_sel [simp]:
  "pk_type (control sp t x) = t" "pk_tunnel_id (control sp t x) = sp_id sp"
  "pk_protocol_version (control sp t x) = protocol_version_v5" "pk_sequence (control sp t x) = 0"
  "pk_message_id (control sp t x) = x" "pk_fragment_offset (control sp t x) = 0"
  "pk_original_length (control sp t x) = 0" "pk_payload (control sp t x) = []"
  by (simp_all add: control_def)

lemma suite_bound: "suite sp \<le> 2" "suite sp = 2 \<longleftrightarrow> sp_pfs sp"
  by (auto simp: suite_def)

lemma load_be16_at:
  "length xs = n \<Longrightarrow> load_be16 (drop n (xs @ store_be16 v @ ys)) = v"
  by simp

lemma handshake_canonical:
  assumes "t = pt_init \<and> length body = 40 \<or> t = pt_response \<and> length body = 64" "msg \<noteq> 0"
    and "length key = (if sp_pfs sp then 32 else 0)"
  shows "canonical ((control sp t msg)\<lparr>pk_payload := body @ store_be16 (suite sp) @
     store_be16 (if sp_pfs sp then 32 else 0) @ key\<rparr>)"
proof -
  define n where "n = length body"
  define pay where "pay = body @ store_be16 (suite sp) @ store_be16 (if sp_pfs sp then 32 else 0) @ key"
  have loads: "load_be16 (drop n pay) = suite sp"
      "load_be16 (drop (n + 2) pay) = (if sp_pfs sp then 32 else 0)"
    by (simp_all add: pay_def n_def)
  have len: "length pay = n + 4 + (if sp_pfs sp then 32 else 0)"
    using assms(3) by (simp add: pay_def n_def)
  have t: "t = pt_init \<and> n = 40 \<or> t = pt_response \<and> n = 64"
    using assms(1) by (simp add: n_def)
  have "valid_packet ((control sp t msg)\<lparr>pk_payload := pay\<rparr>)"
    using t assms(2) loads len suite_bound [of sp]
    by (auto simp: valid_packet_def Let_def handshake_type_def)
  then show ?thesis
    using t unfolding pay_def canonical_def by auto
qed

subsection \<open>The four steps of a handshake\<close>

text \<open>What \<open>expire_previous\<close> and \<open>expire_pending\<close> leave alone.\<close>

definition expired :: "time \<Rightarrow> session_protocol \<Rightarrow> session_protocol" where
  "expired now sp = expire_pending now (expire_previous now sp)"

lemma expired_sel [simp]:
  "config (expired now sp) = config sp" "sp_active (expired now sp) = sp_active sp"
  "sp_random_retry_after (expired now sp) = sp_random_retry_after sp"
  "sp_wall_high_water (expired now sp) = sp_wall_high_water sp" "sp_seen_nonces (expired now sp) = sp_seen_nonces sp"
  "sp_nonce_expiry (expired now sp) = sp_nonce_expiry sp" "sp_flight (expired now sp) = sp_flight sp"
  "sp_flight_started (expired now sp) = sp_flight_started sp" "sp_waiting_ack (expired now sp) = sp_waiting_ack sp"
  "sp_client_init (expired now sp) = sp_client_init sp" "sp_client_exchange (expired now sp) = sp_client_exchange sp"
  "sp_client_secret (expired now sp) = sp_client_secret sp" "sp_pending_until (expired now sp) = sp_pending_until sp"
  "sp_transmit_generation (expired now sp) = sp_transmit_generation sp"
  "handshake_started (sp_counters (expired now sp)) = handshake_started (sp_counters sp)"
  by (auto simp: expired_def session_defs config_def split: option.splits)

lemma expired_pending:
  "sp_pending (expired now sp) = (if now \<ge> sp_pending_until sp then None else sp_pending sp)"
  by (auto simp: expired_def session_defs split: option.splits)

lemma config_server [simp]: "sp_server (expired now sp) = sp_server sp" "suite (expired now sp) = suite sp"
  "sp_handshake (expired now sp) = sp_handshake sp" "sp_pfs (expired now sp) = sp_pfs sp"
  "sp_id (expired now sp) = sp_id sp" "sp_master (expired now sp) = sp_master sp"
  "sp_init_window (expired now sp) = sp_init_window sp"
  using config_sel [OF expired_sel(1)] by auto

text \<open>The random values one call draws: message id, nonce and Diffie-Hellman secret.\<close>

definition supplies :: "randoms \<Rightarrow> bytes \<Rightarrow> bytes \<Rightarrow> bytes \<Rightarrow> bool" where
  "supplies rnd idb nonce secret \<longleftrightarrow> rnd_id rnd = Some idb \<and> rnd_nonce rnd = Some nonce \<and>
     rnd_secret rnd = Some secret \<and> length nonce = 32 \<and> length secret = 32 \<and> load_be64 idb \<noteq> 0"

definition init_packet :: "crypto \<Rightarrow> session_protocol \<Rightarrow> u64 \<Rightarrow> bytes \<Rightarrow> int \<Rightarrow> bytes \<Rightarrow> packet" where
  "init_packet c sp msg nonce wall secret =
     (control sp pt_init msg)\<lparr>pk_payload := init_payload c sp nonce wall secret\<rparr>"

definition response_packet :: "crypto \<Rightarrow> session_protocol \<Rightarrow> u64 \<Rightarrow> bytes \<Rightarrow> bytes \<Rightarrow> bytes \<Rightarrow> packet" where
  "response_packet c sp msg init nonce secret =
     (control sp pt_response msg)\<lparr>pk_payload := response_payload c sp init nonce secret\<rparr>"

lemma payload_forms:
  "init_payload c sp nonce wall secret =
     (nonce @ store_be64 (word_of_int (max 0 wall))) @ store_be16 (suite sp) @
     store_be16 (if sp_pfs sp then 32 else 0) @ (if sp_pfs sp then dh_public c secret else [])"
  "response_payload c sp init nonce secret =
     (commitment (sp_master sp) (sp_id sp) init @ nonce) @ store_be16 (suite sp) @
     store_be16 (if sp_pfs sp then 32 else 0) @ (if sp_pfs sp then dh_public c secret else [])"
  by (simp_all add: init_payload_def response_payload_def)

lemma decode_init_packet:
  assumes "peers s r" "\<not> pv_encrypt s" "pv_tunnel_id r = sp_id sp" "msg \<noteq> 0" "length nonce = 32"
    and "length (dh_public c secret) = 32"
  shows "decode r (encoded s (init_packet c sp msg nonce wall secret)) = Some (init_packet c sp msg nonce wall secret)"
  using assms unfolding init_packet_def payload_forms
  by (intro decode_encoded handshake_canonical) auto

lemma decode_response_packet:
  assumes "peers s r" "\<not> pv_encrypt s" "pv_tunnel_id r = sp_id sp" "msg \<noteq> 0" "length nonce = 32"
    and "length (dh_public c secret) = 32"
  shows "decode r (encoded s (response_packet c sp msg init nonce secret)) =
     Some (response_packet c sp msg init nonce secret)"
  using assms unfolding response_packet_def payload_forms
  by (intro decode_encoded handshake_canonical) auto

lemma begin_handshake_flight:
  assumes "\<not> sp_server cl" "sp_random_retry_after cl \<le> now" "supplies rnd idb nonce secret"
    and "begin_handshake c rnd now wall cl = (wire, cl')"
  shows "wire = encoded (sp_handshake cl) (init_packet c cl (load_be64 idb) nonce wall secret)"
    "config cl' = config cl" "sp_client_init cl' = wire" "sp_flight cl' = wire" "sp_flight_started cl' = now"
    "sp_client_exchange cl' = load_be64 idb" "\<not> sp_waiting_ack cl'"
    "sp_pfs cl \<longrightarrow> sp_client_secret cl' = secret"
proof -
  have eq: "begin_handshake c rnd now wall cl =
      begin_flight (cl\<lparr>sp_begin_retry := True\<rparr>) (init_packet c cl (load_be64 idb) nonce wall secret)
        (if sp_pfs cl then secret else replicate 32 0) now"
    using assms(1-3)
    by (auto simp: begin_handshake_def supplies_def init_packet_def init_payload_def control_def suite_def Let_def)
  show "wire = encoded (sp_handshake cl) (init_packet c cl (load_be64 idb) nonce wall secret)"
    "config cl' = config cl" "sp_client_init cl' = wire" "sp_flight cl' = wire" "sp_flight_started cl' = now"
    "sp_client_exchange cl' = load_be64 idb" "\<not> sp_waiting_ack cl'"
    "sp_pfs cl \<longrightarrow> sp_client_secret cl' = secret"
    using assms(4) unfolding eq
    by (auto simp: begin_flight_def session_defs config_def init_packet_def split: option.splits)
qed

lemma receive_server_init:
  assumes "sp_server sp" "decode (sp_handshake sp) wire = Some p" "pk_type p = pt_init"
    and "load_be16 (drop 40 (pk_payload p)) = suite sp"
  shows "receive c rnd wire now wall sp =
     (let (res, sp') = receive_init c rnd now wall p wire (expired now sp) in (res, Some p, sp'))"
  using assms decoded_header [OF assms(2)]
  by (simp add: receive_def Let_def expired_def [symmetric])

lemma receive_client_response:
  assumes "\<not> sp_server sp" "decode (sp_handshake sp) wire = Some p" "pk_type p = pt_response"
    and "load_be16 (drop 64 (pk_payload p)) = suite sp" "now - sp_flight_started sp < pending_lifetime"
  shows "receive c rnd wire now wall sp =
     (let (res, sp') = receive_response c now p wire (expired now sp) in (res, Some p, sp'))"
  using assms decoded_header [OF assms(2)]
  by (simp add: receive_def Let_def expired_def [symmetric])

lemma purge_nonces_subset:
  "purge_nonces current expiry seen = (expiry', seen') \<Longrightarrow>
     set seen' \<subseteq> set seen \<and> length seen' \<le> length seen"
proof (induction current expiry seen rule: purge_nonces.induct)
  case (2 current e nonce rest seen)
  then show ?case
    by (auto split: if_splits intro: le_trans [OF _ length_removeAll_less_eq])
qed auto

text \<open>When a server answers an INIT with this nonce and time stamp.\<close>

definition admits :: "session_protocol \<Rightarrow> bytes \<Rightarrow> int \<Rightarrow> int \<Rightarrow> time \<Rightarrow> bool" where
  "admits sv nonce wall wall' now \<longleftrightarrow>
     (sp_pending sv = None \<or> sp_pending_until sv \<le> now) \<and> sp_random_retry_after sv \<le> now \<and>
     unat (clock_distance (word_of_int (max 0 wall))
       (word_of_int (max (sp_wall_high_water sv) (max 0 wall')))) \<le> sp_init_window sv div 2 \<and>
     nonce \<notin> set (sp_seen_nonces sv) \<and> length (sp_seen_nonces sv) < nonce_capacity"

lemma answer_init_session:
  assumes "supplies rnd idb nonce secret"
    and "sp_pfs sp \<longrightarrow> dh_shared c secret (slice 44 32 (pk_payload p)) = Some k"
    and "config keep = config sp" "sp_active keep = sp_active sp"
    and "answer_init c rnd now p wire res sp keep = (r, sp')"
  shows "rx_reply r = encoded (sp_handshake sp) (response_packet c sp (pk_message_id p) wire nonce secret)"
    "config sp' = config sp" "sp_active sp' = sp_active sp" "sp_pending_until sp' = now + pending_lifetime"
    "sp_pending sp' = Some (derive keep wire (rx_reply r) (pk_message_id p)
       (if sp_pfs sp then k else replicate 32 0) now)"
proof -
  let ?w = "encoded (sp_handshake sp) (response_packet c sp (pk_message_id p) wire nonce secret)"
  let ?s = "derive keep wire ?w (pk_message_id p) (if sp_pfs sp then k else replicate 32 0) now"
  have "answer_init c rnd now p wire res sp keep =
     (res\<lparr>rx_reply := ?w\<rparr>, started ((reset_previous keep)\<lparr>sp_pending := Some ?s,
        sp_pending_until := now + pending_lifetime, sp_response_resend_after := now\<rparr>))"
    using assms(1,2)
    by (cases "sp_pfs sp") (simp_all add: answer_init_def supplies_def Let_def response_packet_def response_payload_def)
  then have r: "r = res\<lparr>rx_reply := ?w\<rparr>" and sp': "sp' = started ((reset_previous keep)\<lparr>sp_pending := Some ?s,
        sp_pending_until := now + pending_lifetime, sp_response_resend_after := now\<rparr>)"
    using assms(5) by simp_all
  show "rx_reply r = ?w"
    by (simp add: r)
  then show "sp_pending sp' = Some (derive keep wire (rx_reply r) (pk_message_id p)
       (if sp_pfs sp then k else replicate 32 0) now)" "sp_pending_until sp' = now + pending_lifetime"
    by (simp_all add: sp' started_def count_def)
  show "config sp' = config sp"
    using config_ops(5) [of keep] assms(3) by (simp add: sp' config_def started_def count_def)
  show "sp_active sp' = sp_active sp"
    using assms(4) by (simp add: sp' started_def count_def reset_previous_def retire_def split: option.splits)
qed

lemma purge_expired_sel [simp]:
  "config (purge_expired current sp) = config sp" "sp_active (purge_expired current sp) = sp_active sp"
  "sp_pending (purge_expired current sp) = sp_pending sp"
  "sp_random_retry_after (purge_expired current sp) = sp_random_retry_after sp"
  "sp_wall_high_water (purge_expired current sp) = sp_wall_high_water sp"
  "sp_counters (purge_expired current sp) = sp_counters sp"
  by (simp_all add: purge_expired_def config_def split: prod.splits)

lemma purge_expired_seen:
  "set (sp_seen_nonces (purge_expired current sp)) \<subseteq> set (sp_seen_nonces sp)"
  "length (sp_seen_nonces (purge_expired current sp)) \<le> length (sp_seen_nonces sp)"
  using purge_nonces_subset by (auto simp: purge_expired_def split: prod.splits)

lemma reserve_nonce_sel [simp]:
  "config (reserve_nonce e n sp) = config sp" "sp_active (reserve_nonce e n sp) = sp_active sp"
  "sp_wall_high_water (reserve_nonce e n sp) = sp_wall_high_water sp"
  "sp_counters (reserve_nonce e n sp) = sp_counters sp"
  by (simp_all add: reserve_nonce_def config_def)

lemma receive_init_answers:
  assumes "admits sp nonce wall wall' now" "supplies rnd idb' nonce' secret'" "sp_pending sp = None"
    and "p = init_packet c cl msg nonce wall secret" "length nonce = 32" "length (dh_public c secret) = 32"
    and "sp_pfs cl = sp_pfs sp" "sp_pfs sp \<longrightarrow> dh_shared c secret' (dh_public c secret) = Some k"
    and "receive_init c rnd now wall' p wire sp = (r, sp')"
  shows "rx_reply r = encoded (sp_handshake sp) (response_packet c sp msg wire nonce' secret')"
    "config sp' = config sp" "sp_active sp' = sp_active sp" "sp_pending_until sp' = now + pending_lifetime"
    "\<exists>sp0. config sp0 = config sp \<and> sp_pending sp' = Some (derive sp0 wire (rx_reply r) msg
       (if sp_pfs sp then k else replicate 32 0) now)"
proof -
  let ?sp0 = "sp\<lparr>sp_wall_high_water := max (sp_wall_high_water sp) (max 0 wall')\<rparr>"
  define stamp where "stamp = load_be64 (drop 32 (pk_payload p))"
  define sp1 where "sp1 = purge_expired (word_of_int (sp_wall_high_water ?sp0)) ?sp0"
  define keep where "keep = reserve_nonce (stamp + of_nat (sp_init_window sp div 2)) nonce sp1"
  have stamp: "stamp = word_of_int (max 0 wall)" and nonce: "take 32 (pk_payload p) = nonce"
    and dh: "sp_pfs sp \<Longrightarrow> slice 44 32 (pk_payload p) = dh_public c secret" and msg: "pk_message_id p = msg"
    using assms(4-7) by (simp_all add: stamp_def init_packet_def init_payload_def)
  have sp1: "nonce \<notin> set (sp_seen_nonces sp1)" "length (sp_seen_nonces sp1) < nonce_capacity"
    "sp_pending sp1 = None" "\<not> now < sp_random_retry_after sp1"
    using purge_expired_seen [of "word_of_int (sp_wall_high_water ?sp0)" ?sp0, folded sp1_def] assms(1,3)
    by (auto simp: admits_def sp1_def)
  have "\<exists>res. receive_init c rnd now wall' p wire sp =
      admit_init c rnd now p wire (stamp + of_nat (sp_init_window sp div 2)) res sp1"
    using assms(1)
    by (simp add: receive_init_def clock_result_def Let_def stamp_def [symmetric] admits_def sp1_def stamp)
      (rule exI, rule refl)
  then obtain res where ans: "answer_init c rnd now p wire res sp1 keep = (r, sp')"
    using assms(9) sp1 by (auto simp: admit_init_def nonce keep_def)
  have cfg: "config sp1 = config sp" "config keep = config sp1" "sp_active keep = sp_active sp1" "sp_active sp1 = sp_active sp"
    by (simp_all add: sp1_def keep_def) (simp add: config_def)
  note ans' = answer_init_session [OF assms(2) _ cfg(2,3) ans, where k = k]
  have "response_packet c sp1 msg wire nonce' secret' = response_packet c sp msg wire nonce' secret'"
    using cfg(1) by (simp add: response_packet_def response_payload_def control_def suite_def config_def)
  then show "rx_reply r = encoded (sp_handshake sp) (response_packet c sp msg wire nonce' secret')"
    "config sp' = config sp" "sp_active sp' = sp_active sp" "sp_pending_until sp' = now + pending_lifetime"
    "\<exists>sp0. config sp0 = config sp \<and> sp_pending sp' = Some (derive sp0 wire (rx_reply r) msg
       (if sp_pfs sp then k else replicate 32 0) now)"
    using ans' cfg assms(8) dh msg config_sel [OF cfg(1)] by auto
qed

lemma derive_sel:
  "s_exchange (derive sp i r x dh now) = x" "s_init (derive sp i r x dh now) = i"
  "s_response (derive sp i r x dh now) = r" "s_next_counter (derive sp i r x dh now) = 1"
  "s_replay (derive sp i r x dh now) = replay_window_init"
  by (simp_all add: derive_def split: prod.splits)

text \<open>Both ends derive the two halves of one session from one transcript and secret.\<close>

lemma derive_peers:
  assumes "paired cl sv"
  shows "peers (s_codec (derive cl i r x dh t)) (s_codec (derive sv i r x dh t'))"
    "peers (s_codec (derive sv i r x dh t)) (s_codec (derive cl i r x dh t'))"
    "s_hint (derive cl i r x dh t) = s_hint (derive sv i r x dh t')"
    "pv_tunnel_id (s_codec (derive cl i r x dh t)) = sp_id cl" "pv_tunnel_id (s_codec (derive sv i r x dh t)) = sp_id cl"
  using assms by (auto simp: derive_def session_keys_def paired_def peers_def ProtocolV5_def Let_def split: prod.splits)

lemma derive_config:
  assumes "config sp = config sp'"
  shows "s_codec (derive sp i r x dh t) = s_codec (derive sp' i r x dh t')"
    "s_hint (derive sp i r x dh t) = s_hint (derive sp' i r x dh t')"
  using config_sel [OF assms] by (simp_all add: derive_def session_keys_def Let_def split: prod.splits)

lemma constant_time_equal_prefix: "length xs = n \<Longrightarrow> constant_time_equal n xs (xs @ ys)"
  by (simp add: constant_time_equal_iff)

lemma receive_response_activates:
  assumes "p = response_packet c sv msg (sp_client_init sp) nonce secret" "length nonce = 32"
    and "length (dh_public c secret) = 32" "sp_master sv = sp_master sp" "sp_id sv = sp_id sp" "sp_pfs sv = sp_pfs sp"
    and "sp_client_init sp \<noteq> []" "sp_client_exchange sp = msg" "\<not> sp_waiting_ack sp"
    and "sp_pfs sp \<longrightarrow> dh_shared c (sp_client_secret sp) (dh_public c secret) = Some k"
    and "receive_response c now p wire sp = (r, sp')"
  defines "cand \<equiv> derive sp (sp_client_init sp) wire msg (if sp_pfs sp then k else replicate 32 0) now"
  shows "rx_reply r = confirmation sp cand pt_confirm" "config sp' = config sp" "sp_active sp' = Some cand"
    "sp_waiting_ack sp'" "sp_flight_started sp' = now"
proof -
  have body: "constant_time_equal 32 (commitment (sp_master sp) (sp_id sp) (sp_client_init sp)) (pk_payload p)"
    "slice 68 32 (pk_payload p) = dh_public c secret \<or> \<not> sp_pfs sp" "pk_message_id p = msg"
    using assms(1-6) by (simp_all add: response_packet_def response_payload_def constant_time_equal_prefix)
  show "rx_reply r = confirmation sp cand pt_confirm" "config sp' = config sp" "sp_active sp' = Some cand"
    "sp_waiting_ack sp'" "sp_flight_started sp' = now"
    using assms(7-11) body
    by (auto simp: receive_response_def cand_def session_defs config_def split: option.splits if_splits)
qed

lemma decode_confirmation:
  assumes "peers (s_codec a) (s_codec b)" "pv_tunnel_id (s_codec b) = sp_id sp" "s_exchange a \<noteq> 0"
    and "t = pt_confirm \<or> t = pt_confirm_ack"
  shows "decode (s_codec b) (confirmation sp a t) =
     Some ((control sp t (s_exchange a))\<lparr>pk_sequence := push_bit 48 (ucast (s_hint a))\<rparr>)"
proof -
  have "(push_bit 48 (ucast (s_hint a)) AND 0xffffffffffff :: u64) = 0"
  proof -
    have low: "(0xffffffffffff :: u64) = mask 48"
      by (simp add: mask_eq_exp_minus_1)
    show ?thesis
      unfolding low by (auto intro!: bit_eqI simp: bit_simps)
  qed
  with assms show ?thesis
    unfolding confirmation_def
    by (intro decode_encoded) (auto simp: canonical_def valid_packet_def handshake_type_def Let_def)
qed

lemma drop_bit_hint [simp]: "ucast (drop_bit 48 (push_bit 48 (ucast (h :: u16)) :: u64)) = h"
  by (rule bit_eqI) (auto simp: bit_simps dest: bit_lt_16)

lemma receive_session_eq:
  assumes "decode v wire = Some p" "pk_type p \<noteq> pt_init" "pk_type p \<noteq> pt_response"
    and "sp_server sp \<or> now - sp_flight_started sp < pending_lifetime"
  shows "receive c rnd wire now wall sp = receive_session now wire (expired now sp)"
  using assms decoded_header [OF assms(1)]
  by (auto simp: receive_def Let_def expired_def [symmetric])

text \<open>The server's first CONFIRM of a pending session.\<close>

lemma receive_confirm_activates:
  assumes "sp_server sp" "sp_pending sp = Some b" "now < sp_pending_until sp"
    and "peers (s_codec a) (s_codec b)" "pv_tunnel_id (s_codec b) = sp_id cl" "s_exchange a = s_exchange b"
    and "s_exchange b \<noteq> 0" "s_hint a = s_hint b"
    and "\<forall>s. sp_active sp = Some s \<longrightarrow> decode (s_codec s) (confirmation cl a pt_confirm) = None"
    and "receive c rnd (confirmation cl a pt_confirm) now wall sp = (r, q, sp')"
  shows "rx_activated r" "rx_reply r = confirmation (expired now sp) b pt_confirm_ack" "sp_active sp' = Some b"
    "sp_pending sp' = None"
proof -
  let ?wire = "confirmation cl a pt_confirm"
  let ?p = "(control cl pt_confirm (s_exchange a))\<lparr>pk_sequence := push_bit 48 (ucast (s_hint a))\<rparr>"
  have dec: "decode (s_codec b) ?wire = Some ?p"
    using assms by (intro decode_confirmation) auto
  have hint: "ucast (drop_bit 48 (load_be64 (drop 1 ?wire))) = s_hint b"
    using decoded_header(3) [OF dec] assms(8) by simp
  have pend: "sp_pending (expired now sp) = Some b"
    using assms(2,3) by (simp add: expired_pending)
  have "match_session [Active, Pending, Previous] ?wire (expired now sp) = Some (Pending, b, ?p)"
    using dec hint pend assms(9) by (auto simp: slot_session_def split: option.splits)
  then have "receive_session now ?wire (expired now sp) =
      (let (res, sp') = receive_confirm now Pending b ?p (expired now sp) in (res, Some ?p, sp'))"
    by (simp add: receive_session_def)
  then show "rx_activated r" "rx_reply r = confirmation (expired now sp) b pt_confirm_ack" "sp_active sp' = Some b"
    "sp_pending sp' = None"
    using assms(1,6,10) receive_session_eq [OF dec, of sp now c rnd wall]
    by (auto simp: receive_confirm_def session_defs split: option.splits)
qed

text \<open>The client's CONFIRM_ACK for its unconfirmed session.\<close>

lemma receive_confirm_ack_activates:
  assumes "\<not> sp_server sp" "sp_active sp = Some a" "sp_waiting_ack sp" "now - sp_flight_started sp < pending_lifetime"
    and "peers (s_codec b) (s_codec a)" "pv_tunnel_id (s_codec a) = sp_id sv" "s_exchange a = s_exchange b"
    and "s_exchange b \<noteq> 0" "s_hint a = s_hint b"
    and "receive c rnd (confirmation sv b pt_confirm_ack) now wall sp = (r, q, sp')"
  shows "rx_activated r" "sp_active sp' = Some a" "\<not> sp_waiting_ack sp'"
proof -
  let ?wire = "confirmation sv b pt_confirm_ack"
  let ?p = "(control sv pt_confirm_ack (s_exchange b))\<lparr>pk_sequence := push_bit 48 (ucast (s_hint b))\<rparr>"
  have dec: "decode (s_codec a) ?wire = Some ?p"
    using assms by (intro decode_confirmation) auto
  have hint: "ucast (drop_bit 48 (load_be64 (drop 1 ?wire))) = s_hint a"
    using decoded_header(3) [OF dec] assms(9) by simp
  have "match_session [Active, Pending, Previous] ?wire (expired now sp) = Some (Active, a, ?p)"
    using dec hint assms(2) by (simp add: slot_session_def)
  then have "receive_session now ?wire (expired now sp) =
      (let (res, sp') = receive_confirm_ack now Active a ?p (expired now sp) in (res, Some ?p, sp'))"
    by (simp add: receive_session_def)
  then show "rx_activated r" "sp_active sp' = Some a" "\<not> sp_waiting_ack sp'"
    using assms(1-4,7,10) receive_session_eq [OF dec, of sp now c rnd wall]
    by (auto simp: receive_confirm_ack_def session_defs split: option.splits)
qed


text \<open>
  C1. A complete handshake makes both ends agree. A client that may draw random values sends
  an INIT, a server that admits its nonce and time stamp answers it, and the RESPONSE, the CONFIRM
  and the CONFIRM_ACK arrive before the flight and the pending session expire. If the two
  X25519 values agree (they are only used with forward secrecy) and the CONFIRM is not
  readable under the server's old session, then both ends report activation, the client is
  no longer waiting, and the two active sessions are the two halves of one session: each
  can read what the other seals, and hint, exchange and fresh transmit counters agree.
\<close>

theorem handshake_agreement:
  assumes paired: "paired cl sv"
    and rnd: "supplies rc idb nonce secret" "supplies rs idb' nonce' secret'"
    and dh: "length (dh_public c secret) = 32" "length (dh_public c secret') = 32"
      "dh_shared c secret (dh_public c secret') = Some k" "dh_shared c secret' (dh_public c secret) = Some k"
    and may: "sp_random_retry_after cl \<le> t0" "admits sv nonce wall wall' t1"
    and steps: "begin_handshake c rc t0 wall cl = (init, cl1)"
      "receive c rs init t1 wall' sv = (r1, q1, sv1)"
      "receive c rc (rx_reply r1) t2 wall cl1 = (r2, q2, cl2)"
      "receive c rs (rx_reply r2) t3 wall' sv1 = (r3, q3, sv2)"
      "receive c rc (rx_reply r3) t4 wall cl2 = (r4, q4, cl3)"
    and intime: "t2 - t0 < pending_lifetime" "t3 - t1 < pending_lifetime" "t4 - t2 < pending_lifetime"
    and old: "\<forall>s. sp_active sv = Some s \<longrightarrow> decode (s_codec s) (rx_reply r2) = None"
  shows "rx_activated r3 \<and> rx_activated r4 \<and> \<not> sp_waiting_ack cl3 \<and>
    (\<exists>a b. sp_active cl3 = Some a \<and> sp_active sv2 = Some b \<and>
       peers (s_codec a) (s_codec b) \<and> peers (s_codec b) (s_codec a) \<and> s_hint a = s_hint b \<and>
       s_exchange a = load_be64 idb \<and> s_exchange b = load_be64 idb \<and> s_next_counter a = 1 \<and> s_next_counter b = 1)"
proof -
  let ?msg = "load_be64 idb" and ?hc = "sp_handshake cl" and ?hs = "sp_handshake sv"
  define dhk where "dhk = (if sp_pfs sv then k else replicate 32 0)"
  note h = paired_handshake [OF paired]
  have roles: "\<not> sp_server cl" "sp_server sv" and same: "sp_id cl = sp_id sv" "sp_pfs cl = sp_pfs sv"
    "sp_master cl = sp_master sv"
    using paired by (simp_all add: paired_def)
  have msg: "?msg \<noteq> 0" and lens: "length nonce = 32" "length nonce' = 32"
    using rnd by (simp_all add: supplies_def)
  note b = begin_handshake_flight [OF roles(1) may(1) rnd(1) steps(1)]
  let ?p1 = "init_packet c cl ?msg nonce wall secret"
  have dec1: "decode ?hs init = Some ?p1"
    unfolding b(1) using h msg lens dh same by (intro decode_init_packet) auto
  have "load_be16 (drop 40 (pk_payload ?p1)) = suite sv"
    using lens h(7) by (simp add: init_packet_def init_payload_def)
  then have "receive_init c rs t1 wall' ?p1 init (expired t1 sv) = (r1, sv1)"
    using steps(2) receive_server_init [OF roles(2) dec1] by (auto simp: init_packet_def split: prod.splits)
  note s = receive_init_answers [OF _ rnd(2) _ refl lens(1) dh(1) _ _ this, where k = k, folded dhk_def]
  have adm: "admits (expired t1 sv) nonce wall wall' t1" "sp_pending (expired t1 sv) = None"
    using may(2) by (auto simp: admits_def expired_pending)
  have s1: "rx_reply r1 = encoded ?hs (response_packet c sv ?msg init nonce' secret')" "config sv1 = config sv"
      "sp_active sv1 = sp_active sv" "sp_pending_until sv1 = t1 + pending_lifetime"
    using s(1-4) adm same dh by (auto simp: response_packet_def response_payload_def control_def)
  obtain sv0 where sv0: "config sv0 = config sv"
    "sp_pending sv1 = Some (derive sv0 init (rx_reply r1) ?msg dhk t1)"
    using s(5) adm same dh by (auto simp: dhk_def)
  let ?p2 = "response_packet c sv ?msg init nonce' secret'"
  note cfg1 = config_sel [OF b(2)]
  have dec2: "decode (sp_handshake cl1) (rx_reply r1) = Some ?p2"
    unfolding s1(1) cfg1 using h msg lens dh same by (intro decode_response_packet) auto
  have "load_be16 (drop 64 (pk_payload ?p2)) = suite cl1"
    using lens h(7) cfg1(8) by (simp add: response_packet_def response_payload_def)
  then have "receive_response c t2 ?p2 (rx_reply r1) (expired t2 cl1) = (r2, cl2)"
    using steps(3) receive_client_response [OF _ dec2, of t2 c rc wall] roles(1) cfg1(3) b(5) intime(1)
    by (auto simp: response_packet_def split: prod.splits)
  note c = receive_response_activates [OF _ lens(2) dh(2) _ _ _ _ _ _ _ this, where k = k and sv = sv and msg = ?msg]
  define a where "a = derive (expired t2 cl1) init (rx_reply r1) ?msg dhk t2"
  define bb where "bb = derive sv0 init (rx_reply r1) ?msg dhk t1"
  have c1: "rx_reply r2 = confirmation (expired t2 cl1) a pt_confirm" "config cl2 = config cl" "sp_active cl2 = Some a"
      "sp_waiting_ack cl2" "sp_flight_started cl2 = t2"
    using c b cfg1 same dh decoded_header(4) [OF dec1] by (auto simp: a_def dhk_def)
  have pr: "paired (expired t2 cl1) sv0"
    by (rule paired_config [OF paired]) (simp_all add: b sv0)
  note ab = derive_peers [OF pr, of init "rx_reply r1" ?msg dhk, folded a_def bb_def]
  have sel: "s_exchange a = ?msg" "s_exchange bb = ?msg" "s_next_counter a = 1" "s_next_counter bb = 1"
    by (simp_all add: a_def bb_def derive_sel)
  have ids: "sp_id (expired t2 cl1) = sp_id cl"
    using cfg1 by simp
  have peers_ab: "peers (s_codec a) (s_codec bb)" "peers (s_codec bb) (s_codec a)" "s_hint a = s_hint bb"
      "pv_tunnel_id (s_codec bb) = sp_id cl" "pv_tunnel_id (s_codec a) = sp_id cl"
    unfolding a_def bb_def using derive_peers [OF pr] ids by simp_all
  have srv: "sp_server sv1"
    using config_sel [OF s1(2)] roles by simp
  have "rx_activated r3 \<and> rx_reply r3 = confirmation (expired t3 sv1) bb pt_confirm_ack \<and> sp_active sv2 = Some bb"
    using receive_confirm_activates [OF srv sv0(2) [folded bb_def], of t3 a "expired t2 cl1" c rs wall' r3 q3 sv2]
      steps(4) c1(1) s1 old intime(2) peers_ab sel msg ids by simp
  moreover have "rx_activated r4 \<and> sp_active cl3 = Some a \<and> \<not> sp_waiting_ack cl3"
    using receive_confirm_ack_activates [OF _ c1(3,4), of t4 bb "expired t3 sv1" c rc wall r4 q4 cl3]
      steps(5) calculation c1 intime(3) peers_ab sel msg roles same config_sel [OF c1(2)] config_sel [OF s1(2)]
    by simp
  ultimately show ?thesis
    using peers_ab sel by blast
qed


theorem handshake_agreement_witness:
  "\<exists>c rc rs cl sv init cl1 r1 q1 sv1 r2 q2 cl2 r3 q3 sv2 r4 q4 cl3 a b.
     SessionProtocol 7 (replicate 16 1) False 1500 True 300 True = Inr cl \<and>
     SessionProtocol 7 (replicate 16 1) True 1500 True 300 True = Inr sv \<and>
     begin_handshake c rc 0 1000 cl = (init, cl1) \<and> receive c rs init 1 1100 sv = (r1, q1, sv1) \<and>
     receive c rc (rx_reply r1) 2 1000 cl1 = (r2, q2, cl2) \<and> receive c rs (rx_reply r2) 3 1100 sv1 = (r3, q3, sv2) \<and>
     receive c rc (rx_reply r3) 4 1000 cl2 = (r4, q4, cl3) \<and> rx_activated r3 \<and> rx_activated r4 \<and>
     sp_active cl3 = Some a \<and> sp_active sv2 = Some b \<and> peers (s_codec a) (s_codec b) \<and> peers (s_codec b) (s_codec a)"
proof -
  define c where "c = \<lparr>dh_public = (\<lambda>s. s), dh_shared = (\<lambda>a b. Some (map2 (XOR) a b))\<rparr>"
  define rc where "rc = \<lparr>rnd_id = Some (store_be64 5), rnd_nonce = Some (replicate 32 1), rnd_secret = Some (replicate 32 3)\<rparr>"
  define rs where "rs = \<lparr>rnd_id = Some (store_be64 6), rnd_nonce = Some (replicate 32 2), rnd_secret = Some (replicate 32 4)\<rparr>"
  obtain cl where cl: "SessionProtocol 7 (replicate 16 1) False 1500 True 300 True = Inr cl"
    by (simp add: SessionProtocol_def)
  obtain sv where sv: "SessionProtocol 7 (replicate 16 1) True 1500 True 300 True = Inr sv"
    by (simp add: SessionProtocol_def)
  obtain init cl1 where s0: "begin_handshake c rc 0 1000 cl = (init, cl1)"
    by force
  obtain r1 q1 sv1 where s1: "receive c rs init 1 1100 sv = (r1, q1, sv1)"
    by (metis prod_cases3)
  obtain r2 q2 cl2 where s2: "receive c rc (rx_reply r1) 2 1000 cl1 = (r2, q2, cl2)"
    by (metis prod_cases3)
  obtain r3 q3 sv2 where s3: "receive c rs (rx_reply r2) 3 1100 sv1 = (r3, q3, sv2)"
    by (metis prod_cases3)
  obtain r4 q4 cl3 where s4: "receive c rc (rx_reply r3) 4 1000 cl2 = (r4, q4, cl3)"
    by (metis prod_cases3)
  have states: "paired cl sv" "sp_random_retry_after cl \<le> 0" "admits sv (replicate 32 1) 1000 1100 1" "sp_active sv = None"
    using cl sv by (auto simp: SessionProtocol_def paired_def admits_def clock_distance_def nonce_capacity_def)
  have rnd: "supplies rc (store_be64 5) (replicate 32 1) (replicate 32 3)"
      "supplies rs (store_be64 6) (replicate 32 2) (replicate 32 4)"
    by (simp_all add: supplies_def rc_def rs_def)
  have run: "rx_activated r3 \<and> rx_activated r4 \<and> \<not> sp_waiting_ack cl3 \<and>
    (\<exists>a b. sp_active cl3 = Some a \<and> sp_active sv2 = Some b \<and>
       peers (s_codec a) (s_codec b) \<and> peers (s_codec b) (s_codec a) \<and> s_hint a = s_hint b \<and>
       s_exchange a = load_be64 (store_be64 5) \<and> s_exchange b = load_be64 (store_be64 5) \<and>
       s_next_counter a = 1 \<and> s_next_counter b = 1)"
    by (rule handshake_agreement [OF states(1) rnd _ _ _ _ states(2,3) s0 s1 s2 s3 s4, where k = "replicate 32 7"])
      (simp_all add: c_def states(4) pending_lifetime_def)
  then obtain a b where ab: "sp_active cl3 = Some a" "sp_active sv2 = Some b"
      "peers (s_codec a) (s_codec b)" "peers (s_codec b) (s_codec a)"
    by blast
  have "rx_activated r3" "rx_activated r4"
    using run by auto
  with ab cl sv s0 s1 s2 s3 s4 show ?thesis
    by (intro exI conjI) assumption+
qed

end
