(* ===== verification/Session_Run.thy ===== *)
theory Session_Run
  imports Session_Correct
begin

text \<open>
  Runs of the session layer: any interleaving of received datagrams, timer ticks, restarts,
  sends and cleanups. Transmit sequences never repeat within one transmit generation.
\<close>

subsection \<open>Runs\<close>

text \<open>An operation of the session layer; wall clocks are 64-bit signed integers.\<close>

datatype session_event =
    Receive_event randoms bytes time u64
  | Tick_event randoms time u64
  | Restart_event randoms time u64
  | Send_event packet
  | Cleanup_event time

fun session_step :: "crypto \<Rightarrow> session_protocol \<Rightarrow> session_event \<Rightarrow> session_protocol option" where
  "session_step c sp (Receive_event rnd wire now wall) = Some (snd (snd (receive c rnd wire now (sint wall) sp)))"
| "session_step c sp (Tick_event rnd now wall) = Some (snd (tick c rnd now (sint wall) sp))"
| "session_step c sp (Restart_event rnd now wall) = Some (snd (restart c rnd now (sint wall) sp))"
| "session_step c sp (Send_event p) = Some (snd (session_encode p sp))"
| "session_step c sp (Cleanup_event now) = cleanup now sp"

text \<open>The transmit generation and sequence under which a send event seals its packet.\<close>

fun emission :: "session_protocol \<Rightarrow> session_event \<Rightarrow> (nat \<times> protocol_v5 \<times> u64) list" where
  "emission sp (Send_event p) =
     (case sp_active sp of
        Some s \<Rightarrow> if ready sp then [(sp_transmit_generation sp, s_codec s, next_wire_sequence s)] else []
      | None \<Rightarrow> [])"
| "emission sp _ = []"

fun emission_run :: "crypto \<Rightarrow> session_protocol \<Rightarrow> session_event list \<Rightarrow> (nat \<times> protocol_v5 \<times> u64) list" where
  "emission_run c sp [] = []"
| "emission_run c sp (e # es) =
     emission sp e @ (case session_step c sp e of None \<Rightarrow> [] | Some sp' \<Rightarrow> emission_run c sp' es)"

subsection \<open>What each operation keeps of the transmit side\<close>

definition transmit_view :: "session_protocol \<Rightarrow> nat \<times> (protocol_v5 \<times> u16 \<times> u64) option" where
  "transmit_view sp = (sp_transmit_generation sp,
     map_option (\<lambda>s. (s_codec s, s_hint s, s_next_counter s)) (sp_active sp))"

text \<open>Every session of a slot has sent only counters from 1 on, below its next counter.\<close>

definition counter_ok :: "session option \<Rightarrow> bool" where
  "counter_ok s = (case s of None \<Rightarrow> True | Some s \<Rightarrow> 1 \<le> unat (s_next_counter s) \<and> unat (s_next_counter s) \<le> 2 ^ 48)"

definition counters_ok :: "session_protocol \<Rightarrow> bool" where
  "counters_ok sp \<longleftrightarrow> counter_ok (sp_active sp) \<and> counter_ok (sp_pending sp) \<and> counter_ok (sp_previous sp)"

text \<open>An operation keeps the configuration, and it keeps the transmit view or begins a new generation.\<close>

definition transmit_keeps :: "session_protocol \<Rightarrow> session_protocol \<Rightarrow> bool" where
  "transmit_keeps sp sp' \<longleftrightarrow> config sp' = config sp \<and> (counters_ok sp \<longrightarrow> counters_ok sp') \<and>
     (transmit_view sp' = transmit_view sp \<or> sp_transmit_generation sp < sp_transmit_generation sp')"

lemma counter_ok_None [simp]: "counter_ok None"
  by (simp add: counter_ok_def)

lemma counter_ok_derive [simp]: "counter_ok (Some (derive sp i r x dh now))"
  by (simp add: counter_ok_def derive_sel)

lemma retire_sel [simp]:
  "sp_active (retire s sp) = sp_active sp" "sp_pending (retire s sp) = sp_pending sp"
  "sp_previous (retire s sp) = sp_previous sp" "sp_transmit_generation (retire s sp) = sp_transmit_generation sp"
  "sp_counters (retire s sp) = sp_counters sp" "sp_waiting_ack (retire s sp) = sp_waiting_ack sp"
  "sp_server (retire s sp) = sp_server sp" "sp_random_retry_after (retire s sp) = sp_random_retry_after sp"
  "sp_id (retire s sp) = sp_id sp" "sp_master (retire s sp) = sp_master sp" "sp_encrypt (retire s sp) = sp_encrypt sp"
  "sp_pfs (retire s sp) = sp_pfs sp" "sp_handshake (retire s sp) = sp_handshake sp"
  "sp_init_window (retire s sp) = sp_init_window sp"
  by (simp_all add: retire_def split: option.splits)

lemmas small_steps = count_def started_def completed_def reset_active_def reset_previous_def
  reset_pending_def expire_previous_def expire_pending_def random_failed_def promote_def Let_def
  transmit_keeps_def transmit_view_def counters_ok_def config_def

lemma transmit_keeps_refl [simp]: "transmit_keeps sp sp"
  by (simp add: transmit_keeps_def)

lemma transmit_keeps_trans [trans]:
  "transmit_keeps sp sp' \<Longrightarrow> transmit_keeps sp' sp'' \<Longrightarrow> transmit_keeps sp sp''"
  by (auto simp: transmit_keeps_def transmit_view_def)

lemma transmit_keeps_small [simp]:
  "transmit_keeps sp (count f sp)" "transmit_keeps sp (started sp)" "transmit_keeps sp (completed now sp)"
  "transmit_keeps sp (reset_previous sp)" "transmit_keeps sp (reset_pending sp)" "transmit_keeps sp (random_failed now sp)"
  "transmit_keeps sp (expired now sp)"
  by (auto simp: small_steps expired_def)

lemma transmit_keeps_retry [simp]:
  "transmit_keeps sp ((count f sp)\<lparr>sp_last_retry := now\<rparr>)"
  "transmit_keeps sp ((count f sp)\<lparr>sp_response_resend_after := now\<rparr>)"
  "transmit_keeps sp (sp\<lparr>sp_wall_high_water := w\<rparr>)"
  "transmit_keeps sp (sp\<lparr>sp_wall_high_water := w, sp_nonce_expiry := e, sp_seen_nonces := n\<rparr>)"
  by (auto simp: small_steps)

lemma transmit_keeps_begin: "transmit_keeps sp (snd (begin_handshake c rnd now wall sp))"
  by (auto simp: begin_handshake_def begin_flight_def small_steps split: option.splits)

lemma transmit_keeps_restart: "transmit_keeps sp (snd (restart c rnd now wall sp))"
proof -
  let ?sp = "(reset_pending (reset_previous (reset_active sp)))
    \<lparr>sp_waiting_ack := False, sp_flight := [], sp_client_init := [], sp_client_secret := replicate 32 0,
     sp_transmit_generation := sp_transmit_generation (reset_pending (reset_previous (reset_active sp))) + 1\<rparr>"
  have "transmit_keeps sp ?sp"
    by (auto simp: small_steps)
  from transmit_keeps_trans [OF this transmit_keeps_begin] show ?thesis
    by (simp add: restart_def Let_def)
qed

lemma transmit_keeps_flight_timeout: "transmit_keeps sp (flight_timeout sp)"
  by (auto simp: flight_timeout_def small_steps)

lemma transmit_keeps_tick: "transmit_keeps sp (snd (tick c rnd now wall sp))"
proof -
  let ?sp = "expired now sp"
  have "transmit_keeps ?sp (snd (tick c rnd now wall sp))"
    unfolding tick_def Let_def expired_def [symmetric]
    using transmit_keeps_begin transmit_keeps_trans [OF transmit_keeps_flight_timeout transmit_keeps_begin]
    by auto
  with transmit_keeps_trans [OF transmit_keeps_small(7)] show ?thesis .
qed

lemma transmit_keeps_answer:
  assumes "transmit_keeps sp sp0" "transmit_keeps sp keep"
  shows "transmit_keeps sp (snd (answer_init c rnd now p wire res sp0 keep))"
proof -
  have *: "transmit_keeps keep (started ((reset_previous keep)\<lparr>sp_pending := Some (derive keep i r x dh now),
        sp_pending_until := u, sp_response_resend_after := v\<rparr>))" for i r x dh u v
    by (auto simp: small_steps)
  show ?thesis
    using transmit_keeps_trans [OF assms(1) transmit_keeps_small(6)] transmit_keeps_trans [OF assms(2) *]
      transmit_keeps_trans [OF assms(2) transmit_keeps_small(1)]
    by (simp add: answer_init_def Let_def split: option.splits)
qed

lemma transmit_keeps_init: "transmit_keeps sp (snd (receive_init c rnd now wall p wire sp))"
proof -
  have repeated: "transmit_keeps sp (snd (repeated_init now wire res sp))" for res sp
    by (auto simp: repeated_init_def split: option.splits)
  have reserve: "transmit_keeps sp (reserve_nonce e n sp)" for e n sp
    by (auto simp: reserve_nonce_def small_steps)
  have admit: "transmit_keeps sp (snd (admit_init c rnd now p wire e res sp))" for e res sp
    using repeated reserve transmit_keeps_answer [OF transmit_keeps_refl reserve]
    by (auto simp: admit_init_def Let_def)
  have purge: "transmit_keeps sp (purge_expired e (sp\<lparr>sp_wall_high_water := w\<rparr>))" for e w
    by (auto simp: purge_expired_def small_steps split: prod.splits)
  show ?thesis
    unfolding receive_init_def Let_def if_distrib [of snd] snd_conv
    by (rule if_split [THEN iffD2]) (intro conjI impI transmit_keeps_retry transmit_keeps_trans [OF purge admit])
qed

lemma transmit_keeps_response: "transmit_keeps sp (snd (receive_response c now p wire sp))"
  by (auto simp: receive_response_def small_steps split: option.splits)

lemma transmit_keeps_confirm:
  "slot_session k sp = Some s \<Longrightarrow> transmit_keeps sp (snd (receive_confirm now k s p sp))"
  by (auto simp: receive_confirm_def small_steps slot_session_def split: slot.splits)

lemma transmit_keeps_confirm_ack: "transmit_keeps sp (snd (receive_confirm_ack now k s p sp))"
  by (auto simp: receive_confirm_ack_def small_steps)

lemma transmit_keeps_data:
  "slot_session k sp = Some s \<Longrightarrow> transmit_keeps sp (snd (receive_data now k s p sp))"
  by (cases k) (auto simp: receive_data_def small_steps slot_session_def set_slot_def counter_ok_def
      split: prod.splits)

lemma match_session_slot:
  "match_session ks wire sp = Some (k, s, p) \<Longrightarrow>
     k \<in> set ks \<and> slot_session k sp = Some s \<and> decode (s_codec s) wire = Some p \<and>
     s_hint s = ucast (drop_bit 48 (load_be64 (drop 1 wire)))"
  by (induction ks) (auto split: option.splits if_splits)

lemma transmit_keeps_session: "transmit_keeps sp (snd (snd (receive_session now wire sp)))"
proof (cases "match_session [Active, Pending, Previous] wire sp")
  case None
  then show ?thesis
    by (simp add: receive_session_def)
next
  case (Some m)
  obtain k s p where m: "m = (k, s, p)"
    by (rule prod_cases3)
  then have "slot_session k sp = Some s"
    using match_session_slot Some by blast
  then show ?thesis
    using transmit_keeps_confirm [of k sp s now p] transmit_keeps_confirm_ack [of sp now k s p]
      transmit_keeps_data [of k sp s now p]
    unfolding receive_session_def Some m by (simp add: split_beta)
qed

lemma transmit_keeps_receive: "transmit_keeps sp (snd (snd (receive c rnd wire now wall sp)))"
proof -
  let ?sp = "expired now sp"
  have "transmit_keeps ?sp (snd (snd (receive c rnd wire now wall sp)))"
    using transmit_keeps_init [of ?sp c rnd now wall _ wire] transmit_keeps_response [of ?sp c now _ wire]
      transmit_keeps_session [of ?sp now wire]
    by (simp add: receive_def Let_def expired_def [symmetric] split_beta split: option.split)
  with transmit_keeps_trans [OF transmit_keeps_small(7)] show ?thesis .
qed


lemma transmit_keeps_cleanup: "cleanup now sp = Some sp' \<Longrightarrow> transmit_keeps sp sp'"
proof -
  have slot: "transmit_keeps sp sp'" if clean: "cleanup_slot k now sp = Some sp'" for k sp sp'
  proof (cases "slot_session k sp")
    case None
    with clean show ?thesis
      by (simp add: cleanup_slot_def)
  next
    case (Some s)
    then obtain r where "sp' = (set_slot k (s\<lparr>s_reassembly := r\<rparr>) sp)\<lparr>sp_metrics := metrics r\<rparr>"
      using clean by (auto simp: cleanup_slot_def)
    with Some show ?thesis
      by (cases k) (simp_all add: slot_session_def set_slot_def small_steps counter_ok_def)
  qed
  assume "cleanup now sp = Some sp'"
  then obtain sp1 where "cleanup_slot Active now sp = Some sp1" "cleanup_slot Previous now sp1 = Some sp'"
    by (auto simp: cleanup_def bind_eq_Some_conv)
  then show "transmit_keeps sp sp'"
    by (rule transmit_keeps_trans [OF slot slot])
qed

lemma session_step_keeps:
  "session_step c sp e = Some sp' \<Longrightarrow> (\<forall>p. e \<noteq> Send_event p) \<Longrightarrow> transmit_keeps sp sp'"
  using transmit_keeps_receive transmit_keeps_tick transmit_keeps_restart transmit_keeps_cleanup
  by (cases e) auto

lemma session_step_config: "session_step c sp e = Some sp' \<Longrightarrow> config sp' = config sp"
  using session_step_keeps [of c sp e sp']
  by (cases e) (auto simp: transmit_keeps_def session_encode_def config_def Let_def split: option.splits if_splits)

subsection \<open>Transmit sequences\<close>

lemma counter_mask_eq: "counter_mask = mask 48"
  by (simp add: counter_mask_def mask_eq_exp_minus_1)

lemma ready_counter:
  "ready sp \<Longrightarrow> sp_active sp = Some s \<Longrightarrow>
     unat (s_next_counter s) \<le> (if sp_encrypt sp then 2 ^ 32 - 1 else 2 ^ 48 - 1)"
  by (auto simp: ready_def counter_mask_def word_le_nat_alt split: if_splits)

lemma wire_sequence_counter:
  assumes "unat (s_next_counter s) < 2 ^ 48"
  shows "next_wire_sequence s AND counter_mask = s_next_counter s"
proof -
  have "take_bit 48 (s_next_counter s) = s_next_counter s"
    using assms by (simp add: take_bit_eq_mod unat_arith_simps unat_mod)
  then have high: "\<not> bit (s_next_counter s) n" if "48 \<le> n" for n
    using that by (metis bit_take_bit_iff not_le)
  show ?thesis
    unfolding next_wire_sequence_def counter_mask_eq
    by (rule bit_eqI) (use high in \<open>auto simp: bit_simps not_le [symmetric]\<close>)
qed

text \<open>
  What any later emission satisfies: it belongs to a newer generation, or to the active
  session under a counter that has not been used.
\<close>

definition later :: "session_protocol \<Rightarrow> nat \<times> protocol_v5 \<times> u64 \<Rightarrow> bool" where
  "later sp = (\<lambda>(g, v, q). sp_transmit_generation sp < g \<or> g = sp_transmit_generation sp \<and>
     (\<exists>s. sp_active sp = Some s \<and> v = s_codec s \<and> unat (s_next_counter s) \<le> unat (q AND counter_mask)))"

lemma later_keeps: "transmit_keeps sp sp' \<Longrightarrow> later sp' x \<Longrightarrow> later sp x"
  by (cases x) (auto simp: later_def transmit_keeps_def transmit_view_def map_option_case split: option.splits)

definition within_limit :: "bool \<Rightarrow> nat \<times> protocol_v5 \<times> u64 \<Rightarrow> bool" where
  "within_limit encrypt = (\<lambda>(g, v, q). 1 \<le> unat (q AND counter_mask) \<and>
     unat (q AND counter_mask) \<le> (if encrypt then 2 ^ 32 - 1 else 2 ^ 48 - 1))"

lemma emission_run_ok:
  assumes "counters_ok sp"
  shows "(\<forall>x \<in> set (emission_run c sp es). later sp x \<and> within_limit (sp_encrypt sp) x) \<and>
    distinct (map (\<lambda>(g, v, q). (g, q)) (emission_run c sp es)) \<and>
    (\<forall>g v q v' q'. (g, v, q) \<in> set (emission_run c sp es) \<longrightarrow> (g, v', q') \<in> set (emission_run c sp es) \<longrightarrow> v = v')"
  using assms
proof (induction es arbitrary: sp)
  case Nil
  then show ?case by simp
next
  case (Cons e es)
  show ?case
  proof (cases "session_step c sp e")
    case None
    then have "emission sp e = []"
      by (cases e) auto
    with None show ?thesis by simp
  next
    case (Some sp')
    consider (send) p s where "e = Send_event p" "sp_active sp = Some s" "ready sp"
      | (idle) "emission sp e = []" "transmit_keeps sp sp'"
      using Some session_step_keeps [OF Some]
      by (cases e) (auto simp: session_encode_def split: option.splits if_splits)
    then show ?thesis
    proof cases
      case idle
      then have "counters_ok sp'" "sp_encrypt sp' = sp_encrypt sp"
        using Cons.prems by (auto simp: transmit_keeps_def config_def)
      with Cons.IH [of sp'] idle Some later_keeps show ?thesis
        by auto
    next
      case send
      let ?n = "s_next_counter s" and ?g = "sp_transmit_generation sp"
      have sp': "sp' = sp\<lparr>sp_active := Some (s\<lparr>s_next_counter := ?n + 1\<rparr>)\<rparr>"
        using Some send by (simp add: session_encode_def Let_def)
      have lim: "1 \<le> unat ?n" "unat ?n \<le> (if sp_encrypt sp then 2 ^ 32 - 1 else 2 ^ 48 - 1)"
        using Cons.prems send ready_counter [of sp s] by (auto simp: counters_ok_def counter_ok_def)
      then have n: "unat ?n < 2 ^ 48"
        by (auto split: if_splits)
      then have suc: "unat (?n + 1) = unat ?n + 1"
        by (simp add: unat_word_ariths)
      have ok': "counters_ok sp'" "sp_encrypt sp' = sp_encrypt sp"
        using Cons.prems n suc by (auto simp: sp' counters_ok_def counter_ok_def)
      note IH = Cons.IH [OF ok'(1), unfolded ok'(2)]
      define R where "R = emission_run c sp' es"
      define h where "h = (?g, s_codec s, next_wire_sequence s)"
      have run: "emission_run c sp (e # es) = h # R"
        using send Some by (simp add: R_def h_def)
      have newer: "later sp x \<and> (\<forall>v q. x = (?g, v, q) \<longrightarrow> v = s_codec s \<and> unat ?n < unat (q AND counter_mask))"
        if "x \<in> set R" for x
        using IH that suc by (fastforce simp: later_def sp' send R_def split: prod.splits)
      have "later sp h" "within_limit (sp_encrypt sp) h"
        using lim send wire_sequence_counter [OF n] by (auto simp: later_def within_limit_def h_def)
      moreover have "(?g, next_wire_sequence s) \<notin> set (map (\<lambda>(g, v, q). (g, q)) R)"
        using newer wire_sequence_counter [OF n] by fastforce
      moreover have "v = s_codec s" if "(?g, v, q) \<in> set R" for v q
        using newer [OF that] by blast
      ultimately show ?thesis
        unfolding run using IH newer by (fastforce simp: h_def R_def)
    qed
  qed
qed




end
