(* ===== verification/Session_Init.thy ===== *)
theory Session_Init
  imports Session_Run
begin

text \<open>
  Replay protection of the handshake: the server answers no INIT datagram with new keys
  twice, although the nonces it remembers expire and are bounded.
\<close>

subsection \<open>INIT datagrams\<close>

definition init_accept :: "crypto \<Rightarrow> session_protocol \<Rightarrow> session_event \<Rightarrow> bool \<times> session_protocol" where
  "init_accept c sp e =
     (case session_step c sp e of
        None \<Rightarrow> (False, sp)
      | Some sp' \<Rightarrow> (handshake_started (sp_counters sp) < handshake_started (sp_counters sp'), sp'))"

fun event_wire :: "session_event \<Rightarrow> bytes" where
  "event_wire (Receive_event rnd wire now wall) = wire"
| "event_wire _ = []"

definition nonce_view :: "session_protocol \<Rightarrow> bytes list \<times> (u64 \<times> bytes) list \<times> int \<times> nat" where
  "nonce_view sp = (sp_seen_nonces sp, sp_nonce_expiry sp, sp_wall_high_water sp, handshake_started (sp_counters sp))"

text \<open>The expiry index is ordered, and both indexes hold the same nonces, each once.\<close>

definition nonces_ok :: "session_protocol \<Rightarrow> bool" where
  "nonces_ok sp \<longleftrightarrow> sorted (map fst (sp_nonce_expiry sp)) \<and> distinct (map snd (sp_nonce_expiry sp)) \<and>
     set (sp_seen_nonces sp) = snd ` set (sp_nonce_expiry sp)"

lemma purge_nonces_eq:
  "sorted (map fst expiry) \<Longrightarrow> distinct (map snd expiry) \<Longrightarrow> set seen = snd ` set expiry \<Longrightarrow>
     purge_nonces current expiry seen = (expiry', seen') \<Longrightarrow>
     expiry' = filter (\<lambda>(e, n). current \<le> e) expiry \<and> set seen' = snd ` set expiry'"
proof (induction current expiry seen rule: purge_nonces.induct)
  case (1 current seen)
  then show ?case by simp
next
  case (2 current e nonce rest seen)
  show ?case
  proof (cases "e < current")
    case True
    with 2 show ?thesis by simp
  next
    case False
    then have "\<forall>x \<in> set ((e, nonce) # rest). case x of (e, n) \<Rightarrow> current \<le> e"
      using 2(2) by (fastforce simp: not_less)
    then have "filter (\<lambda>(e, n). current \<le> e) ((e, nonce) # rest) = (e, nonce) # rest"
      by (simp only: filter_id_conv)
    with False 2(4,5) show ?thesis by auto
  qed
qed

lemma purge_expired_ok:
  assumes "nonces_ok sp"
  shows "nonces_ok (purge_expired current sp)"
    "set (sp_nonce_expiry (purge_expired current sp)) = {(e, n) \<in> set (sp_nonce_expiry sp). current \<le> e}"
proof -
  obtain expiry seen where purge: "purge_nonces current (sp_nonce_expiry sp) (sp_seen_nonces sp) = (expiry, seen)"
    by force
  have "expiry = filter (\<lambda>(e, n). current \<le> e) (sp_nonce_expiry sp)" "set seen = snd ` set expiry"
    using assms purge_nonces_eq [OF _ _ _ purge] by (simp_all add: nonces_ok_def)
  then show "nonces_ok (purge_expired current sp)"
    "set (sp_nonce_expiry (purge_expired current sp)) = {(e, n) \<in> set (sp_nonce_expiry sp). current \<le> e}"
    using assms purge by (auto simp: nonces_ok_def purge_expired_def sorted_filter distinct_map_filter)
qed

lemma set_multimap_emplace: "set (multimap_emplace k v m) = insert (k, v) (set m)"
proof -
  have "set m = set (takeWhile (\<lambda>(k', v'). k' \<le> k) m) \<union> set (dropWhile (\<lambda>(k', v'). k' \<le> k) m)"
    by (metis set_append takeWhile_dropWhile_id)
  then show ?thesis
    by (auto simp: multimap_emplace_def)
qed

lemma sorted_multimap_emplace: "sorted (map fst m) \<Longrightarrow> sorted (map fst (multimap_emplace k v m))"
  by (induction m) (auto simp: multimap_emplace_def dest: set_takeWhileD set_dropWhileD)

lemma reserve_nonce_ok:
  assumes "nonces_ok sp" "nonce \<notin> set (sp_seen_nonces sp)"
  shows "nonces_ok (reserve_nonce e nonce sp)"
    "set (sp_nonce_expiry (reserve_nonce e nonce sp)) = insert (e, nonce) (set (sp_nonce_expiry sp))"
proof -
  have "distinct (map snd (multimap_emplace e nonce (sp_nonce_expiry sp)))"
  proof -
    let ?m = "sp_nonce_expiry sp" and ?P = "\<lambda>(k', v' :: bytes). k' \<le> e"
    have "distinct (map snd (takeWhile ?P ?m @ dropWhile ?P ?m))" "nonce \<notin> set (map snd (takeWhile ?P ?m @ dropWhile ?P ?m))"
      using assms by (auto simp: nonces_ok_def)
    then show ?thesis
      unfolding multimap_emplace_def map_append by auto
  qed
  then show "nonces_ok (reserve_nonce e nonce sp)"
    using assms by (auto simp: nonces_ok_def reserve_nonce_def sorted_multimap_emplace set_multimap_emplace)
  show "set (sp_nonce_expiry (reserve_nonce e nonce sp)) = insert (e, nonce) (set (sp_nonce_expiry sp))"
    by (simp add: reserve_nonce_def set_multimap_emplace)
qed

subsection \<open>Operations that leave the nonce indexes alone\<close>

lemma nonce_view_small [simp]:
  "handshake_started (f (sp_counters sp)) = handshake_started (sp_counters sp) \<Longrightarrow> nonce_view (count f sp) = nonce_view sp"
  "nonce_view (completed now sp) = nonce_view sp" "nonce_view (retire s sp) = nonce_view sp"
  "nonce_view (promote cand now sp) = nonce_view sp" "nonce_view (expired now sp) = nonce_view sp"
  "nonce_view (random_failed now sp) = nonce_view sp" "nonce_view (reset_previous sp) = nonce_view sp"
  by (auto simp: nonce_view_def session_defs expired_def split: option.splits)

lemma nonce_view_session: "nonce_view (snd (snd (receive_session now wire sp))) = nonce_view sp"
proof -
  have "nonce_view (snd (receive_confirm now k s p sp)) = nonce_view sp" for k s p
  proof -
    have "nonce_view ((promote s now sp)\<lparr>sp_pending := None\<rparr>) = nonce_view (promote s now sp)"
      by (simp add: nonce_view_def)
    then show ?thesis
      by (simp add: receive_confirm_def Let_def)
  qed
  moreover have "nonce_view (snd (receive_confirm_ack now k s p sp)) = nonce_view sp" for k s p
    by (simp add: receive_confirm_ack_def Let_def) (simp add: nonce_view_def)
  moreover have "nonce_view (snd (receive_data now k s p sp)) = nonce_view sp" for k s p
    by (cases k) (simp_all add: receive_data_def set_slot_def nonce_view_def split_beta Let_def)
  ultimately show ?thesis
    by (cases "match_session [Active, Pending, Previous] wire sp")
      (simp_all add: receive_session_def split_beta del: match_session.simps)
qed

lemma nonce_view_cleanup: "cleanup now sp = Some sp' \<Longrightarrow> nonce_view sp' = nonce_view sp"
proof -
  have slot: "nonce_view sp' = nonce_view sp" if "cleanup_slot k now sp = Some sp'" for k sp sp'
    using that by (cases k) (auto simp: cleanup_slot_def set_slot_def nonce_view_def split: option.splits)
  then show "cleanup now sp = Some sp' \<Longrightarrow> nonce_view sp' = nonce_view sp"
    by (auto simp: cleanup_def bind_eq_Some_conv)
qed


lemma server_quiet:
  assumes "sp_server sp" "session_step c sp e = Some sp'" "\<forall>rnd wire now wall. e \<noteq> Receive_event rnd wire now wall"
  shows "nonce_view sp' = nonce_view sp"
proof (cases e)
  case (Tick_event rnd now wall)
  then have "sp' = expired now sp"
    using assms(1,2) by (auto simp: tick_def Let_def expired_def [symmetric])
  then show ?thesis by simp
next
  case (Send_event p)
  with assms show ?thesis
    by (auto simp: session_encode_def nonce_view_def Let_def split: option.splits)
qed (use assms nonce_view_cleanup in \<open>auto simp: restart_def\<close>)

lemma server_receive:
  assumes "sp_server sp" "sp' = snd (snd (receive c rnd wire now wall sp))"
  shows "nonce_view sp' = nonce_view sp \<or>
    (\<exists>p. decode (sp_handshake sp) wire = Some p \<and> sp' = snd (receive_init c rnd now wall p wire (expired now sp)))"
proof -
  have "nonce_view (snd (snd (receive_session now wire (expired now sp)))) = nonce_view sp"
    using nonce_view_session by simp
  then show ?thesis
    using assms by (simp add: receive_def Let_def expired_def [symmetric] split_beta split: option.split)
qed

subsection \<open>What an INIT does to the nonce indexes\<close>

lemma nonce_view_started:
  "nonce_view (started sp) = (sp_seen_nonces sp, sp_nonce_expiry sp, sp_wall_high_water sp, handshake_started (sp_counters sp) + 1)"
  by (simp add: nonce_view_def started_def count_def Let_def)

lemma answer_init_view:
  fixes c rnd now p wire res sp keep
  defines "v \<equiv> nonce_view (snd (answer_init c rnd now p wire res sp keep))"
  shows "v = nonce_view sp \<or> v = nonce_view keep \<or>
    v = (sp_seen_nonces keep, sp_nonce_expiry keep, sp_wall_high_water keep, handshake_started (sp_counters keep) + 1)"
proof -
  have "nonce_view (started ((reset_previous keep)\<lparr>sp_pending := a, sp_pending_until := b, sp_response_resend_after := d\<rparr>)) =
      (sp_seen_nonces keep, sp_nonce_expiry keep, sp_wall_high_water keep, handshake_started (sp_counters keep) + 1)" for a b d
    using nonce_view_small(7) [of keep, unfolded nonce_view_def] by (simp add: nonce_view_started)
  then show ?thesis
    unfolding v_def by (simp add: answer_init_def Let_def split: option.split)
qed

text \<open>Either nothing starts and no remembered nonce is lost, or an unknown nonce is recorded.\<close>

lemma admit_init_effect:
  assumes "nonces_ok sp" "sp' = snd (admit_init c rnd now p wire e res sp)" "nonce = take 32 (pk_payload p)"
  shows "nonces_ok sp'" "sp_wall_high_water sp' = sp_wall_high_water sp"
    "set (sp_nonce_expiry sp) \<subseteq> set (sp_nonce_expiry sp')"
    "handshake_started (sp_counters sp') = handshake_started (sp_counters sp) \<or>
     nonce \<notin> set (sp_seen_nonces sp) \<and> (e, nonce) \<in> set (sp_nonce_expiry sp')"
proof -
  let ?keep = "reserve_nonce e nonce sp"
  consider (same) "nonce_view sp' = nonce_view sp"
    | (keep) "nonce \<notin> set (sp_seen_nonces sp)" "nonce_view sp' = nonce_view ?keep \<or>
        nonce_view sp' = (sp_seen_nonces ?keep, sp_nonce_expiry ?keep, sp_wall_high_water ?keep,
          handshake_started (sp_counters ?keep) + 1)"
  proof -
    have "nonce_view (snd (repeated_init now wire res sp)) = nonce_view sp"
      by (simp add: repeated_init_def split: option.split) (simp add: nonce_view_def count_def)
    then show ?thesis
      using assms(2,3) that answer_init_view [of c rnd now p wire res sp ?keep]
      by (auto simp: admit_init_def Let_def split: if_splits)
  qed
  then have "nonces_ok sp' \<and> sp_wall_high_water sp' = sp_wall_high_water sp \<and>
    set (sp_nonce_expiry sp) \<subseteq> set (sp_nonce_expiry sp') \<and>
    (handshake_started (sp_counters sp') = handshake_started (sp_counters sp) \<or>
     nonce \<notin> set (sp_seen_nonces sp) \<and> (e, nonce) \<in> set (sp_nonce_expiry sp'))"
  proof cases
    case same
    then show ?thesis
      using assms(1) by (simp add: nonce_view_def nonces_ok_def)
  next
    case keep
    note r = reserve_nonce_ok [OF assms(1) keep(1), of e]
    have eq: "sp_seen_nonces sp' = sp_seen_nonces ?keep" "sp_nonce_expiry sp' = sp_nonce_expiry ?keep"
        "sp_wall_high_water sp' = sp_wall_high_water sp"
      using keep(2) by (auto simp: nonce_view_def)
    show ?thesis
      using r keep(1) unfolding nonces_ok_def eq by auto
  qed
  then show "nonces_ok sp'" "sp_wall_high_water sp' = sp_wall_high_water sp"
    "set (sp_nonce_expiry sp) \<subseteq> set (sp_nonce_expiry sp')"
    "handshake_started (sp_counters sp') = handshake_started (sp_counters sp) \<or>
     nonce \<notin> set (sp_seen_nonces sp) \<and> (e, nonce) \<in> set (sp_nonce_expiry sp')"
    by blast+
qed


subsection \<open>The server as a replay filter of INIT datagrams\<close>

definition stamp_of :: "packet \<Rightarrow> u64" where
  "stamp_of p = load_be64 (drop 32 (pk_payload p))"

text \<open>An answered INIT is still remembered, or its time stamp lies too far in the past.\<close>

definition answered :: "session_protocol \<Rightarrow> bytes \<Rightarrow> bool" where
  "answered sp wire \<longleftrightarrow> (\<exists>p. decode (sp_handshake sp) wire = Some p \<and>
     (let half = sp_init_window sp div 2; expiry = unat (stamp_of p) + half
      in expiry < 2 ^ 64 \<and>
         ((of_nat expiry, take 32 (pk_payload p)) \<in> set (sp_nonce_expiry sp) \<or>
          int expiry < sp_wall_high_water sp)))"

definition init_history :: "bytes set \<Rightarrow> session_protocol \<Rightarrow> bool" where
  "init_history H sp \<longleftrightarrow> sp_server sp \<and> sp_init_window sp \<le> 86400 \<and> nonces_ok sp \<and>
     0 \<le> sp_wall_high_water sp \<and> sp_wall_high_water sp < 2 ^ 63 \<and> (\<forall>wire \<in> H. answered sp wire)"

lemma unat_clock:
  assumes "0 \<le> w" "w < 2 ^ 63"
  shows "unat (word_of_int w :: u64) = nat w"
  using assms by (simp add: unat_eq_nat_uint uint_word_of_int)

lemma clock_distance_le:
  "unat (clock_distance stamp current) \<le> half \<longleftrightarrow>
     unat stamp \<le> unat current + half \<and> unat current \<le> unat stamp + half"
proof -
  have "unat (a - b) = unat a - unat b" if "b \<le> a" for a b :: u64
    using that by (simp add: unat_sub)
  then show ?thesis
    by (auto simp: clock_distance_def word_less_nat_alt word_le_nat_alt not_less)
qed

lemma init_history_quiet:
  assumes "init_history H sp" "nonce_view sp' = nonce_view sp" "config sp' = config sp"
  shows "init_history H sp'" "\<not> handshake_started (sp_counters sp) < handshake_started (sp_counters sp')"
  using assms config_sel [OF assms(3)] by (auto simp: init_history_def nonce_view_def nonces_ok_def answered_def)

lemma receive_init_eq:
  "\<exists>res. receive_init c rnd now wall p wire sp =
     (let hw = max (sp_wall_high_water sp) (max 0 wall); current = word_of_int hw; half = sp_init_window sp div 2;
          sp0 = sp\<lparr>sp_wall_high_water := hw\<rparr>
      in if half < unat (clock_distance (stamp_of p) current) then (res, sp0)
         else admit_init c rnd now p wire (stamp_of p + of_nat half) res (purge_expired current sp0))"
  by (rule exI [of _ "clock_result (stamp_of p) (word_of_int (max (sp_wall_high_water sp) (max 0 wall))) (sp_init_window sp div 2)"])
    (simp add: receive_init_def clock_result_def stamp_of_def Let_def)

lemma init_history_init:
  assumes hist: "init_history H sp" and dec: "decode (sp_handshake sp) wire = Some p" and wall: "wall < 2 ^ 63"
    and sp': "sp' = snd (receive_init c rnd now wall p wire sp)"
  shows "config sp' = config sp"
    "init_history H sp'"
    "handshake_started (sp_counters sp) < handshake_started (sp_counters sp') \<Longrightarrow>
       wire \<notin> H \<and> init_history (insert wire H) sp'"
proof -
  define hw where "hw = max (sp_wall_high_water sp) (max 0 wall)"
  define current where "current = (word_of_int hw :: u64)"
  define half where "half = sp_init_window sp div 2"
  define sp0 where "sp0 = sp\<lparr>sp_wall_high_water := hw\<rparr>"
  define sp1 where "sp1 = purge_expired current sp0"
  let ?stamp = "stamp_of p" and ?nonce = "take 32 (pk_payload p)"
  define e where "e = ?stamp + of_nat half"
  show cfg: "config sp' = config sp"
    using transmit_keeps_init [of sp c rnd now wall p wire] by (simp add: sp' transmit_keeps_def)
  note sel = config_sel [OF cfg]
  have hw: "0 \<le> hw" "hw < 2 ^ 63" "unat current = nat hw" "sp_wall_high_water sp \<le> hw"
    using hist wall unat_clock [of hw] by (auto simp: hw_def init_history_def current_def)
  have half: "half \<le> 43200"
    using hist unfolding half_def init_history_def by linarith
  have ok0: "nonces_ok sp0"
    using hist by (simp add: sp0_def init_history_def nonces_ok_def)
  note pu = purge_expired_ok [OF ok0, of current, folded sp1_def]
  have kept: "(of_nat x, n) \<in> set (sp_nonce_expiry sp1) \<or> int x < hw"
    if "(of_nat x, n) \<in> set (sp_nonce_expiry sp) \<or> int x < sp_wall_high_water sp" "x < 2 ^ 64" for x n
  proof -
    have "unat (of_nat x :: u64) = x"
      using that(2) by (simp add: unat_of_nat take_bit_nat_eq_self)
    then have "\<not> current \<le> of_nat x \<longleftrightarrow> int x < hw"
      using hw by (auto simp: word_le_nat_alt)
    then show ?thesis
      using that(1) hw(4) pu(2) by (auto simp: sp0_def)
  qed
  consider (rejected) "\<not> unat (clock_distance ?stamp current) \<le> half" "sp' = sp0"
    | (admitted) res where "unat (clock_distance ?stamp current) \<le> half"
        "sp' = snd (admit_init c rnd now p wire e res sp1)"
  proof -
    obtain res where "receive_init c rnd now wall p wire sp =
       (if half < unat (clock_distance ?stamp current) then (res, sp0) else admit_init c rnd now p wire e res sp1)"
      using receive_init_eq [of c rnd now wall p wire sp]
      by (auto simp only: Let_def hw_def current_def half_def sp0_def sp1_def e_def)
    then show ?thesis
      using that sp' by (cases "half < unat (clock_distance ?stamp current)") simp_all
  qed
  then have "init_history H sp' \<and> (handshake_started (sp_counters sp) < handshake_started (sp_counters sp') \<longrightarrow>
       wire \<notin> H \<and> init_history (insert wire H) sp')"
  proof cases
    case rejected
    then have "init_history H sp'"
      using hist ok0 hw by (auto simp: init_history_def sp0_def answered_def Let_def intro: less_le_trans)
    then show ?thesis
      by (simp add: rejected sp0_def)
  next
    case admitted
    note ad = admit_init_effect [OF pu(1) admitted(2) refl]
    have near: "unat ?stamp \<le> nat hw + half" "nat hw \<le> unat ?stamp + half"
      using admitted(1) clock_distance_le [of ?stamp current half] hw(3) by auto
    have nowrap: "unat ?stamp + half < 2 ^ 64" "e = of_nat (unat ?stamp + half)"
      using near hw half by (auto simp: e_def)
    have hw': "sp_wall_high_water sp' = hw"
      using ad(2) by (simp add: sp1_def sp0_def)
    have old: "answered sp' w" if "w \<in> H" for w
    proof -
      have "answered sp w"
        using hist that by (simp add: init_history_def)
      note ans = this [unfolded answered_def Let_def, folded half_def]
      obtain q where q: "decode (sp_handshake sp) w = Some q" "unat (stamp_of q) + half < 2 ^ 64"
        "(of_nat (unat (stamp_of q) + half), take 32 (pk_payload q)) \<in> set (sp_nonce_expiry sp) \<or>
           int (unat (stamp_of q) + half) < sp_wall_high_water sp"
        using ans by (elim exE conjE)
      have "(of_nat (unat (stamp_of q) + half), take 32 (pk_payload q)) \<in> set (sp_nonce_expiry sp') \<or>
           int (unat (stamp_of q) + half) < sp_wall_high_water sp'"
        using kept [OF q(3,2)] ad(3) hw' by blast
      with q(1,2) show ?thesis
        unfolding answered_def Let_def sel half_def [symmetric] by (intro exI [of _ q] conjI)
    qed
    then have hist': "init_history H sp'"
      using hist ad(1) hw hw' sel by (simp add: init_history_def)
    moreover have "wire \<notin> H \<and> answered sp' wire"
      if "handshake_started (sp_counters sp) < handshake_started (sp_counters sp')"
    proof -
      have fresh: "?nonce \<notin> set (sp_seen_nonces sp1)" "(e, ?nonce) \<in> set (sp_nonce_expiry sp')"
        using that ad(4) by (auto simp: sp1_def sp0_def)
      have "wire \<notin> H"
      proof
        assume "wire \<in> H"
        then have "(of_nat (unat ?stamp + half), ?nonce) \<in> set (sp_nonce_expiry sp1) \<or> int (unat ?stamp + half) < hw"
          using hist dec kept [of "unat ?stamp + half" ?nonce] by (auto simp: init_history_def answered_def Let_def half_def)
        then show False
        proof
          assume "(of_nat (unat ?stamp + half), ?nonce) \<in> set (sp_nonce_expiry sp1)"
          then have "?nonce \<in> snd ` set (sp_nonce_expiry sp1)"
            by (rule rev_image_eqI) simp
          with fresh(1) pu(1) show False
            by (simp add: nonces_ok_def)
        next
          assume "int (unat ?stamp + half) < hw"
          with near(2) show False
            by linarith
        qed
      qed
      moreover have "answered sp' wire"
        using dec fresh(2) nowrap sel by (auto simp: answered_def Let_def half_def)
      ultimately show ?thesis ..
    qed
    ultimately show ?thesis
      by (auto simp: init_history_def)
  qed
  then show "init_history H sp'"
    "handshake_started (sp_counters sp) < handshake_started (sp_counters sp') \<Longrightarrow>
       wire \<notin> H \<and> init_history (insert wire H) sp'"
    by blast+
qed


lemma init_accept_step:
  assumes "init_history H sp" "init_accept c sp e = (ok, sp')"
  shows "init_history H sp'" "ok \<Longrightarrow> event_wire e \<notin> H \<and> init_history (insert (event_wire e) H) sp'"
proof -
  have server: "sp_server sp"
    using assms(1) by (simp add: init_history_def)
  have "init_history H sp' \<and> (ok \<longrightarrow> event_wire e \<notin> H \<and> init_history (insert (event_wire e) H) sp')"
  proof (cases "session_step c sp e")
    case None
    with assms show ?thesis
      by (simp add: init_accept_def)
  next
    case (Some sp1)
    then have sp': "sp1 = sp'" and ok: "ok = (handshake_started (sp_counters sp) < handshake_started (sp_counters sp'))"
      using assms(2) by (auto simp: init_accept_def)
    have cfg: "config sp' = config sp"
      using session_step_config [OF Some] sp' by simp
    show ?thesis
    proof (cases "nonce_view sp' = nonce_view sp")
      case True
      with init_history_quiet [OF assms(1) True cfg] ok show ?thesis
        by simp
    next
      case False
      then obtain rnd wire now wall where e: "e = Receive_event rnd wire now wall"
        using server_quiet [OF server Some] sp' by blast
      then obtain p where p: "decode (sp_handshake sp) wire = Some p"
          "sp' = snd (receive_init c rnd now (sint wall) p wire (expired now sp))"
        using server_receive [OF server, of sp' c rnd wire now "sint wall"] Some sp' False by auto
      have hist0: "init_history H (expired now sp)"
        by (rule init_history_quiet(1) [OF assms(1)]) simp_all
      have "sint wall < 2 ^ 63"
        using sint_lt [of wall] by simp
      note i = init_history_init [OF hist0 _ this p(2)]
      show ?thesis
        using i(2,3) p(1) ok e by simp
    qed
  qed
  then show "init_history H sp'" "ok \<Longrightarrow> event_wire e \<notin> H \<and> init_history (insert (event_wire e) H) sp'"
    by blast+
qed

lemma init_history_start:
  "SessionProtocol tid master True mtu encrypt window pfs = Inr sp \<Longrightarrow> init_history {} sp"
  by (auto simp: SessionProtocol_def init_history_def nonces_ok_def split: if_splits)

text \<open>The server with the default window, as the constructor's default argument has it.\<close>

definition default_server :: "u16 \<Rightarrow> bytes \<Rightarrow> nat \<Rightarrow> bool \<Rightarrow> bool \<Rightarrow> session_protocol" where
  "default_server tid master mtu encrypt pfs = projr (SessionProtocol tid master True mtu encrypt 300 pfs)"

interpretation server: replay_filter "init_accept c" event_wire "default_server tid master mtu encrypt pfs" init_history
  for c tid master mtu encrypt pfs
proof unfold_locales
  have "\<exists>sp. SessionProtocol tid master True mtu encrypt 300 pfs = Inr sp"
    by (simp add: SessionProtocol_def)
  then show "init_history {} (default_server tid master mtu encrypt pfs)"
    using init_history_start by (auto simp: default_server_def)
qed (use init_accept_step in \<open>blast+\<close>)

text \<open>
  C12. No INIT is answered twice: in any run of a server, with any INIT window the constructor
  accepts, any clocks and any interleaving with other operations, the datagrams for which
  it derives new keys are pairwise different. The nonces it remembers expire, but only
  after the time stamp of their INIT has left the window for good.
\<close>

theorem init_answered_once:
  assumes "SessionProtocol tid master True mtu encrypt window pfs = Inr sp"
  shows "distinct (map event_wire (accepted_run (init_accept c) sp es))"
  using server.run_fresh [OF init_history_start [OF assms]] by blast

theorem init_answered_once_witness:
  "\<exists>c rnd rnd' cl sv init. SessionProtocol 7 (replicate 16 1) False 1500 True 300 False = Inr cl \<and>
     SessionProtocol 7 (replicate 16 1) True 1500 True 300 False = Inr sv \<and>
     init = fst (begin_handshake c rnd 0 1000 cl) \<and>
     distinct (map event_wire (accepted_run (init_accept c) sv
       [Receive_event rnd init 1 1000, Receive_event rnd' init (seconds 60) 1060]))"
proof -
  obtain sv where sv: "SessionProtocol 7 (replicate 16 1) True 1500 True 300 False = Inr sv"
    by (simp add: SessionProtocol_def)
  obtain cl where cl: "SessionProtocol 7 (replicate 16 1) False 1500 True 300 False = Inr cl"
    by (simp add: SessionProtocol_def)
  show ?thesis
    using sv cl init_answered_once [OF sv] by blast
qed

end
