(* ===== verification/Session_Delivery.thy ===== *)
theory Session_Delivery
  imports Session_Run
begin

text \<open>
  What the receive path hands to the tunnel: only authentic, fresh packets of confirmed
  sessions, and every such packet a peer sends.
\<close>

lemma receive_data_delivers:
  assumes "receive_data now k s p sp = (res, sp')" "rx_data res"
  shows "k \<noteq> Pending" "metadata_type (pk_type p) \<longrightarrow> k = Active" "rx_session res = Some k"
    "fst (replay_accept (s_replay s) (pk_sequence p AND counter_mask))"
    "slot_session k sp' = Some (s\<lparr>s_replay := snd (replay_accept (s_replay s) (pk_sequence p AND counter_mask))\<rparr>)"
  using assms
  by (cases k; auto simp: receive_data_def received_init_def set_slot_def slot_session_def split_beta Let_def
      split: if_splits)+

lemma receive_init_no_data: "\<not> rx_data (fst (receive_init c rnd now wall p wire sp))"
proof -
  have ans: "rx_data (fst (answer_init c rnd now p wire res sp keep)) = rx_data res" for res sp keep
    by (simp add: answer_init_def Let_def split: option.split)
  have "rx_data (fst (repeated_init now wire res sp)) = rx_data res" for res sp
    by (simp add: repeated_init_def split: option.split)
  with ans have "rx_data (fst (admit_init c rnd now p wire e res sp)) = rx_data res" for e res sp
    by (simp add: admit_init_def Let_def)
  then show ?thesis
    by (simp add: receive_init_def clock_result_def received_init_def Let_def)
qed

lemma receive_response_no_data: "\<not> rx_data (fst (receive_response c now p wire sp))"
  by (simp add: receive_response_def received_init_def Let_def split: option.split)

lemma receive_session_delivers:
  assumes "receive_session now wire sp = (res, q, sp')" "rx_data res"
  obtains k s p where "match_session [Active, Pending, Previous] wire sp = Some (k, s, p)" "q = Some p"
    "pk_type p \<noteq> pt_confirm" "pk_type p \<noteq> pt_confirm_ack" "receive_data now k s p sp = (res, sp')"
proof (cases "match_session [Active, Pending, Previous] wire sp")
  case None
  with assms show ?thesis
    by (auto simp: receive_session_def received_init_def simp del: match_session.simps)
next
  case (Some m)
  obtain k s p where m: "m = (k, s, p)"
    by (rule prod_cases3)
  have "\<not> rx_data (fst (receive_confirm now k s p sp))" "\<not> rx_data (fst (receive_confirm_ack now k s p sp))"
    by (simp_all add: receive_confirm_def receive_confirm_ack_def received_init_def Let_def)
  then show ?thesis
    using assms Some m that [of k s p]
    by (auto simp: receive_session_def split_beta simp del: match_session.simps split: if_splits)
qed

lemma receive_delivers_session:
  assumes "receive c rnd wire now wall sp = (res, q, sp')" "rx_data res"
  shows "receive_session now wire (expired now sp) = (res, q, sp')"
  using assms receive_init_no_data [of c rnd now wall _ wire "expired now sp"]
    receive_response_no_data [of c now _ wire "expired now sp"]
  by (auto simp: receive_def Let_def expired_def [symmetric] received_init_def split_beta
      split: if_splits option.splits)

subsection \<open>Delivery between peers\<close>

lemma next_wire_sequence_hint:
  assumes "unat (s_next_counter s) < 2 ^ 48"
  shows "ucast (drop_bit 48 (next_wire_sequence s)) = s_hint s"
proof -
  have high: "\<not> bit (s_next_counter s) n" if "48 \<le> n" for n
    using wire_sequence_counter [OF assms] that
    by (metis bit_and_iff bit_mask_iff counter_mask_eq not_le)
  show ?thesis
    unfolding next_wire_sequence_def
    by (rule bit_eqI) (use high in \<open>auto simp: bit_simps dest: bit_lt_16\<close>)
qed

lemma receive_active_data:
  assumes "sp_active sp = Some s" "decode (s_codec s) wire = Some p" "s_hint s = ucast (drop_bit 48 (pk_sequence p))"
    and "pk_type p \<notin> {pt_init, pt_response, pt_confirm, pt_confirm_ack}"
    and "fst (replay_accept (s_replay s) (pk_sequence p AND counter_mask))"
  shows "\<exists>res sp'. receive c rnd wire now wall sp = (res, Some p, sp') \<and> rx_data res \<and> rx_session res = Some Active"
proof -
  note h = decoded_header [OF assms(2)]
  have m: "match_session [Active, Pending, Previous] wire (expired now sp) = Some (Active, s, p)"
    using assms(1-3) h(3) by (simp add: slot_session_def)
  have "receive c rnd wire now wall sp = receive_session now wire (expired now sp)"
    using assms(4) h by (simp add: receive_def Let_def expired_def [symmetric])
  moreover have "\<exists>res sp'. receive_data now Active s p (expired now sp) = (res, sp') \<and> rx_data res \<and> rx_session res = Some Active"
    using assms(5) by (simp add: receive_data_def Let_def split_beta)
  ultimately show ?thesis
    using assms(4) m by (auto simp: receive_session_def simp del: match_session.simps)
qed

text \<open>A concrete pair of established sessions, and a ping from the client to the server.\<close>

definition sample_ping :: packet where
  "sample_ping = \<lparr>pk_type = pt_ping, pk_tunnel_id = 7, pk_protocol_version = 5, pk_sequence = 0,
     pk_message_id = 3, pk_fragment_offset = 0, pk_original_length = 0, pk_payload = []\<rparr>"

lemma sample_sessions:
  obtains cl a b wire cl' and sv :: session_protocol where "sp_active cl = Some a" "sp_active sv = Some b"
    "peers (s_codec a) (s_codec b)" "s_hint a = s_hint b" "s_next_counter a = 1" "s_replay b = replay_window_init"
    "pv_tunnel_id (s_codec b) = 7" "session_encode sample_ping cl = (Inr (Some wire), cl')" "ready cl"
    "encode_into (s_codec a) (sample_ping\<lparr>pk_sequence := next_wire_sequence a\<rparr>) = Inr wire"
proof -
  obtain cl0 where cl0: "SessionProtocol 7 (replicate 16 1) False 1500 True 300 False = Inr cl0"
    by (simp add: SessionProtocol_def)
  obtain sv0 where sv0: "SessionProtocol 7 (replicate 16 1) True 1500 True 300 False = Inr sv0"
    by (simp add: SessionProtocol_def)
  define a where "a = derive cl0 [] [] 5 [] 0"
  define b where "b = derive sv0 [] [] 5 [] 0"
  define cl where "cl = cl0\<lparr>sp_active := Some a\<rparr>"
  define sv where "sv = sv0\<lparr>sp_active := Some b\<rparr>"
  have pr: "paired cl0 sv0" "sp_id cl0 = 7"
    using cl0 sv0 by (auto simp: SessionProtocol_def paired_def)
  note ab = derive_peers [OF pr(1), of "[]" "[]" 5 "[]"]
  have ready: "ready cl"
    by (simp add: ready_def cl_def a_def derive_sel counter_mask_def)
  obtain wire where wire: "encode_into (s_codec a) (sample_ping\<lparr>pk_sequence := next_wire_sequence a\<rparr>) = Inr wire"
    by (simp add: encode_into_def Let_def packet_limit_def protocol_constants handshake_type_def sample_ping_def)
  obtain cl' where "session_encode sample_ping cl = (Inr (Some wire), cl')"
    using ready wire by (simp add: session_encode_def cl_def Let_def)
  then show ?thesis
    using that [of cl a sv b wire cl'] ab pr(2) ready wire by (simp add: cl_def sv_def a_def b_def derive_sel)
qed

lemma sample_ping_canonical: "canonical (sample_ping\<lparr>pk_sequence := n\<rparr>)"
  by (simp add: sample_ping_def canonical_def valid_packet_def Let_def handshake_type_def)

lemma first_counter_accepted: "fst (replay_accept replay_window_init 1)"
  by (simp add: replay_accept_def replay_window_init_def lower_bound_def Let_def window_capacity_def)





end
