(* ===== verification/Codec.thy ===== *)
theory Codec
  imports Wire
begin

text \<open>
  The interface of the message codecs of the control plane: a decoder accepts exactly the
  encodings of the valid values. The rules of \<open>peel\<close> put a buffer together again from the
  fields that were read from it, from the last field to the first.
\<close>

locale message_codec =
  fixes enc :: "'a \<Rightarrow> bytes"
    and dec :: "bytes \<Rightarrow> 'a option"
    and valid :: "'a \<Rightarrow> bool"
  assumes dec_enc: "valid v \<Longrightarrow> dec (enc v) = Some v"
    and dec_valid: "dec b = Some v \<Longrightarrow> valid v"
    and enc_dec: "dec b = Some v \<Longrightarrow> enc v = b"
begin

lemma dec_iff: "dec b = Some v \<longleftrightarrow> valid v \<and> b = enc v"
  using dec_enc dec_valid enc_dec by blast

lemma enc_injective: "valid v \<Longrightarrow> valid w \<Longrightarrow> enc v = enc w \<Longrightarrow> v = w"
  using dec_enc by (metis option.inject)

end

lemma join_at: "k \<le> m \<Longrightarrow> slice (m - k) k b @ drop m b = drop (m - k) b"
  using append_take_drop_id [of k "drop (m - k) b"] by (simp add: slice_def)

lemma slice_Cons [simp]:
  "slice (Suc k) n (x # xs) = slice k n xs" "slice (numeral i) n (x # xs) = slice (pred_numeral i) n xs"
  by (simp_all add: slice_def)

lemma slice_none [simp]: "slice at 0 xs = []"
  by (simp add: slice_def)

lemma slice_split: "slice at (m + n) xs = slice at m xs @ slice (at + m) n xs"
  by (simp add: slice_def take_add add.commute)

lemma slice_eqI: "x @ rest = drop at b \<Longrightarrow> x = slice at (length x) b"
  by (metis append_eq_conv_conj slice_def)

named_theorems peel \<open>a buffer from its fields\<close>

lemma peel16 [peel]:
  "2 \<le> m \<Longrightarrow> m \<le> length b \<Longrightarrow> load_be16 (drop (m - 2) b) = v \<Longrightarrow> store_be16 v @ drop m b = drop (m - 2) b"
  using stored_slices(3) [of "m - 2" b] join_at [of 2 m b] by auto

lemma peel32 [peel]:
  "4 \<le> m \<Longrightarrow> m \<le> length b \<Longrightarrow> load_be32 (drop (m - 4) b) = v \<Longrightarrow> store_be32 v @ drop m b = drop (m - 4) b"
  using stored_slices(2) [of "m - 4" b] join_at [of 4 m b] by auto

lemma peel64 [peel]:
  "8 \<le> m \<Longrightarrow> m \<le> length b \<Longrightarrow> load_be64 (drop (m - 8) b) = v \<Longrightarrow> store_be64 v @ drop m b = drop (m - 8) b"
  using stored_slices(1) [of "m - 8" b] join_at [of 8 m b] by auto

lemma peel8 [peel]: "1 \<le> m \<Longrightarrow> m \<le> length b \<Longrightarrow> b ! (m - 1) = x \<Longrightarrow> x # drop m b = drop (m - 1) b"
  using Cons_nth_drop_Suc [of "m - 1" b] by simp

lemma peel_slice [peel]: "m = n + k \<Longrightarrow> slice n k b @ drop m b = drop n b"
  using join_at [of k m b] by simp

text \<open>The guards of a decoder, read from an accepted buffer.\<close>

lemma guard_Some: "(if P then None else x) = Some v \<longleftrightarrow> \<not> P \<and> x = Some v"
  by simp

lemma guard_Some_pos: "(if P then x else None) = Some v \<longleftrightarrow> P \<and> x = Some v"
  by simp

lemmas accepted = Let_def guard_Some guard_Some_pos de_Morgan_disj not_not not_less option.inject

text \<open>A buffer ends where its last field ends.\<close>

lemma drop_length: "length b = n \<Longrightarrow> drop n b = []"
  by simp

end
