(* ===== verification/Extension.thy ===== *)
theory Extension
  imports Codec
begin

text \<open>
  The payloads of the authentication, relocation and configuration messages,
  \<open>src/v5_extension.hpp\<close>. Enumerations with a fixed underlying type are that type, fixed
  arrays are byte lists whose length the validity predicates state. An encoder returns the
  empty buffer for a value it refuses; a decoder returns \<open>None\<close> where the code returns false.
\<close>

subsection \<open>Messages\<close>

definition ext_format :: u8 where "ext_format = 1"
definition max_auth_field :: nat where "max_auth_field = 4096"
definition relocate_token_size :: nat where "relocate_token_size = 32"
definition relocate_binder_size :: nat where "relocate_binder_size = 32"
definition max_config_size :: nat where "max_config_size = 16384"
definition password_challenge :: u8 where "password_challenge = 1"

record auth_challenge =
  ac_method :: u8
  ac_id :: u64
  ac_lifetime_seconds :: u32
  ac_challenge :: bytes

record auth_response =
  ar_method :: u8
  ar_id :: u64
  ar_username :: string
  ar_response :: bytes

record auth_ok =
  ok_id :: u64

record auth_failed =
  af_id :: u64
  af_reason :: u16
  af_retry_after_seconds :: u32

record relocate =
  rl_port :: u16
  rl_lifetime_seconds :: u32
  rl_family :: u8
  rl_address :: bytes
  rl_token :: bytes
  rl_binder :: bytes

record relocate_bind =
  rb_token :: bytes
  rb_binder :: bytes

record relocate_ok =
  ro_token :: bytes

record config_item =
  ci_type :: u16
  ci_required :: bool
  ci_value :: bytes

record ext_config =
  cf_id :: u64
  cf_items :: "config_item list"

subsection \<open>Authentication\<close>

definition auth_method :: "u8 \<Rightarrow> bool" where
  "auth_method m \<longleftrightarrow> m = password_challenge"

definition encode_auth_challenge :: "auth_challenge \<Rightarrow> bytes" where
  "encode_auth_challenge v =
     (if ac_id v = 0 \<or> ac_lifetime_seconds v = 0 \<or> length (ac_challenge v) > max_auth_field then []
      else [ext_format, ac_method v] @ store_be16 0 @ store_be64 (ac_id v) @ store_be32 (ac_lifetime_seconds v) @
           store_be32 (of_nat (length (ac_challenge v))) @ ac_challenge v)"

definition decode_auth_challenge :: "bytes \<Rightarrow> auth_challenge option" where
  "decode_auth_challenge b =
     (if length b < 20 \<or> b ! 0 \<noteq> ext_format \<or> load_be16 (drop 2 b) \<noteq> 0 \<or> \<not> auth_method (b ! 1) then None
      else
        let tid = load_be64 (drop 4 b); lifetime = load_be32 (drop 12 b); n = unat (load_be32 (drop 16 b))
        in if tid = 0 \<or> lifetime = 0 \<or> n > max_auth_field \<or> length b \<noteq> 20 + n then None
           else Some \<lparr>ac_method = b ! 1, ac_id = tid, ac_lifetime_seconds = lifetime, ac_challenge = drop 20 b\<rparr>)"

definition encode_auth_response :: "auth_response \<Rightarrow> bytes" where
  "encode_auth_response v =
     (if ar_id v = 0 \<or> ar_username v = [] \<or> length (ar_username v) > 255 \<or>
         length (ar_response v) > max_auth_field then []
      else [ext_format, ar_method v, of_nat (length (ar_username v)), 0] @ store_be64 (ar_id v) @
           store_be32 (of_nat (length (ar_response v))) @ bytes_of_string (ar_username v) @ ar_response v)"

definition visible :: "u8 \<Rightarrow> bool" where
  "visible c \<longleftrightarrow> \<not> (c < 0x21 \<or> c > 0x7e)"

definition decode_auth_response :: "bytes \<Rightarrow> auth_response option" where
  "decode_auth_response b =
     (if length b < 16 \<or> b ! 0 \<noteq> ext_format \<or> b ! 3 \<noteq> 0 \<or> \<not> auth_method (b ! 1) then None
      else
        let un = unat (b ! 2); rn = unat (load_be32 (drop 12 b)); tid = load_be64 (drop 4 b)
        in if tid = 0 \<or> un = 0 \<or> rn > max_auth_field \<or> length b \<noteq> 16 + un + rn then None
           else if \<not> list_all visible (slice 16 un b) then None
           else Some \<lparr>ar_method = b ! 1, ar_id = tid, ar_username = string_of_bytes (slice 16 un b),
                      ar_response = drop (16 + un) b\<rparr>)"

definition encode_auth_ok :: "auth_ok \<Rightarrow> bytes" where
  "encode_auth_ok v = (if ok_id v = 0 then [] else [ext_format, 0, 0, 0] @ store_be64 (ok_id v))"

definition decode_auth_ok :: "bytes \<Rightarrow> auth_ok option" where
  "decode_auth_ok b =
     (if length b \<noteq> 12 \<or> b ! 0 \<noteq> ext_format \<or> b ! 1 \<noteq> 0 \<or> load_be16 (drop 2 b) \<noteq> 0 then None
      else let tid = load_be64 (drop 4 b) in if tid = 0 then None else Some \<lparr>ok_id = tid\<rparr>)"

definition encode_auth_failed :: "auth_failed \<Rightarrow> bytes" where
  "encode_auth_failed v =
     (if af_id v = 0 then []
      else [ext_format, 0] @ store_be16 (af_reason v) @ store_be64 (af_id v) @ store_be32 (af_retry_after_seconds v))"

definition decode_auth_failed :: "bytes \<Rightarrow> auth_failed option" where
  "decode_auth_failed b =
     (if length b \<noteq> 16 \<or> b ! 0 \<noteq> ext_format \<or> b ! 1 \<noteq> 0 then None
      else let reason = load_be16 (drop 2 b); tid = load_be64 (drop 4 b)
           in if tid \<noteq> 0 \<and> reason \<ge> 1 \<and> reason \<le> 6
              then Some \<lparr>af_id = tid, af_reason = reason, af_retry_after_seconds = load_be32 (drop 12 b)\<rparr>
              else None)"

subsection \<open>Relocation\<close>

definition address_size :: "u8 \<Rightarrow> nat" where
  "address_size family = (if family = 0 then 0 else if family = 4 then 4 else if family = 6 then 16 else 99)"

definition encode_relocate :: "relocate \<Rightarrow> bytes" where
  "encode_relocate v =
     (let an = address_size (rl_family v)
      in if rl_port v = 0 \<or> rl_lifetime_seconds v = 0 \<or> an = 99 then []
         else [ext_format, rl_family v] @ store_be16 (rl_port v) @ store_be32 (rl_lifetime_seconds v) @
              store_be16 (of_nat relocate_token_size) @ store_be16 (of_nat relocate_binder_size) @
              rl_token v @ rl_binder v @ take an (rl_address v))"

definition decode_relocate :: "bytes \<Rightarrow> relocate option" where
  "decode_relocate b =
     (if length b < 12 \<or> b ! 0 \<noteq> ext_format then None
      else
        let family = b ! 1; an = address_size family
        in if an = 99 \<or> length b \<noteq> 12 + relocate_token_size + relocate_binder_size + an \<or>
              unat (load_be16 (drop 8 b)) \<noteq> relocate_token_size \<or> unat (load_be16 (drop 10 b)) \<noteq> relocate_binder_size
           then None
           else
             let port = load_be16 (drop 2 b); lifetime = load_be32 (drop 4 b)
             in if port = 0 \<or> lifetime = 0 then None
                else Some \<lparr>rl_port = port, rl_lifetime_seconds = lifetime, rl_family = family,
                       rl_address = slice (12 + relocate_token_size + relocate_binder_size) an b @ replicate (16 - an) 0,
                       rl_token = slice 12 relocate_token_size b,
                       rl_binder = slice (12 + relocate_token_size) relocate_binder_size b\<rparr>)"

definition encode_relocate_bind :: "relocate_bind \<Rightarrow> bytes" where
  "encode_relocate_bind v = [ext_format, 0, 0, 0] @ rb_token v @ rb_binder v"

definition decode_relocate_bind :: "bytes \<Rightarrow> relocate_bind option" where
  "decode_relocate_bind b =
     (if length b \<noteq> 4 + relocate_token_size + relocate_binder_size \<or> b ! 0 \<noteq> ext_format \<or> b ! 1 \<noteq> 0 \<or>
         load_be16 (drop 2 b) \<noteq> 0 then None
      else Some \<lparr>rb_token = slice 4 relocate_token_size b,
                 rb_binder = slice (4 + relocate_token_size) relocate_binder_size b\<rparr>)"

definition encode_relocate_ok :: "relocate_ok \<Rightarrow> bytes" where
  "encode_relocate_ok v = [ext_format, 0, 0, 0] @ ro_token v"

definition decode_relocate_ok :: "bytes \<Rightarrow> relocate_ok option" where
  "decode_relocate_ok b =
     (if length b \<noteq> 4 + relocate_token_size \<or> b ! 0 \<noteq> ext_format \<or> b ! 1 \<noteq> 0 \<or> load_be16 (drop 2 b) \<noteq> 0 then None
      else Some \<lparr>ro_token = slice 4 relocate_token_size b\<rparr>)"

subsection \<open>Configuration\<close>

definition encode_item :: "config_item \<Rightarrow> bytes" where
  "encode_item i =
     store_be16 (ci_type i) @ store_be16 (if ci_required i then 1 else 0) @
     store_be16 (of_nat (length (ci_value i))) @ store_be16 0 @ ci_value i"

fun encode_items :: "config_item list \<Rightarrow> bytes \<Rightarrow> bytes" where
  "encode_items [] b = b"
| "encode_items (i # rest) b =
     (if length (ci_value i) > 65535 then []
      else let b = b @ encode_item i
           in if length b > max_config_size then [] else encode_items rest b)"

definition encode_config :: "ext_config \<Rightarrow> bytes" where
  "encode_config v =
     (if cf_id v = 0 then []
      else encode_items (cf_items v)
        ([ext_format, 0, 0, 0] @ store_be64 (cf_id v) @ store_be16 (of_nat (length (cf_items v))) @ store_be16 0))"

text \<open>The loop of the decoder: \<open>n\<close> items are left, \<open>at\<close> is the position of the next one.\<close>

fun decode_items :: "nat \<Rightarrow> nat \<Rightarrow> bytes \<Rightarrow> (config_item list \<times> nat) option" where
  "decode_items 0 at b = Some ([], at)"
| "decode_items (Suc n) at b =
     (if at + 8 > length b then None
      else
        let flags = load_be16 (drop (at + 2) b); size = unat (load_be16 (drop (at + 4) b))
        in if flags > 1 \<or> load_be16 (drop (at + 6) b) \<noteq> 0 \<or> at + 8 + size > length b then None
           else
             let item = \<lparr>ci_type = load_be16 (drop at b), ci_required = (flags \<noteq> 0), ci_value = slice (at + 8) size b\<rparr>
             in case decode_items n (at + 8 + size) b of
                  None \<Rightarrow> None
                | Some (items, stop) \<Rightarrow> Some (item # items, stop))"

definition decode_config :: "bytes \<Rightarrow> ext_config option" where
  "decode_config b =
     (if length b < 16 \<or> length b > max_config_size \<or> b ! 0 \<noteq> ext_format \<or> b ! 1 \<noteq> 0 \<or>
         load_be16 (drop 2 b) \<noteq> 0 \<or> load_be16 (drop 14 b) \<noteq> 0 then None
      else
        let tid = load_be64 (drop 4 b); count = unat (load_be16 (drop 12 b))
        in if tid = 0 then None
           else case decode_items count 16 b of
                  None \<Rightarrow> None
                | Some (items, at) \<Rightarrow> if at = length b then Some \<lparr>cf_id = tid, cf_items = items\<rparr> else None)"

subsection \<open>Valid messages\<close>

definition valid_auth_challenge :: "auth_challenge \<Rightarrow> bool" where
  "valid_auth_challenge v \<longleftrightarrow> ac_method v = password_challenge \<and> ac_id v \<noteq> 0 \<and> ac_lifetime_seconds v \<noteq> 0 \<and>
     length (ac_challenge v) \<le> max_auth_field"

definition valid_auth_response :: "auth_response \<Rightarrow> bool" where
  "valid_auth_response v \<longleftrightarrow> ar_method v = password_challenge \<and> ar_id v \<noteq> 0 \<and> ar_username v \<noteq> [] \<and>
     length (ar_username v) \<le> 255 \<and> list_all (\<lambda>c. visible (byte_of_char c)) (ar_username v) \<and>
     length (ar_response v) \<le> max_auth_field"

definition valid_auth_failed :: "auth_failed \<Rightarrow> bool" where
  "valid_auth_failed v \<longleftrightarrow> af_id v \<noteq> 0 \<and> 1 \<le> af_reason v \<and> af_reason v \<le> 6"

definition valid_relocate :: "relocate \<Rightarrow> bool" where
  "valid_relocate v \<longleftrightarrow> rl_port v \<noteq> 0 \<and> rl_lifetime_seconds v \<noteq> 0 \<and> address_size (rl_family v) \<noteq> 99 \<and>
     length (rl_token v) = 32 \<and> length (rl_binder v) = 32 \<and> length (rl_address v) = 16 \<and>
     drop (address_size (rl_family v)) (rl_address v) = replicate (16 - address_size (rl_family v)) 0"

definition valid_config :: "ext_config \<Rightarrow> bool" where
  "valid_config v \<longleftrightarrow> cf_id v \<noteq> 0 \<and> 16 + (\<Sum>i\<leftarrow>cf_items v. 8 + length (ci_value i)) \<le> max_config_size"

lemmas ext_sizes = max_auth_field_def relocate_token_size_def relocate_binder_size_def max_config_size_def
  password_challenge_def auth_method_def

end
