(* ===== verification/Extension_Correct.thy ===== *)
theory Extension_Correct
  imports Extension
begin

text \<open>
  Every message of the extension protocol has exactly one encoding: each codec is an
  instance of the interface \<open>message_codec\<close>.
\<close>

lemma unat_of_nat_32: "n \<le> 65535 \<Longrightarrow> unat (of_nat n :: u32) = n"
  by (simp add: unat_of_nat take_bit_nat_eq_self)

lemma unat_of_nat_16: "n \<le> 65535 \<Longrightarrow> unat (of_nat n :: u16) = n"
  by (simp add: unat_of_nat take_bit_nat_eq_self)

lemma unat_of_nat_8: "n \<le> 255 \<Longrightarrow> unat (of_nat n :: u8) = n"
  by (simp add: unat_of_nat take_bit_nat_eq_self)

lemma drop_numeral_add: "drop (numeral k + n) xs = drop n (drop (numeral k) xs)"
  by (simp add: add.commute)

text \<open>The four-byte header of the messages without a method or reason.\<close>

lemma plain_header:
  assumes "4 \<le> length b" "b ! 0 = ext_format" "b ! 1 = 0" "load_be16 (drop 2 b) = 0"
  shows "ext_format # 0 # 0 # 0 # drop 4 b = b"
proof -
  have "store_be16 0 = [0, 0]"
    by (simp add: store_be16_def)
  then have "0 # 0 # drop 4 b = drop 2 b"
    using assms peel16 [of 4 b 0] by simp
  with assms show ?thesis
    by (simp add: peel8)
qed

lemma plain_header_zero: "load_be16 (0 # 0 # xs) = 0"
  by (simp add: load_be16_def)

interpretation ext_challenge: message_codec encode_auth_challenge decode_auth_challenge valid_auth_challenge
proof
  show "decode_auth_challenge (encode_auth_challenge v) = Some v" if "valid_auth_challenge v" for v
    using that
    by (simp add: valid_auth_challenge_def encode_auth_challenge_def decode_auth_challenge_def ext_sizes Let_def
        unat_of_nat_32)
  fix b v
  assume d: "decode_auth_challenge b = Some v"
  then have f: "20 \<le> length b" "b ! 0 = ext_format" "load_be16 (drop 2 b) = 0" "b ! 1 = password_challenge"
      "v = \<lparr>ac_method = b ! 1, ac_id = load_be64 (drop 4 b), ac_lifetime_seconds = load_be32 (drop 12 b),
            ac_challenge = drop 20 b\<rparr>"
    and n': "length b = 20 + unat (load_be32 (drop 16 b))" "unat (load_be32 (drop 16 b)) \<le> max_auth_field"
    and ok: "load_be64 (drop 4 b) \<noteq> 0" "load_be32 (drop 12 b) \<noteq> 0"
    unfolding decode_auth_challenge_def auth_method_def accepted by (elim conjE, simp only:)+
  have n: "of_nat (length b - 20) = load_be32 (drop 16 b)" "length b - 20 \<le> max_auth_field"
    unfolding n'(1) using n'(2) by simp_all
  show "valid_auth_challenge v"
    using f(4,5) n ok by (simp add: valid_auth_challenge_def)
  show "encode_auth_challenge v = b"
    using f ok n
    by (simp add: encode_auth_challenge_def peel)
qed

interpretation ext_response: message_codec encode_auth_response decode_auth_response valid_auth_response
proof
  show "decode_auth_response (encode_auth_response v) = Some v" if "valid_auth_response v" for v
    using that
    by (simp add: valid_auth_response_def encode_auth_response_def decode_auth_response_def ext_sizes Let_def
        unat_of_nat_32 unat_of_nat_8 list_all_iff drop_numeral_add comp_def)
  fix b v
  assume d: "decode_auth_response b = Some v"
  define un where "un = unat (b ! 2)"
  from d have f: "16 \<le> length b" "b ! 0 = ext_format" "b ! 3 = 0" "b ! 1 = password_challenge"
      "v = \<lparr>ar_method = b ! 1, ar_id = load_be64 (drop 4 b), ar_username = string_of_bytes (slice 16 un b),
            ar_response = drop (16 + un) b\<rparr>"
    and n': "length b = 16 + un + unat (load_be32 (drop 12 b))" "unat (load_be32 (drop 12 b)) \<le> max_auth_field"
    and ok: "load_be64 (drop 4 b) \<noteq> 0" "un \<noteq> 0"
      "list_all visible (slice 16 un b)"
    unfolding decode_auth_response_def auth_method_def accepted un_def by (elim conjE, simp only:)+
  have n: "of_nat (length b - (16 + un)) = load_be32 (drop 12 b)" "length b - (16 + un) \<le> max_auth_field"
      "16 + un \<le> length b" "of_nat un = b ! 2"
    unfolding n'(1) using n'(2) by (simp_all add: un_def)
  have un: "un \<le> 255" "length (slice 16 un b) = un"
    using unsigned_less [of "b ! 2", where ?'a = nat] n(3) by (simp_all add: un_def)
  then have ne: "slice 16 un b \<noteq> []"
    using ok(2) by (metis list.size(3))
  show "valid_auth_response v"
    using f(4,5) n ok un ne by (simp add: valid_auth_response_def list_all_iff)
  show "encode_auth_response v = b"
    using f ok n un ne
    by (simp add: encode_auth_response_def peel comp_def)
qed


interpretation ext_ok: message_codec encode_auth_ok decode_auth_ok "\<lambda>v. ok_id v \<noteq> 0"
proof
  show "decode_auth_ok (encode_auth_ok v) = Some v" if "ok_id v \<noteq> 0" for v
    using that by (simp add: encode_auth_ok_def decode_auth_ok_def plain_header_zero)
  fix b v
  assume "decode_auth_ok b = Some v"
  then have f: "length b = 12" "b ! 0 = ext_format" "b ! 1 = 0" "load_be16 (drop 2 b) = 0"
      "load_be64 (drop 4 b) \<noteq> 0" "\<lparr>ok_id = load_be64 (drop 4 b)\<rparr> = v"
    unfolding decode_auth_ok_def accepted by (elim conjE, simp only:)+
  then show "ok_id v \<noteq> 0"
    by auto
  have "store_be64 (load_be64 (drop 4 b)) = drop 4 b"
    using f(1) peel64 [of 12 b "load_be64 (drop 4 b)"] by simp
  with f show "encode_auth_ok v = b"
    by (auto simp: encode_auth_ok_def plain_header)
qed

interpretation ext_failed: message_codec encode_auth_failed decode_auth_failed valid_auth_failed
proof
  show "decode_auth_failed (encode_auth_failed v) = Some v" if "valid_auth_failed v" for v
    using that load_store_be32 [of "af_retry_after_seconds v" "[]"]
    by (simp add: valid_auth_failed_def encode_auth_failed_def decode_auth_failed_def)
  fix b v
  assume "decode_auth_failed b = Some v"
  then have f: "length b = 16" "b ! 0 = ext_format" "b ! 1 = 0" "load_be64 (drop 4 b) \<noteq> 0"
      "1 \<le> load_be16 (drop 2 b)" "load_be16 (drop 2 b) \<le> 6"
      "\<lparr>af_id = load_be64 (drop 4 b), af_reason = load_be16 (drop 2 b), af_retry_after_seconds = load_be32 (drop 12 b)\<rparr> = v"
    unfolding decode_auth_failed_def accepted by (elim conjE, simp only:)+
  then show "valid_auth_failed v"
    by (auto simp: valid_auth_failed_def)
  have "store_be32 (load_be32 (drop 12 b)) = drop 12 b"
    using f(1) peel32 [of 16 b "load_be32 (drop 12 b)"] by simp
  with f show "encode_auth_failed v = b"
    by (auto simp: encode_auth_failed_def peel)
qed

interpretation ext_relocate: message_codec encode_relocate decode_relocate valid_relocate
proof
  show "decode_relocate (encode_relocate v) = Some v" if "valid_relocate v" for v
  proof -
    have "take (address_size (rl_family v)) (rl_address v) @ replicate (16 - address_size (rl_family v)) 0 = rl_address v"
      using that append_take_drop_id [of "address_size (rl_family v)" "rl_address v"] by (simp add: valid_relocate_def)
    moreover have "address_size (rl_family v) \<le> 16"
      using that by (auto simp: valid_relocate_def address_size_def split: if_splits)
    ultimately show ?thesis
      using that by (simp add: valid_relocate_def encode_relocate_def decode_relocate_def ext_sizes Let_def)
  qed
  fix b v
  assume "decode_relocate b = Some v"
  define an where "an = address_size (b ! 1)"
  have "12 \<le> length b" and f: "b ! 0 = ext_format" "an \<noteq> 99" "length b = 76 + an"
      "unat (load_be16 (drop 8 b)) = 32" "unat (load_be16 (drop 10 b)) = 32"
      "load_be16 (drop 2 b) \<noteq> 0" "load_be32 (drop 4 b) \<noteq> 0"
      "\<lparr>rl_port = load_be16 (drop 2 b), rl_lifetime_seconds = load_be32 (drop 4 b), rl_family = b ! 1,
        rl_address = slice 76 an b @ replicate (16 - an) 0, rl_token = slice 12 32 b, rl_binder = slice 44 32 b\<rparr> = v"
    using \<open>decode_relocate b = Some v\<close>
    unfolding decode_relocate_def accepted an_def ext_sizes by (elim conjE, simp)+
  have an: "an \<le> 16"
    using f(2) by (auto simp: an_def address_size_def split: if_splits)
  have v: "rl_port v = load_be16 (drop 2 b)" "rl_lifetime_seconds v = load_be32 (drop 4 b)" "rl_family v = b ! 1"
      "rl_address v = slice 76 an b @ replicate (16 - an) 0" "rl_token v = slice 12 32 b" "rl_binder v = slice 44 32 b"
      "address_size (rl_family v) = an"
    using f(8) by (auto simp: an_def)
  show "valid_relocate v"
    unfolding valid_relocate_def v(7) using f an by (simp add: v)
  have sizes: "load_be16 (drop 8 b) = 32" "load_be16 (drop 10 b) = 32"
    using f(4,5) by (auto intro: unsigned_word_eqI [where ?'a = nat])
  have last: "slice 76 an b = drop 76 b"
    using f(3) by (simp add: slice_def)
  show "encode_relocate v = b"
    unfolding encode_relocate_def v(7) using f(1-3,6,7) an sizes last by (simp add: v ext_sizes peel)
qed


interpretation ext_bind: message_codec encode_relocate_bind decode_relocate_bind
  "\<lambda>v. length (rb_token v) = 32 \<and> length (rb_binder v) = 32"
proof
  show "decode_relocate_bind (encode_relocate_bind v) = Some v" if "length (rb_token v) = 32 \<and> length (rb_binder v) = 32" for v
    using that by (simp add: encode_relocate_bind_def decode_relocate_bind_def ext_sizes plain_header_zero)
  fix b v
  assume "decode_relocate_bind b = Some v"
  then have f: "length b = 68" "b ! 0 = ext_format" "b ! 1 = 0" "load_be16 (drop 2 b) = 0"
      "\<lparr>rb_token = slice 4 32 b, rb_binder = slice 36 32 b\<rparr> = v"
    unfolding decode_relocate_bind_def accepted ext_sizes by (elim conjE, simp)+
  then show "length (rb_token v) = 32 \<and> length (rb_binder v) = 32"
    by auto
  have "slice 36 32 b = drop 36 b"
    using f(1) by (simp add: slice_def)
  with f show "encode_relocate_bind v = b"
    by (auto simp: encode_relocate_bind_def peel_slice plain_header)
qed

interpretation ext_relocated: message_codec encode_relocate_ok decode_relocate_ok "\<lambda>v. length (ro_token v) = 32"
proof
  show "decode_relocate_ok (encode_relocate_ok v) = Some v" if "length (ro_token v) = 32" for v
    using that by (simp add: encode_relocate_ok_def decode_relocate_ok_def ext_sizes plain_header_zero)
  fix b v
  assume "decode_relocate_ok b = Some v"
  then have f: "length b = 36" "b ! 0 = ext_format" "b ! 1 = 0" "load_be16 (drop 2 b) = 0" "\<lparr>ro_token = slice 4 32 b\<rparr> = v"
    unfolding decode_relocate_ok_def accepted ext_sizes by (elim conjE, simp)+
  then show "length (ro_token v) = 32"
    by auto
  have "slice 4 32 b = drop 4 b"
    using f(1) by (simp add: slice_def)
  with f show "encode_relocate_ok v = b"
    by (auto simp: encode_relocate_ok_def plain_header)
qed

subsection \<open>Configuration items\<close>

definition items_bytes :: "config_item list \<Rightarrow> bytes" where
  "items_bytes items = concat (map encode_item items)"

lemma length_encode_item [simp]: "length (encode_item i) = 8 + length (ci_value i)"
  by (simp add: encode_item_def)

lemma length_items_bytes: "length (items_bytes items) = (\<Sum>i\<leftarrow>items. 8 + length (ci_value i))"
  by (induction items) (simp_all add: items_bytes_def)

lemma encode_items_eq:
  "length b + length (items_bytes items) \<le> max_config_size \<Longrightarrow> encode_items items b = b @ items_bytes items"
  by (induction items arbitrary: b) (simp_all add: items_bytes_def max_config_size_def)

lemma decode_items_bytes:
  "\<forall>i \<in> set items. length (ci_value i) \<le> 65535 \<Longrightarrow>
     decode_items (length items) (length pre) (pre @ items_bytes items @ rest) =
       Some (items, length pre + length (items_bytes items))"
proof (induction items arbitrary: pre)
  case Nil
  then show ?case by (simp add: items_bytes_def)
next
  case (Cons i items)
  define d where "d = pre @ encode_item i @ items_bytes items @ rest"
  define n where "n = length (ci_value i)"
  have n: "n \<le> 65535" "unat (of_nat n :: u16) = n"
    using Cons.prems by (simp_all add: n_def unat_of_nat_16)
  have fields: "load_be16 (drop (length pre) d) = ci_type i" "load_be16 (drop (length pre + 2) d) = (if ci_required i then 1 else 0)"
      "load_be16 (drop (length pre + 4) d) = of_nat n" "load_be16 (drop (length pre + 6) d) = 0"
      "slice (length pre + 8) n d = ci_value i" "length pre + 8 + n \<le> length d"
    by (simp_all add: d_def n_def encode_item_def)
  have "decode_items (length items) (length (pre @ encode_item i)) ((pre @ encode_item i) @ items_bytes items @ rest) =
      Some (items, length (pre @ encode_item i) + length (items_bytes items))"
    using Cons by (intro Cons.IH) simp
  then have rest: "decode_items (length items) (length pre + 8 + n) d =
      Some (items, length pre + 8 + n + length (items_bytes items))"
    by (simp add: d_def n_def add.assoc)
  have "decode_items (length (i # items)) (length pre) d = Some (i # items, length pre + 8 + n + length (items_bytes items))"
    using fields n rest by (auto simp: Let_def)
  then show ?case
    by (simp add: d_def n_def items_bytes_def)
qed

lemma decode_items_Some:
  "decode_items n at b = Some (items, stop) \<Longrightarrow> at \<le> length b \<Longrightarrow>
     length items = n \<and> at \<le> stop \<and> stop \<le> length b \<and> items_bytes items = slice at (stop - at) b \<and>
     (\<forall>i \<in> set items. length (ci_value i) \<le> 65535)"
proof (induction n arbitrary: at items)
  case 0
  then show ?case by (simp add: items_bytes_def)
next
  case (Suc n)
  define flags where "flags = load_be16 (drop (at + 2) b)"
  define size where "size = unat (load_be16 (drop (at + 4) b))"
  define item where "item = \<lparr>ci_type = load_be16 (drop at b), ci_required = (flags \<noteq> 0), ci_value = slice (at + 8) size b\<rparr>"
  obtain items' where r: "decode_items n (at + 8 + size) b = Some (items', stop)" "items = item # items'"
    and g: "flags \<le> 1" "load_be16 (drop (at + 6) b) = 0" "at + 8 + size \<le> length b"
    using Suc.prems by (auto simp: Let_def flags_def size_def item_def not_less split: if_splits option.splits)
  note IH = Suc.IH [OF r(1) g(3)]
  have size: "size \<le> 65535" "of_nat size = load_be16 (drop (at + 4) b)"
    using unsigned_less [of "load_be16 (drop (at + 4) b)", where ?'a = nat] by (simp_all add: size_def)
  have "(if flags \<noteq> 0 then 1 else 0) = flags"
    using g(1) by (auto simp: word_le_nat_alt word_eq_iff_unsigned le_Suc_eq intro: unsigned_word_eqI [where ?'a = nat])
  moreover have "store_be16 0 @ drop (at + 8) b = drop (at + 6) b" "store_be16 (of_nat size) @ drop (at + 6) b = drop (at + 4) b"
      "store_be16 flags @ drop (at + 4) b = drop (at + 2) b" "store_be16 (load_be16 (drop at b)) @ drop (at + 2) b = drop at b"
    using g size peel16 [of "at + 8" b 0] peel16 [of "at + 6" b "of_nat size"] peel16 [of "at + 4" b flags]
      peel16 [of "at + 2" b "load_be16 (drop at b)"]
    by (simp_all add: flags_def add.commute)
  ultimately have "encode_item item @ drop (at + 8 + size) b = drop at b"
    using g by (simp add: encode_item_def item_def size peel_slice)
  moreover have len: "length (encode_item item) = 8 + size"
    using g(3) by (simp add: item_def)
  ultimately have "encode_item item = slice at (8 + size) b"
    using slice_eqI by metis
  moreover have "slice at (8 + size) b @ slice (at + 8 + size) (stop - (at + 8 + size)) b = slice at (stop - at) b"
    using IH slice_split [of at "8 + size" "stop - (at + 8 + size)" b] by (simp add: add.assoc)
  ultimately show ?case
    using IH r(2) g size by (simp add: items_bytes_def item_def)
qed


lemma valid_items:
  assumes "16 + (\<Sum>i\<leftarrow>items. 8 + length (ci_value i)) \<le> max_config_size"
  shows "\<forall>i \<in> set items. length (ci_value i) \<le> 65535" "length items \<le> 65535"
proof -
  have "length (ci_value i) \<le> (\<Sum>i\<leftarrow>items. 8 + length (ci_value i))" if "i \<in> set items" for i
    using member_le_sum_list [of "8 + length (ci_value i)" "map (\<lambda>i. 8 + length (ci_value i)) items"] that by auto
  then show "\<forall>i \<in> set items. length (ci_value i) \<le> 65535"
    using assms by (force simp: max_config_size_def)
  have "length items \<le> (\<Sum>i\<leftarrow>items. 8 + length (ci_value i))"
    by (induction items) auto
  then show "length items \<le> 65535"
    using assms by (simp add: max_config_size_def)
qed

interpretation ext_settings: message_codec encode_config decode_config valid_config
proof
  define header where
    "header v = [ext_format, 0, 0, 0] @ store_be64 (cf_id v) @ store_be16 (of_nat (length (cf_items v))) @ store_be16 0" for v :: ext_config
  have len [simp]: "length (header v) = 16" for v
    by (simp add: header_def)
  have enc: "encode_config v = header v @ items_bytes (cf_items v)" if "valid_config v" for v
    using that encode_items_eq [of "header v" "cf_items v"]
    by (simp add: encode_config_def header_def valid_config_def length_items_bytes)
  show "decode_config (encode_config v) = Some v" if v: "valid_config v" for v
  proof -
    note items = valid_items [of "cf_items v"]
    have ok: "\<forall>i \<in> set (cf_items v). length (ci_value i) \<le> 65535" "length (cf_items v) \<le> 65535"
      using items v by (simp_all add: valid_config_def)
    have "decode_items (length (cf_items v)) 16 (header v @ items_bytes (cf_items v)) =
        Some (cf_items v, 16 + length (items_bytes (cf_items v)))"
      using decode_items_bytes [OF ok(1), of "header v" "[]"] by simp
    moreover have "load_be16 (drop 2 (header v @ x)) = 0" "load_be64 (drop 4 (header v @ x)) = cf_id v"
        "load_be16 (drop 12 (header v @ x)) = of_nat (length (cf_items v))" "load_be16 (drop 14 (header v @ x)) = 0"
        "(header v @ x) ! 0 = ext_format" "(header v @ x) ! 1 = 0" for x
      by (simp_all add: header_def plain_header_zero)
    ultimately show ?thesis
      using v by (simp add: enc decode_config_def valid_config_def length_items_bytes unat_of_nat_16 ok)
  qed
  fix b v
  assume "decode_config b = Some v"
  then have f: "16 \<le> length b" "length b \<le> max_config_size" "b ! 0 = ext_format" "b ! 1 = 0" "load_be16 (drop 2 b) = 0"
      "load_be16 (drop 14 b) = 0" "load_be64 (drop 4 b) \<noteq> 0"
    and "(case decode_items (unat (load_be16 (drop 12 b))) 16 b of None \<Rightarrow> None
       | Some (items, at) \<Rightarrow> if at = length b then Some \<lparr>cf_id = load_be64 (drop 4 b), cf_items = items\<rparr> else None) = Some v"
    unfolding decode_config_def accepted by (elim conjE, simp only:)+
  then obtain items where d: "decode_items (unat (load_be16 (drop 12 b))) 16 b = Some (items, length b)"
      "v = \<lparr>cf_id = load_be64 (drop 4 b), cf_items = items\<rparr>"
    by (auto split: option.splits if_splits)
  note i = decode_items_Some [OF d(1) f(1)]
  have body: "items_bytes items = drop 16 b"
    using i by (simp add: slice_def)
  then have "length (items_bytes items) = length b - 16"
    by simp
  then show valid: "valid_config v"
    using f(1,2,7) d(2) by (simp add: valid_config_def length_items_bytes)
  have "of_nat (length items) = load_be16 (drop 12 b)"
    using i by simp
  then show "encode_config v = b"
    using f plain_header [of b] enc [OF valid] by (simp add: header_def d(2) body peel)
qed


subsection \<open>Exactness\<close>

text \<open>
  C29. Every extension message has exactly one encoding and every accepted payload is the
  encoding of a valid message: for the authentication, relocation and configuration messages,
  decoding yields a value exactly when the value is valid and the payload is what the
  encoder produces for it.
\<close>

theorem extension_codecs_exact:
  "(decode_auth_challenge b = Some c \<longleftrightarrow> valid_auth_challenge c \<and> b = encode_auth_challenge c) \<and>
   (decode_auth_response b = Some r \<longleftrightarrow> valid_auth_response r \<and> b = encode_auth_response r) \<and>
   (decode_auth_ok b = Some k \<longleftrightarrow> ok_id k \<noteq> 0 \<and> b = encode_auth_ok k) \<and>
   (decode_auth_failed b = Some f \<longleftrightarrow> valid_auth_failed f \<and> b = encode_auth_failed f) \<and>
   (decode_relocate b = Some l \<longleftrightarrow> valid_relocate l \<and> b = encode_relocate l) \<and>
   (decode_relocate_bind b = Some i \<longleftrightarrow>
      (length (rb_token i) = 32 \<and> length (rb_binder i) = 32) \<and> b = encode_relocate_bind i) \<and>
   (decode_relocate_ok b = Some d \<longleftrightarrow> length (ro_token d) = 32 \<and> b = encode_relocate_ok d) \<and>
   (decode_config b = Some v \<longleftrightarrow> valid_config v \<and> b = encode_config v)"
  using ext_challenge.dec_iff ext_response.dec_iff ext_ok.dec_iff ext_failed.dec_iff ext_relocate.dec_iff
    ext_bind.dec_iff ext_relocated.dec_iff ext_settings.dec_iff
  by (intro conjI) assumption+

text \<open>
  The encoder of authentication responses does not check the characters of the user name
  that the decoder requires: a name with a blank is encoded and then refused.
\<close>

lemma auth_response_blank_refused:
  "\<exists>v. encode_auth_response v \<noteq> [] \<and> decode_auth_response (encode_auth_response v) = None"
proof (intro exI conjI)
  let ?v = "\<lparr>ar_method = password_challenge, ar_id = 1, ar_username = ''a b'', ar_response = []\<rparr>"
  show "encode_auth_response ?v \<noteq> []"
    by (simp add: encode_auth_response_def max_auth_field_def)
  show "decode_auth_response (encode_auth_response ?v) = None"
    by (simp add: encode_auth_response_def decode_auth_response_def ext_sizes Let_def visible_def byte_of_char_def
        drop_numeral_add)
qed

end
