(* ===== verification/Auth.thy ===== *)
theory Auth
  imports Extension
begin

text \<open>
  The transport-independent authentication gate, class \<open>AuthState\<close> of \<open>src/v5_auth_state.hpp\<close>,
  and the protocol the two ends run with it over a network that may lose, repeat and
  reorder messages.
\<close>

subsection \<open>The gate\<close>

datatype auth_role = Auth_client | Auth_server

datatype auth_phase = Open_phase | Need_challenge | Pending_phase | Verifying | Waiting_result | Authenticated | Rejected

record auth_state =
  au_role :: auth_role
  au_state :: auth_phase
  au_id :: u64

definition AuthState :: "auth_role \<Rightarrow> bool \<Rightarrow> auth_state result" where
  "AuthState role required =
     (if role = Auth_client \<and> required then Inl (Runtime_error ''client cannot require server AUTH'')
      else Inr \<lparr>au_role = role, au_state = (if required then Need_challenge else Open_phase), au_id = 0\<rparr>)"

definition allows_data :: "auth_state \<Rightarrow> bool" where
  "allows_data a \<longleftrightarrow> au_state a = Open_phase \<or> au_state a = Authenticated"

definition terminal_failure :: "auth_state \<Rightarrow> bool" where
  "terminal_failure a \<longleftrightarrow> au_state a = Rejected"

definition challenged :: "auth_state \<Rightarrow> bool" where
  "challenged a \<longleftrightarrow> au_id a \<noteq> 0"

definition send_challenge :: "u64 \<Rightarrow> auth_state \<Rightarrow> bool \<times> auth_state" where
  "send_challenge tid a =
     (if au_role a \<noteq> Auth_server \<or> au_state a \<noteq> Need_challenge \<or> tid = 0 then (False, a)
      else (True, a\<lparr>au_id := tid, au_state := Pending_phase\<rparr>))"

definition receive_challenge :: "auth_challenge \<Rightarrow> auth_state \<Rightarrow> bool \<times> auth_state" where
  "receive_challenge c a =
     (if au_role a \<noteq> Auth_client \<or> (au_state a \<noteq> Open_phase \<and> au_state a \<noteq> Pending_phase) \<or> ac_id c = 0 then (False, a)
      else if au_state a = Pending_phase \<and> au_id a = ac_id c then (True, a)
      else if au_state a \<noteq> Open_phase then (False, a)
      else (True, a\<lparr>au_id := ac_id c, au_state := Pending_phase\<rparr>))"

definition send_response :: "u64 \<Rightarrow> auth_state \<Rightarrow> bool \<times> auth_state" where
  "send_response tid a =
     (if au_role a \<noteq> Auth_client \<or> au_state a \<noteq> Pending_phase \<or> tid \<noteq> au_id a then (False, a)
      else (True, a\<lparr>au_state := Waiting_result\<rparr>))"

definition receive_auth_response :: "auth_response \<Rightarrow> auth_state \<Rightarrow> bool \<times> auth_state" where
  "receive_auth_response r a =
     (if au_role a \<noteq> Auth_server \<or> au_state a \<noteq> Pending_phase \<or> ar_id r \<noteq> au_id a then (False, a)
      else (True, a\<lparr>au_state := Verifying\<rparr>))"

definition verified :: "bool \<Rightarrow> auth_state \<Rightarrow> bool \<times> auth_state" where
  "verified allow a =
     (if au_role a \<noteq> Auth_server \<or> au_state a \<noteq> Verifying then (False, a)
      else (True, a\<lparr>au_state := (if allow then Authenticated else Rejected)\<rparr>))"

definition receive_ok :: "auth_ok \<Rightarrow> auth_state \<Rightarrow> bool \<times> auth_state" where
  "receive_ok v a =
     (if au_role a \<noteq> Auth_client \<or> au_state a \<noteq> Waiting_result \<or> ok_id v \<noteq> au_id a then (False, a)
      else (True, a\<lparr>au_state := Authenticated\<rparr>))"

definition receive_failed :: "auth_failed \<Rightarrow> auth_state \<Rightarrow> bool \<times> auth_state" where
  "receive_failed v a =
     (if au_role a \<noteq> Auth_client \<or> au_state a \<noteq> Waiting_result \<or> af_id v \<noteq> au_id a then (False, a)
      else (True, a\<lparr>au_state := Rejected\<rparr>))"

lemmas auth_ops = send_challenge_def receive_challenge_def send_response_def receive_auth_response_def verified_def
  receive_ok_def receive_failed_def

subsection \<open>Two gates over a network\<close>

datatype auth_message = Challenge_sent auth_challenge | Response_sent auth_response | Ok_sent auth_ok | Failed_sent auth_failed

record auth_system =
  sys_server :: auth_state
  sys_client :: auth_state
  sys_wire :: "auth_message set"

text \<open>
  Messages stay on the wire: a receive step takes any message ever sent, in any order, any
  number of times. A server that verified a response reports the outcome under the id
  of its challenge.
\<close>

inductive auth_step :: "auth_system \<Rightarrow> auth_system \<Rightarrow> bool" where
  challenge: "send_challenge (ac_id c) (sys_server s) = (True, a) \<Longrightarrow>
     auth_step s (s\<lparr>sys_server := a, sys_wire := insert (Challenge_sent c) (sys_wire s)\<rparr>)"
| challenged: "Challenge_sent c \<in> sys_wire s \<Longrightarrow> receive_challenge c (sys_client s) = (ok, a) \<Longrightarrow>
     auth_step s (s\<lparr>sys_client := a\<rparr>)"
| respond: "send_response (ar_id r) (sys_client s) = (True, a) \<Longrightarrow>
     auth_step s (s\<lparr>sys_client := a, sys_wire := insert (Response_sent r) (sys_wire s)\<rparr>)"
| responded: "Response_sent r \<in> sys_wire s \<Longrightarrow> receive_auth_response r (sys_server s) = (ok, a) \<Longrightarrow>
     auth_step s (s\<lparr>sys_server := a\<rparr>)"
| accept: "verified True (sys_server s) = (True, a) \<Longrightarrow>
     auth_step s (s\<lparr>sys_server := a, sys_wire := insert (Ok_sent \<lparr>ok_id = au_id a\<rparr>) (sys_wire s)\<rparr>)"
| refuse: "verified False (sys_server s) = (True, a) \<Longrightarrow>
     auth_step s (s\<lparr>sys_server := a, sys_wire := insert (Failed_sent \<lparr>af_id = au_id a, af_reason = reason,
       af_retry_after_seconds = retry\<rparr>) (sys_wire s)\<rparr>)"
| accepted: "Ok_sent v \<in> sys_wire s \<Longrightarrow> receive_ok v (sys_client s) = (ok, a) \<Longrightarrow> auth_step s (s\<lparr>sys_client := a\<rparr>)"
| refused: "Failed_sent f \<in> sys_wire s \<Longrightarrow> receive_failed f (sys_client s) = (ok, a) \<Longrightarrow> auth_step s (s\<lparr>sys_client := a\<rparr>)"

definition auth_start :: auth_system where
  "auth_start = \<lparr>sys_server = projr (AuthState Auth_server True), sys_client = projr (AuthState Auth_client False),
     sys_wire = {}\<rparr>"

definition auth_invariant :: "auth_system \<Rightarrow> bool" where
  "auth_invariant s \<longleftrightarrow>
     au_role (sys_server s) = Auth_server \<and> au_role (sys_client s) = Auth_client \<and> au_state (sys_server s) \<noteq> Open_phase \<and>
     (\<forall>v. Ok_sent v \<in> sys_wire s \<longrightarrow> au_state (sys_server s) = Authenticated \<and> ok_id v = au_id (sys_server s)) \<and>
     (\<forall>f. Failed_sent f \<in> sys_wire s \<longrightarrow> au_state (sys_server s) = Rejected \<and> af_id f = au_id (sys_server s)) \<and>
     (au_state (sys_server s) \<in> {Verifying, Authenticated, Rejected} \<longrightarrow>
        (\<exists>r. Response_sent r \<in> sys_wire s \<and> ar_id r = au_id (sys_server s))) \<and>
     (au_state (sys_client s) = Authenticated \<longrightarrow> (\<exists>v. Ok_sent v \<in> sys_wire s \<and> ok_id v = au_id (sys_client s))) \<and>
     (au_state (sys_client s) = Rejected \<longrightarrow> (\<exists>f. Failed_sent f \<in> sys_wire s \<and> af_id f = au_id (sys_client s)))"

lemma auth_invariant_start: "auth_invariant auth_start"
  by (simp add: auth_invariant_def auth_start_def AuthState_def)

lemma auth_invariant_step: "auth_step s s' \<Longrightarrow> auth_invariant s \<Longrightarrow> auth_invariant s'"
  by (induction rule: auth_step.induct) (auto simp: auth_invariant_def auth_ops split: if_splits)

lemma auth_invariant_reachable: "auth_step\<^sup>*\<^sup>* auth_start s \<Longrightarrow> auth_invariant s"
  by (induction rule: rtranclp_induct) (auto intro: auth_invariant_start auth_invariant_step)



end
