(* ===== verification/Relocation.thy ===== *)
theory Relocation
  imports Extension Ascon
begin

text \<open>Relocation tickets, \<open>src/relocation.hpp\<close>: single-use, bound to port, peer, token and expiry.\<close>

definition relocation_input :: "string \<Rightarrow> bytes \<Rightarrow> u64 \<Rightarrow> u16 \<Rightarrow> u64 \<Rightarrow> bytes \<Rightarrow> string \<Rightarrow> bytes" where
  "relocation_input domain auth exchange port expiry token peer =
     bytes_of_string domain @ [0] @ auth @ store_be64 exchange @ store_be16 port @ store_be64 expiry @ token @
     bytes_of_string peer"

definition relocation_bind :: "bytes \<Rightarrow> bytes \<Rightarrow> u64 \<Rightarrow> u16 \<Rightarrow> u64 \<Rightarrow> bytes \<Rightarrow> string \<Rightarrow> bytes" where
  "relocation_bind secret auth exchange port expiry token peer =
     mac secret port (relocation_input ''TUNTOM-V5-RELOCATE-0'' auth exchange port expiry token peer) @
     mac secret port (relocation_input ''TUNTOM-V5-RELOCATE-1'' auth exchange port expiry token peer)"

record ticket =
  tk_secret :: bytes
  tk_auth :: bytes
  tk_exchange :: u64
  tk_port :: u16
  tk_expiry :: u64
  tk_token :: bytes
  tk_peer :: string
  tk_binder :: bytes
  tk_used :: bool

definition Ticket :: "bytes \<Rightarrow> bytes \<Rightarrow> u64 \<Rightarrow> u16 \<Rightarrow> u64 \<Rightarrow> bytes \<Rightarrow> string \<Rightarrow> ticket" where
  "Ticket secret auth exchange port expiry token peer =
     \<lparr>tk_secret = secret, tk_auth = auth, tk_exchange = exchange, tk_port = port, tk_expiry = expiry, tk_token = token,
      tk_peer = peer, tk_binder = relocation_bind secret auth exchange port expiry token peer, tk_used = False\<rparr>"

definition consume :: "u64 \<Rightarrow> u16 \<Rightarrow> bytes \<Rightarrow> bytes \<Rightarrow> string \<Rightarrow> ticket \<Rightarrow> bool \<times> ticket" where
  "consume now port token bound peer t =
     (if tk_used t \<or> now > tk_expiry t \<or> port \<noteq> tk_port t \<or> token \<noteq> tk_token t \<or> peer \<noteq> tk_peer t then (False, t)
      else
        let expected = relocation_bind (tk_secret t) (tk_auth t) (tk_exchange t) port (tk_expiry t) token peer
        in if \<not> constant_time_equal (length bound) expected bound then (False, t)
           else (True, t\<lparr>tk_used := True\<rparr>))"

text \<open>An attempt to redeem a ticket, and the attempts of a sequence that succeed.\<close>

type_synonym attempt = "u64 \<times> u16 \<times> bytes \<times> bytes \<times> string"

fun redeemed :: "attempt list \<Rightarrow> ticket \<Rightarrow> attempt list" where
  "redeemed [] t = []"
| "redeemed ((now, port, token, bound, peer) # rest) t =
     (let (ok, t') = consume now port token bound peer t
      in (if ok then [(now, port, token, bound, peer)] else []) @ redeemed rest t')"

lemma length_relocation_bind [simp]: "length (relocation_bind s a x p e t q) = 32"
  by (simp add: relocation_bind_def)

lemma consume_iff:
  assumes "length bound = 32" "tk_binder t = relocation_bind (tk_secret t) (tk_auth t) (tk_exchange t) (tk_port t)
    (tk_expiry t) (tk_token t) (tk_peer t)"
  shows "fst (consume now port token bound peer t) \<longleftrightarrow>
    \<not> tk_used t \<and> now \<le> tk_expiry t \<and> port = tk_port t \<and> token = tk_token t \<and> peer = tk_peer t \<and> bound = tk_binder t"
  using assms by (auto simp: consume_def Let_def constant_time_equal_iff)

lemma redeemed_used: "tk_used t \<Longrightarrow> redeemed as t = []"
  by (induction as) (auto simp: consume_def)

lemma consume_result:
  "consume now port token bound peer t = (ok, t') \<Longrightarrow> (if ok then tk_used t' else t' = t)"
  by (auto simp: consume_def Let_def split: if_splits)

lemma redeemed_once:
  assumes "\<forall>(now, port, token, bound, peer) \<in> set as. length bound = 32"
    and "tk_binder t = relocation_bind (tk_secret t) (tk_auth t) (tk_exchange t) (tk_port t) (tk_expiry t) (tk_token t) (tk_peer t)"
  shows "redeemed as t = [] \<or> (\<exists>now. redeemed as t = [(now, tk_port t, tk_token t, tk_binder t, tk_peer t)] \<and> now \<le> tk_expiry t)"
  using assms
proof (induction as)
  case Nil
  then show ?case by simp
next
  case (Cons a as)
  obtain now port token bound peer where a: "a = (now, port, token, bound, peer)"
    by (cases a) auto
  obtain ok t' where c: "consume now port token bound peer t = (ok, t')"
    by force
  show ?case
  proof (cases ok)
    case True
    then have "now \<le> tk_expiry t \<and> port = tk_port t \<and> token = tk_token t \<and> peer = tk_peer t \<and> bound = tk_binder t"
      using consume_iff [of bound t now port token peer] Cons.prems a c by simp
    moreover have "redeemed as t' = []"
      using consume_result [OF c] True redeemed_used by simp
    ultimately show ?thesis
      using a c True by simp
  next
    case False
    then show ?thesis
      using Cons consume_result [OF c] a c by simp
  qed
qed

text \<open>
  C24. A relocation ticket is redeemed at most once, and only by an attempt before its expiry with
  exactly its port, token and peer and the binding that was computed when it was issued.
\<close>

theorem ticket_single_use:
  assumes "\<forall>(now, port, token, bound, peer) \<in> set as. length bound = relocate_binder_size"
  shows "redeemed as (Ticket secret auth exchange port expiry token peer) = [] \<or>
    (\<exists>now. redeemed as (Ticket secret auth exchange port expiry token peer) =
       [(now, port, token, relocation_bind secret auth exchange port expiry token peer, peer)] \<and> now \<le> expiry)"
  using redeemed_once [of as "Ticket secret auth exchange port expiry token peer"] assms
  by (simp add: Ticket_def relocate_binder_size_def)

theorem ticket_single_use_witness:
  "\<exists>b. length b = 32 \<and> redeemed [(3, 9, [1], b, ''p''), (4, 9, [1], b, ''p'')]
     (Ticket (replicate 16 1) [] 7 9 10 [1] ''p'') = [(3, 9, [1], b, ''p'')]"
proof -
  define b where "b = relocation_bind (replicate 16 1) [] 7 9 10 [1] ''p''"
  let ?t = "Ticket (replicate 16 1) [] 7 9 10 [1] ''p''"
  let ?as = "[(3, 9, [1], b, ''p''), (4, 9, [1], b, ''p'')] :: attempt list"
  have "redeemed ?as ?t \<noteq> []"
    using consume_iff [of b ?t 3 9 "[1]" "''p''"] by (auto simp: Ticket_def b_def split: prod.splits)
  then obtain now where "redeemed ?as ?t = [(now, 9, [1], b, ''p'')]" "now \<le> 10"
    using ticket_single_use [of ?as "replicate 16 1" "[]" 7 9 10 "[1]" "''p''"]
    by (auto simp: b_def relocate_binder_size_def)
  moreover have "fst (hd (redeemed ?as ?t)) = 3"
    using consume_iff [of b ?t 3 9 "[1]" "''p''"] by (auto simp: Ticket_def b_def split: prod.splits)
  ultimately show ?thesis
    by (intro exI [of _ b]) (auto simp: b_def)
qed

end
