(* ===== verification/Ip.thy ===== *)
theory Ip
  imports Codec
begin

text \<open>
  Hop compensation of tunnelled IP packets, \<open>src/ip.hpp\<close>: the header checksum with its carry
  folding on 32-bit accumulators, and the time-to-live and hop-limit increments.
\<close>

subsection \<open>Definitions\<close>

definition ipv4_header_min_size :: nat where "ipv4_header_min_size = 20"
definition ipv6_header_size :: nat where "ipv6_header_size = 40"

lemma unat_low16: "unat (s AND 0xffff :: u32) = unat s mod 65536"
proof -
  have "(0xffff :: u32) = mask 16"
    by (simp add: mask_eq_exp_minus_1)
  then have "unat (s AND 0xffff) = take_bit 16 (unat s)"
    unfolding unsigned_take_bit_eq [symmetric] by (simp add: take_bit_eq_mask)
  then show ?thesis
    by (simp add: take_bit_eq_mod)
qed

lemma unat_high16: "unat (drop_bit 16 s :: u32) = unat s div 65536"
  unfolding unat_drop_bit_eq by (simp add: drop_bit_eq_div)

lemma unat_fold_step: "unat ((s AND 0xffff) + drop_bit 16 s :: u32) = unat s mod 65536 + unat s div 65536"
proof -
  have "unat s div 65536 < 65536"
    using unsigned_less [of s, where ?'a = nat] by (simp add: div_less_iff_less_mult)
  then show ?thesis
    using mod_less_divisor [of 65536 "unat s"] by (simp add: unat_word_ariths unat_low16 unat_high16)
qed

text \<open>\<open>while ((sum >> 16) != 0) sum = (sum & 0xffff) + (sum >> 16)\<close>\<close>

function fold_carry :: "u32 \<Rightarrow> u32" where
  "fold_carry s = (if drop_bit 16 s \<noteq> 0 then fold_carry ((s AND 0xffff) + drop_bit 16 s) else s)"
  by pat_completeness auto
termination
proof (relation "measure unat")
  fix s :: u32
  assume "drop_bit 16 s \<noteq> 0"
  then have "unat s div 65536 \<noteq> 0"
    using unat_high16 [of s] by (metis unat_eq_zero)
  moreover have "unat s = 65536 * (unat s div 65536) + unat s mod 65536"
    by simp
  ultimately show "((s AND 0xffff) + drop_bit 16 s, s) \<in> measure unat"
    unfolding in_measure unat_fold_step by linarith
qed simp

declare fold_carry.simps [simp del]

fun checksum_loop :: "u32 \<Rightarrow> bytes \<Rightarrow> u32" where
  "checksum_loop acc (a # b # rest) =
     checksum_loop (fold_carry (acc + ucast (push_bit 8 (ucast a) OR ucast b :: u16))) rest"
| "checksum_loop acc [a] = acc + ucast (push_bit 8 (ucast a) :: u16)"
| "checksum_loop acc [] = acc"

definition ipv4_header_checksum :: "bytes \<Rightarrow> u16" where
  "ipv4_header_checksum data = ucast (NOT (fold_carry (checksum_loop 0 data)))"

definition compensate_ipv4_ttl :: "bytes \<Rightarrow> bool \<times> bytes" where
  "compensate_ipv4_ttl packet =
     (if length packet < ipv4_header_min_size then (False, packet)
      else
        let header_size = unat (packet ! 0 AND 0x0f) * 4
        in if header_size < ipv4_header_min_size \<or> header_size > length packet then (False, packet)
           else if packet ! 8 = 255 then (True, packet)
           else
             let packet = packet[8 := packet ! 8 + 1, 10 := 0, 11 := 0];
                 checksum = ipv4_header_checksum (take header_size packet)
             in (True, take 10 packet @ store_be16 checksum @ drop 12 packet))"

definition compensate_ipv6_hop_limit :: "bytes \<Rightarrow> bool \<times> bytes" where
  "compensate_ipv6_hop_limit packet =
     (if length packet < ipv6_header_size then (False, packet)
      else (True, if packet ! 7 < 255 then packet[7 := packet ! 7 + 1] else packet))"

text \<open>The skipped packets are only logged.\<close>

definition compensate_ip_hop :: "bytes \<Rightarrow> bytes" where
  "compensate_ip_hop packet =
     (if packet = [] then packet
      else
        let version = drop_bit 4 (packet ! 0)
        in if version = 4 then snd (compensate_ipv4_ttl packet)
           else if version = 6 then snd (compensate_ipv6_hop_limit packet)
           else packet)"

subsection \<open>One's complement sums\<close>

fun ones_sum :: "bytes \<Rightarrow> nat" where
  "ones_sum (a # b # rest) = unat (load_be16 [a, b]) + ones_sum rest"
| "ones_sum [a] = unat a * 256"
| "ones_sum [] = 0"

lemma ones_sum_append: "even (length xs) \<Longrightarrow> ones_sum (xs @ ys) = ones_sum xs + ones_sum ys"
  by (induction xs rule: ones_sum.induct) auto

lemma fold_mod: "(n mod 65536 + n div 65536) mod 65535 = n mod (65535 :: nat)"
proof -
  have "n = 65535 * (n div 65536) + (n mod 65536 + n div 65536)"
    using mult_div_mod_eq [of 65536 n] by linarith
  then show ?thesis
    by (metis mod_mult_self4)
qed

lemma ones_sum_store: "ones_sum (store_be16 c) = unat c"
  using load_store_be16 [of c "[]"] by (simp add: store_be16_def)

lemma fold_carry_sum:
  "unat (fold_carry s) \<le> 65535 \<and> unat (fold_carry s) mod 65535 = unat s mod 65535 \<and> (unat (fold_carry s) = 0 \<longleftrightarrow> unat s = 0)"
proof (induction s rule: fold_carry.induct)
  case (1 s)
  let ?s = "(s AND 0xffff) + drop_bit 16 s"
  show ?case
  proof (cases "drop_bit 16 s = 0")
    case True
    then have "unat s div 65536 = 0"
      using unat_high16 [of s] by simp
    then show ?thesis
      using True by (auto simp: fold_carry.simps [of s])
  next
    case False
    have split: "unat s = 65536 * (unat s div 65536) + unat s mod 65536"
      by simp
    have "unat ?s mod 65535 = unat s mod 65535"
      unfolding unat_fold_step by (rule fold_mod)
    moreover have "unat ?s = 0 \<longleftrightarrow> unat s = 0"
      using split unfolding unat_fold_step by auto
    ultimately show ?thesis
      using 1 False by (simp add: fold_carry.simps [of s])
  qed
qed

lemma unat_ucast_16_32: "unat (ucast (x :: u16) :: u32) = unat x"
  using unsigned_less [of x, where ?'a = nat] by (simp add: unsigned_ucast_eq take_bit_nat_eq_self)

lemma unat_high_byte: "unat (push_bit 8 (ucast (a :: u8)) :: u16) = unat a * 256"
proof -
  have "unat a < 256"
    using unsigned_less [of a, where ?'a = nat] by simp
  then show ?thesis
    by (simp add: push_bit_eq_mult unat_word_ariths unsigned_ucast_eq take_bit_nat_eq_self)
qed

lemma checksum_loop_sum:
  "unat s \<le> 65535 \<Longrightarrow> unat (fold_carry (checksum_loop s data)) mod 65535 = (unat s + ones_sum data) mod 65535 \<and>
     (unat (fold_carry (checksum_loop s data)) = 0 \<longleftrightarrow> unat s + ones_sum data = 0)"
proof (induction s data rule: checksum_loop.induct)
  case (1 s a b rest)
  let ?w = "load_be16 [a, b]"
  let ?t = "s + ucast ?w"
  have t: "unat ?t = unat s + unat ?w"
    using 1(2) unsigned_less [of ?w, where ?'a = nat] by (simp add: unat_word_ariths unat_ucast_16_32)
  have step: "checksum_loop s (a # b # rest) = checksum_loop (fold_carry ?t) rest"
    by (simp add: load_be16_def)
  note f = fold_carry_sum [of ?t]
  have IH: "unat (fold_carry (checksum_loop (fold_carry ?t) rest)) mod 65535 = (unat (fold_carry ?t) + ones_sum rest) mod 65535 \<and>
     (unat (fold_carry (checksum_loop (fold_carry ?t) rest)) = 0 \<longleftrightarrow> unat (fold_carry ?t) + ones_sum rest = 0)"
    using 1(1) f by (simp add: load_be16_def)
  have "(unat (fold_carry ?t) + ones_sum rest) mod 65535 = (unat ?t + ones_sum rest) mod 65535"
    by (rule mod_add_cong) (use f in simp_all)
  moreover have "unat s + ones_sum (a # b # rest) = unat ?t + ones_sum rest"
    by (simp add: t)
  ultimately show ?case
    using IH f unfolding step by (simp only: add_is_0)
next
  case (2 s a)
  let ?t = "s + ucast (push_bit 8 (ucast a) :: u16)"
  have "unat a < 256"
    using unsigned_less [of a, where ?'a = nat] by simp
  then have "unat ?t = unat s + unat a * 256"
    using 2 by (simp add: unat_word_ariths unat_ucast_16_32 unat_high_byte)
  then show ?case
    using fold_carry_sum [of ?t] by simp
next
  case (3 s)
  then show ?case
    using fold_carry_sum [of s] by simp
qed

lemma unat_not_16: "unat (NOT (x :: u16)) = 65535 - unat x"
proof -
  have "NOT x = - 1 - x"
    by (simp add: not_eq_complement)
  moreover have "x \<le> - 1"
    by simp
  ultimately show ?thesis
    by (simp add: unat_sub unsigned_minus_1_eq_mask mask_eq_exp_minus_1)
qed

lemma unat_checksum: "unat (ipv4_header_checksum data) = 65535 - unat (fold_carry (checksum_loop 0 data))"
proof -
  let ?s = "fold_carry (checksum_loop 0 data)"
  have "ucast (NOT ?s) = NOT (ucast ?s :: u16)"
    by (rule bit_word_eqI) (auto simp: bit_simps)
  moreover have "unat (ucast ?s :: u16) = unat ?s"
    using fold_carry_sum [of "checksum_loop 0 data"] by (simp add: unsigned_ucast_eq take_bit_nat_eq_self)
  ultimately show ?thesis
    by (simp add: ipv4_header_checksum_def unat_not_16)
qed

text \<open>A header verifies when its checksum field completes the sum.\<close>

lemma checksum_zero:
  assumes "ones_sum data mod 65535 = 0" "ones_sum data \<noteq> 0"
  shows "ipv4_header_checksum data = 0"
proof -
  let ?s = "unat (fold_carry (checksum_loop 0 data))"
  have "?s mod 65535 = 0" "?s \<noteq> 0" "?s \<le> 65535"
    using checksum_loop_sum [of 0 data] fold_carry_sum [of "checksum_loop 0 data"] assms by simp_all
  then have "?s = 65535"
    by (metis dvd_imp_le le_antisym mod_0_imp_dvd neq0_conv)
  then show ?thesis
    using unat_checksum [of data] by (simp add: unat_eq_zero)
qed

lemma checksum_completes:
  assumes "even (length xs)"
  shows "ipv4_header_checksum (xs @ store_be16 (ipv4_header_checksum (xs @ [0, 0] @ ys)) @ ys) = 0"
proof -
  let ?zero = "xs @ [0, 0] @ ys"
  let ?c = "ipv4_header_checksum ?zero"
  let ?s = "unat (fold_carry (checksum_loop 0 ?zero))"
  have c: "unat ?c = 65535 - ?s" and s: "?s mod 65535 = ones_sum ?zero mod 65535" "?s = 0 \<longleftrightarrow> ones_sum ?zero = 0" "?s \<le> 65535"
    using unat_checksum [of ?zero] checksum_loop_sum [of 0 ?zero] fold_carry_sum [of "checksum_loop 0 ?zero"] by simp_all
  have total: "ones_sum (xs @ store_be16 ?c @ ys) = ones_sum ?zero + unat ?c"
    using assms by (simp add: ones_sum_append ones_sum_store) (simp add: load_be16_def)
  have "(ones_sum ?zero + unat ?c) mod 65535 = (?s + unat ?c) mod 65535"
    by (rule mod_add_cong) (use s(1) in simp_all)
  also have "\<dots> = 0"
    using c s(3) by simp
  finally have "ones_sum (xs @ store_be16 ?c @ ys) mod 65535 = 0"
    using total by simp
  moreover have "ones_sum (xs @ store_be16 ?c @ ys) \<noteq> 0"
    using total c s(2) by auto
  ultimately show ?thesis
    by (rule checksum_zero)
qed


subsection \<open>Hop compensation\<close>

lemma list_around_10: "12 \<le> length xs \<Longrightarrow> xs[10 := a, 11 := b] = take 10 xs @ [a, b] @ drop 12 xs"
  by (rule nth_equalityI) (auto simp: nth_append nth_list_update nth_Cons')

text \<open>
  C32. Compensating the time to live keeps an IPv4 packet well formed. When the header has room
  (length field of at least 20 bytes, inside the packet) and the field is below its maximum,
  exactly the time-to-live byte is incremented and the two checksum bytes are replaced; all
  other bytes and the length stay, and the new header verifies: its checksum is zero.
\<close>

theorem ttl_compensation:
  assumes "20 \<le> unat (packet ! 0 AND 0x0f) * 4" "unat (packet ! 0 AND 0x0f) * 4 \<le> length packet" "packet ! 8 \<noteq> 255"
  defines "header_size \<equiv> unat (packet ! 0 AND 0x0f) * 4" and "packet' \<equiv> snd (compensate_ipv4_ttl packet)"
  shows "fst (compensate_ipv4_ttl packet) \<and> length packet' = length packet \<and> packet' ! 8 = packet ! 8 + 1 \<and>
    (\<forall>i. i \<notin> {8, 10, 11} \<longrightarrow> packet' ! i = packet ! i) \<and> ipv4_header_checksum (take header_size packet') = 0"
proof -
  define p where "p = packet[8 := packet ! 8 + 1]"
  define c where "c = ipv4_header_checksum (take header_size (p[10 := 0, 11 := 0]))"
  have len: "20 \<le> header_size" "header_size \<le> length p" "length p = length packet"
    using assms(1,2) by (simp_all add: header_size_def p_def)
  have zero: "p[10 := 0, 11 := 0] = take 10 p @ [0, 0] @ drop 12 p"
    using len by (intro list_around_10) simp
  have eq: "compensate_ipv4_ttl packet = (True, take 10 p @ store_be16 c @ drop 12 p)"
    using assms(1-3) len zero
    by (simp add: compensate_ipv4_ttl_def Let_def ipv4_header_min_size_def header_size_def [symmetric] c_def p_def)
  have p': "packet' = take 10 p @ store_be16 c @ drop 12 p"
    by (simp add: packet'_def eq)
  obtain a b where ab: "store_be16 c = [a, b]"
    by (simp add: store_be16_def)
  have upd: "packet' = p[10 := a, 11 := b]"
    using len by (subst list_around_10) (simp_all add: p' ab)
  have split: "take header_size (take 10 p @ [x, y] @ drop 12 p) = take 10 p @ [x, y] @ drop 12 (take header_size p)" for x y
    using len by (simp add: take_Cons' drop_take)
  have "ipv4_header_checksum (take 10 p @ store_be16 c @ drop 12 (take header_size p)) = 0"
    unfolding c_def zero split by (rule checksum_completes) (use len in simp)
  then have "ipv4_header_checksum (take header_size packet') = 0"
    unfolding p' ab split .
  moreover have "packet' ! 8 = packet ! 8 + 1" "\<forall>i. i \<notin> {8, 10, 11} \<longrightarrow> packet' ! i = packet ! i"
    using len by (auto simp: upd p_def)
  ultimately show ?thesis
    using eq len by (simp add: upd)
qed

definition sample_ipv4 :: bytes where
  "sample_ipv4 = [0x45, 0, 0, 20, 0, 0, 0, 0, 64, 17, 0, 0, 10, 0, 0, 1, 10, 0, 0, 2]"

theorem ttl_compensation_witness:
  "fst (compensate_ipv4_ttl sample_ipv4) \<and> snd (compensate_ipv4_ttl sample_ipv4) ! 8 = 65 \<and>
   snd (compensate_ipv4_ttl sample_ipv4) ! 19 = 2 \<and>
   ipv4_header_checksum (take 20 (snd (compensate_ipv4_ttl sample_ipv4))) = 0"
proof -
  have s: "unat (sample_ipv4 ! 0 AND 0x0f) * 4 = 20" "length sample_ipv4 = 20" "sample_ipv4 ! 8 = 64" "sample_ipv4 ! 19 = 2"
    by (simp_all add: sample_ipv4_def)
  then show ?thesis
    using ttl_compensation [of sample_ipv4] by (simp del: take_all_iff take_all)
qed

end
