(* ===== verification/Ip_Flow.thy ===== *)
theory Ip_Flow
  imports Codec "HOL-Library.Monad_Syntax"
begin

text \<open>
  Flow keys of IP packets, \<open>src/ip_flow.hpp\<close>. The parser reads the packet through \<open>byte_at\<close>,
  which has no value outside the buffer: a read out of bounds makes the whole parse \<open>None\<close>.
  Inside, the result is \<open>None\<close> where the code returns false, and the parsed flow otherwise.
\<close>

subsection \<open>Keys\<close>

record ip_pair_key =
  ip_version :: u8
  ip_source :: bytes
  ip_destination :: bytes

record flow_key = ip_pair_key +
  fl_protocol :: u8
  fl_source_port :: u16
  fl_destination_port :: u16

definition ip_pair_init :: ip_pair_key where
  "ip_pair_init = \<lparr>ip_version = 0, ip_source = replicate 16 0, ip_destination = replicate 16 0\<rparr>"

definition flow_key_init :: flow_key where
  "flow_key_init = \<lparr>ip_version = 0, ip_source = replicate 16 0, ip_destination = replicate 16 0, fl_protocol = 0,
     fl_source_port = 0, fl_destination_port = 0\<rparr>"

definition hash_bytes :: "bytes \<Rightarrow> u64" where
  "hash_bytes data = foldl (\<lambda>hash b. (hash XOR ucast b) * 1099511628211) 1469598103934665603 data"

definition ip_pair_hash :: "'a ip_pair_key_scheme \<Rightarrow> u64" where
  "ip_pair_hash key =
     (hash_bytes (ip_source key) XOR push_bit 1 (hash_bytes (ip_destination key)) XOR ucast (ip_version key))"

definition flow_hash :: "flow_key \<Rightarrow> u64" where
  "flow_hash key =
     (ip_pair_hash key XOR push_bit 8 (ucast (fl_protocol key)) XOR push_bit 16 (ucast (fl_source_port key)) XOR
      ucast (fl_destination_port key))"

record parsed_ip_flow =
  pf_l3 :: ip_pair_key
  pf_l4 :: flow_key
  pf_protocol :: u8
  pf_has_protocol :: bool
  pf_has_l4 :: bool
  pf_fragmented :: bool

definition parsed_init :: parsed_ip_flow where
  "parsed_init = \<lparr>pf_l3 = ip_pair_init, pf_l4 = flow_key_init, pf_protocol = 0, pf_has_protocol = False,
     pf_has_l4 = False, pf_fragmented = False\<rparr>"

subsection \<open>Parsing\<close>

definition byte_at :: "bytes \<Rightarrow> nat \<Rightarrow> u8 option" where
  "byte_at packet i = (if i < length packet then Some (packet ! i) else None)"

definition load_u16 :: "bytes \<Rightarrow> nat \<Rightarrow> u16 option" where
  "load_u16 packet i = do { a \<leftarrow> byte_at packet i; b \<leftarrow> byte_at packet (i + 1);
     Some (push_bit 8 (ucast a) OR ucast b) }"

text \<open>\<open>std::memcpy\<close> of \<open>n\<close> bytes into the front of a zeroed 16-byte array.\<close>

definition copy_address :: "bytes \<Rightarrow> nat \<Rightarrow> nat \<Rightarrow> bytes option" where
  "copy_address packet i n = (if i + n \<le> length packet then Some (slice i n packet @ replicate (16 - n) 0) else None)"

definition ip6_extension :: "u8 \<Rightarrow> bool" where
  "ip6_extension protocol \<longleftrightarrow> protocol = 0 \<or> protocol = 43 \<or> protocol = 44 \<or> protocol = 51 \<or> protocol = 60"

text \<open>
  The bounded traversal of IPv6 extension headers: invalid, a later fragment with the protocol
  its header names, or the protocol and offset where the traversal stopped.
\<close>

datatype extension_walk = Walk_invalid | Walk_fragment u8 | Walk_end u8 nat bool

fun walk_extensions :: "nat \<Rightarrow> bytes \<Rightarrow> nat \<Rightarrow> u8 \<Rightarrow> nat \<Rightarrow> bool \<Rightarrow> extension_walk option" where
  "walk_extensions 0 packet limit protocol offset fragmented = Some (Walk_end protocol offset fragmented)"
| "walk_extensions (Suc count) packet limit protocol offset fragmented =
     (if protocol = 44 then
        (if offset + 8 > limit then Some Walk_invalid
         else do {
           fragment \<leftarrow> load_u16 packet (offset + 2);
           named \<leftarrow> byte_at packet offset;
           if fragment AND 0xfff8 \<noteq> 0 then Some (Walk_fragment named)
           else walk_extensions count packet limit named (offset + 8) True })
      else if protocol = 0 \<or> protocol = 43 \<or> protocol = 60 then
        (if offset + 2 > limit then Some Walk_invalid
         else do {
           units \<leftarrow> byte_at packet (offset + 1);
           let len = (unat units + 1) * 8;
           if offset + len > limit then Some Walk_invalid
           else do {
             named \<leftarrow> byte_at packet offset;
             walk_extensions count packet limit named (offset + len) fragmented } })
      else if protocol = 51 then
        (if offset + 2 > limit then Some Walk_invalid
         else do {
           units \<leftarrow> byte_at packet (offset + 1);
           let len = (unat units + 2) * 4;
           if offset + len > limit then Some Walk_invalid
           else do {
             named \<leftarrow> byte_at packet offset;
             walk_extensions count packet limit named (offset + len) fragmented } })
      else Some (Walk_end protocol offset fragmented))"

text \<open>The transport part shared by both families; \<open>size\<close> is the length the IP header states.\<close>

definition parse_transport :: "bytes \<Rightarrow> nat \<Rightarrow> u8 \<Rightarrow> nat \<Rightarrow> parsed_ip_flow \<Rightarrow> parsed_ip_flow option option" where
  "parse_transport packet limit protocol offset p =
     (let p = p\<lparr>pf_protocol := protocol, pf_has_protocol := True,
                pf_l4 := (pf_l4 p)\<lparr>ip_version := ip_version (pf_l3 p), ip_source := ip_source (pf_l3 p),
                  ip_destination := ip_destination (pf_l3 p), fl_protocol := protocol\<rparr>\<rparr>
      in if (protocol = 6 \<or> protocol = 17) \<and> offset + 4 \<le> limit then
           do {
             sport \<leftarrow> load_u16 packet offset;
             dport \<leftarrow> load_u16 packet (offset + 2);
             Some (Some (p\<lparr>pf_l4 := (pf_l4 p)\<lparr>fl_source_port := sport, fl_destination_port := dport\<rparr>, pf_has_l4 := True\<rparr>)) }
         else Some (Some p))"

definition parse_ipv4 :: "bytes \<Rightarrow> parsed_ip_flow option option" where
  "parse_ipv4 packet =
     (if length packet < 20 then Some None
      else do {
        first \<leftarrow> byte_at packet 0;
        total_size \<leftarrow> load_u16 packet 2;
        let header_size = unat (first AND 0x0f) * 4; let limit = unat total_size;
        if header_size < 20 \<or> header_size > length packet \<or> limit < header_size \<or> limit > length packet then Some None
        else do {
          source \<leftarrow> copy_address packet 12 4;
          destination \<leftarrow> copy_address packet 16 4;
          protocol \<leftarrow> byte_at packet 9;
          fragment \<leftarrow> load_u16 packet 6;
          let p = parsed_init\<lparr>pf_l3 := \<lparr>ip_version = 4, ip_source = source, ip_destination = destination\<rparr>,
                    pf_protocol := protocol, pf_has_protocol := True, pf_fragmented := fragment AND 0x3fff \<noteq> 0\<rparr>;
          if fragment AND 0x1fff \<noteq> 0 then Some (Some p) else parse_transport packet limit protocol header_size p } })"

definition parse_ipv6 :: "bytes \<Rightarrow> parsed_ip_flow option option" where
  "parse_ipv6 packet =
     (if length packet < 40 then Some None
      else do {
        payload_size \<leftarrow> load_u16 packet 4;
        let limit = 40 + unat payload_size;
        if limit > length packet then Some None
        else do {
          source \<leftarrow> copy_address packet 8 16;
          destination \<leftarrow> copy_address packet 24 16;
          first \<leftarrow> byte_at packet 6;
          let p = parsed_init\<lparr>pf_l3 := \<lparr>ip_version = 6, ip_source = source, ip_destination = destination\<rparr>\<rparr>;
          walked \<leftarrow> walk_extensions 8 packet limit first 40 False;
          case walked of
            Walk_invalid \<Rightarrow> Some None
          | Walk_fragment protocol \<Rightarrow>
              Some (Some (p\<lparr>pf_fragmented := True, pf_protocol := protocol, pf_has_protocol := \<not> ip6_extension protocol\<rparr>))
          | Walk_end protocol offset fragmented \<Rightarrow>
              if ip6_extension protocol then Some None
              else parse_transport packet limit protocol offset (p\<lparr>pf_fragmented := fragmented\<rparr>) } })"

definition parse_ip_flow :: "bytes \<Rightarrow> parsed_ip_flow option option" where
  "parse_ip_flow packet =
     (if packet = [] then Some None
      else do {
        first \<leftarrow> byte_at packet 0;
        let version = drop_bit 4 first;
        if version = 4 then parse_ipv4 packet
        else if version = 6 then parse_ipv6 packet
        else Some None })"

definition reverse_pair :: "ip_pair_key \<Rightarrow> ip_pair_key" where
  "reverse_pair key = key\<lparr>ip_source := ip_destination key, ip_destination := ip_source key\<rparr>"

definition reverse_key :: "flow_key \<Rightarrow> flow_key" where
  "reverse_key key = key\<lparr>ip_source := ip_destination key, ip_destination := ip_source key,
     fl_source_port := fl_destination_port key, fl_destination_port := fl_source_port key\<rparr>"

subsection \<open>Every read is inside the packet\<close>

lemma byte_at_some: "i < length packet \<Longrightarrow> \<exists>b. byte_at packet i = Some b"
  by (simp add: byte_at_def)

lemma load_u16_some: "i + 1 < length packet \<Longrightarrow> \<exists>w. load_u16 packet i = Some w"
  by (simp add: load_u16_def byte_at_def)

lemma walk_extensions_in_bounds:
  "limit \<le> length packet \<Longrightarrow> \<exists>w. walk_extensions n packet limit protocol offset fragmented = Some w"
proof (induction n arbitrary: protocol offset fragmented)
  case (Suc n)
  then show ?case
    by (auto simp: load_u16_def byte_at_def Let_def)
qed simp

text \<open>
  What a parsed flow promises its users: the family is 4 or 6, the addresses fill their
  arrays, and a flow with ports is TCP or UDP, has a protocol and carries the address pair.
\<close>

definition pair_ok :: "'a ip_pair_key_scheme \<Rightarrow> bool" where
  "pair_ok k \<longleftrightarrow> (ip_version k = 4 \<or> ip_version k = 6) \<and> length (ip_source k) = 16 \<and> length (ip_destination k) = 16"

definition flow_ok :: "parsed_ip_flow \<Rightarrow> bool" where
  "flow_ok p \<longleftrightarrow> pair_ok (pf_l3 p) \<and>
     (pf_has_l4 p \<longrightarrow> pf_has_protocol p \<and> (pf_protocol p = 6 \<or> pf_protocol p = 17) \<and>
        ip_pair_key.truncate (pf_l4 p) = pf_l3 p \<and> fl_protocol (pf_l4 p) = pf_protocol p)"

lemma parse_transport_ok:
  assumes "limit \<le> length packet" "pair_ok (pf_l3 p)" "\<not> pf_has_l4 p"
  shows "\<exists>r. parse_transport packet limit protocol offset p = Some (Some r) \<and> flow_ok r"
  using assms
  by (cases p) (auto simp: parse_transport_def load_u16_def byte_at_def Let_def flow_ok_def pair_ok_def ip_pair_key.defs)

lemma copy_address_some:
  "i + n \<le> length packet \<Longrightarrow> n \<le> 16 \<Longrightarrow> \<exists>a. copy_address packet i n = Some a \<and> length a = 16"
  by (simp add: copy_address_def)

lemma parse_ipv4_ok: "\<exists>r. parse_ipv4 packet = Some r \<and> (\<forall>p. r = Some p \<longrightarrow> flow_ok p)"
proof (cases "length packet < 20")
  case False
  then obtain v t s d pr f where reads: "byte_at packet 0 = Some v" "load_u16 packet 2 = Some t"
    "copy_address packet 12 4 = Some s" "copy_address packet 16 4 = Some d" "byte_at packet 9 = Some pr"
    "load_u16 packet 6 = Some f" and len: "length s = 16" "length d = 16"
    using copy_address_some [of 12 4 packet] copy_address_some [of 16 4 packet] load_u16_some [of 2 packet]
      load_u16_some [of 6 packet] byte_at_some [of 0 packet] byte_at_some [of 9 packet]
    by fastforce
  define p where "p = parsed_init\<lparr>pf_l3 := \<lparr>ip_version = 4, ip_source = s, ip_destination = d\<rparr>,
    pf_protocol := pr, pf_has_protocol := True, pf_fragmented := f AND 0x3fff \<noteq> 0\<rparr>"
  have p: "pair_ok (pf_l3 p)" "\<not> pf_has_l4 p"
    using len by (simp_all add: p_def parsed_init_def pair_ok_def)
  then have "flow_ok p"
    by (simp add: flow_ok_def)
  moreover have "unat t \<le> length packet \<Longrightarrow>
      \<exists>r. parse_transport packet (unat t) pr (unat (v AND 15) * 4) p = Some r \<and> (\<forall>p. r = Some p \<longrightarrow> flow_ok p)"
    using parse_transport_ok [OF _ p, of "unat t" packet pr "unat (v AND 15) * 4"] by auto
  ultimately show ?thesis
    using False reads by (simp add: parse_ipv4_def Let_def p_def [symmetric] not_less)
qed (simp add: parse_ipv4_def)

lemma parse_ipv6_ok: "\<exists>r. parse_ipv6 packet = Some r \<and> (\<forall>p. r = Some p \<longrightarrow> flow_ok p)"
proof (cases "length packet < 40")
  case False
  then obtain t s d pr where reads: "load_u16 packet 4 = Some t" "copy_address packet 8 16 = Some s"
    "copy_address packet 24 16 = Some d" "byte_at packet 6 = Some pr" and len: "length s = 16" "length d = 16"
    using copy_address_some [of 8 16 packet] copy_address_some [of 24 16 packet] load_u16_some [of 4 packet]
      byte_at_some [of 6 packet]
    by fastforce
  define p where "p = parsed_init\<lparr>pf_l3 := \<lparr>ip_version = 6, ip_source = s, ip_destination = d\<rparr>\<rparr>"
  have p: "pair_ok (pf_l3 p)" "\<not> pf_has_l4 p"
    using len by (simp_all add: p_def parsed_init_def pair_ok_def)
  show ?thesis
  proof (cases "40 + unat t > length packet")
    case inside: False
    obtain w where w: "walk_extensions 8 packet (40 + unat t) pr 40 False = Some w"
      using walk_extensions_in_bounds [of "40 + unat t" packet] inside by (metis not_less)
    have frag: "flow_ok (p\<lparr>pf_fragmented := True, pf_protocol := x, pf_has_protocol := y\<rparr>)" for x y
      using p by (simp add: flow_ok_def)
    have rest: "\<exists>r. parse_transport packet (40 + unat t) x y (p\<lparr>pf_fragmented := z\<rparr>) = Some (Some r) \<and> flow_ok r" for x y z
      using inside p by (intro parse_transport_ok) simp_all
    have "parse_ipv6 packet = (case w of
            Walk_invalid \<Rightarrow> Some None
          | Walk_fragment protocol \<Rightarrow>
              Some (Some (p\<lparr>pf_fragmented := True, pf_protocol := protocol, pf_has_protocol := \<not> ip6_extension protocol\<rparr>))
          | Walk_end protocol offset fragmented \<Rightarrow>
              if ip6_extension protocol then Some None
              else parse_transport packet (40 + unat t) protocol offset (p\<lparr>pf_fragmented := fragmented\<rparr>))"
      using False inside reads w by (cases w) (simp_all add: parse_ipv6_def Let_def p_def)
    moreover have "\<exists>r. \<dots> = Some r \<and> (\<forall>p. r = Some p \<longrightarrow> flow_ok p)"
    proof (cases w)
      case (Walk_end x y z)
      then show ?thesis
        using rest [of x y z] by auto
    qed (simp_all add: frag)
    ultimately show ?thesis
      by (simp only:)
  qed (use False reads in \<open>simp add: parse_ipv6_def Let_def\<close>)
qed (simp add: parse_ipv6_def)

lemma parse_ip_flow_result: "\<exists>r. parse_ip_flow packet = Some r \<and> (\<forall>p. r = Some p \<longrightarrow> flow_ok p)"
  using parse_ipv4_ok [of packet] parse_ipv6_ok [of packet]
  by (auto simp: parse_ip_flow_def byte_at_def Let_def)

text \<open>
  C27. Parsing a packet never reads outside it. For every byte sequence, whatever its length
  and its header, extension and fragment fields say, the parser either refuses the packet
  or yields a flow, and all its reads lie inside the buffer.
\<close>

theorem parse_ip_flow_in_bounds: "parse_ip_flow packet \<noteq> None"
  using parse_ip_flow_result [of packet] by auto

text \<open>
  C33. Every flow the parser yields is well formed: IPv4 or IPv6, full 16-byte addresses, and
  ports only for TCP or UDP, with a layer-4 key that extends exactly the layer-3 pair.
\<close>

theorem parse_ip_flow_typed: "parse_ip_flow packet = Some (Some p) \<Longrightarrow> flow_ok p"
  using parse_ip_flow_result [of packet] by auto

text \<open>An IPv6 packet with a hop-by-hop header in front of UDP ports 53 and 4660.\<close>

definition sample_v6 :: bytes where
  "sample_v6 = [0x60, 0, 0, 0, 0, 16, 0, 64] @ replicate 16 1 @ replicate 16 2 @
     [17, 0, 0, 0, 0, 0, 0, 0] @ [0, 53, 0x12, 0x34, 0, 8, 0, 0]"

theorem parse_ip_flow_typed_witness:
  "\<exists>p. parse_ip_flow sample_v6 = Some (Some p) \<and> flow_ok p \<and> pf_has_l4 p \<and> fl_destination_port (pf_l4 p) = 0x1234"
proof -
  have "case parse_ip_flow sample_v6 of
      Some (Some p) \<Rightarrow> pf_has_l4 p \<and> fl_destination_port (pf_l4 p) = 0x1234 | _ \<Rightarrow> False"
    by code_simp
  with parse_ip_flow_typed [of sample_v6] show ?thesis
    by (auto split: option.splits)
qed

subsection \<open>Reversal\<close>

lemma reverse_key_involution [simp]: "reverse_key (reverse_key k) = k" "reverse_pair (reverse_pair l) = l"
  by (simp_all add: reverse_key_def reverse_pair_def)

lemma reverse_key_pair: "ip_pair_key.truncate (reverse_key k) = reverse_pair (ip_pair_key.truncate k)"
  by (cases k) (simp add: reverse_key_def reverse_pair_def ip_pair_key.defs)

end
