(* ===== verification/Siphash.thy ===== *)
theory Siphash
  imports Wire
begin

text \<open>
  SipHash-2-4 as vendored in \<open>src/vendor/siphash.hpp\<close>: the routine over a buffer, with its
  tail switch, and the two unrolled routines over one and two 64-bit words, against the
  published definition of the function on padded blocks.
\<close>

type_synonym sip_key = "u64 \<times> u64"
type_synonym sip_state = "u64 \<times> u64 \<times> u64 \<times> u64"

definition rol64 :: "u64 \<Rightarrow> nat \<Rightarrow> u64" where
  "rol64 value count = (push_bit count value OR drop_bit (64 - count) value)"

definition load_le :: "nat \<Rightarrow> bytes \<Rightarrow> u64" where
  "load_le n data = foldl (\<lambda>value i. value OR push_bit (8 * i) (ucast (data ! i))) 0 [0..<n]"

definition sip_permutation :: "sip_state \<Rightarrow> sip_state" where
  "sip_permutation st = (case st of (a, b, c, d) \<Rightarrow>
     (let a = a + b; b = rol64 b 13; b = b XOR a; a = rol64 a 32;
          c = c + d; d = rol64 d 16; d = d XOR c;
          a = a + d; d = rol64 d 21; d = d XOR a;
          c = c + b; b = rol64 b 17; b = b XOR c; c = rol64 c 32
      in (a, b, c, d)))"

definition sip_const :: sip_state where
  "sip_const = (0x736f6d6570736575, 0x646f72616e646f6d, 0x6c7967656e657261, 0x7465646279746573)"

definition sip_preamble :: "sip_key \<Rightarrow> sip_state" where
  "sip_preamble key = (case sip_const of (v0, v1, v2, v3) \<Rightarrow>
     (v0 XOR fst key, v1 XOR snd key, v2 XOR fst key, v3 XOR snd key))"

definition sip_length :: "nat \<Rightarrow> u64" where
  "sip_length len = push_bit 56 (of_nat len)"

definition sip_postamble :: "sip_state \<Rightarrow> u64 \<Rightarrow> u64" where
  "sip_postamble st b = (case st of (v0, v1, v2, v3) \<Rightarrow>
     (case sip_permutation (sip_permutation (v0, v1, v2, v3 XOR b)) of (v0, v1, v2, v3) \<Rightarrow>
     (case sip_permutation (sip_permutation (sip_permutation (sip_permutation (v0 XOR b, v1, v2 XOR 0xff, v3))))
      of (v0, v1, v2, v3) \<Rightarrow> (v0 XOR v1) XOR (v2 XOR v3))))"

text \<open>One word of the message: the body of the loop of \<open>siphash\<close>, and its unrolled copies.\<close>

definition sip_word :: "sip_state \<Rightarrow> u64 \<Rightarrow> sip_state" where
  "sip_word st m = (case st of (v0, v1, v2, v3) \<Rightarrow>
     (case sip_permutation (sip_permutation (v0, v1, v2, v3 XOR m)) of (v0, v1, v2, v3) \<Rightarrow>
     (v0 XOR m, v1, v2, v3)))"

fun sip_loop :: "nat \<Rightarrow> bytes \<Rightarrow> sip_state \<Rightarrow> sip_state" where
  "sip_loop 0 data st = st"
| "sip_loop (Suc n) data st = sip_loop n (drop 8 data) (sip_word st (load_le 8 data))"

lemma sip_loop_2: "sip_loop 2 data st = sip_word (sip_word st (load_le 8 data)) (load_le 8 (drop 8 data))"
  by (simp add: numeral_2_eq_2)

definition sip_tail :: "nat \<Rightarrow> bytes \<Rightarrow> u64 \<Rightarrow> u64" where
  "sip_tail left tail b =
     (let b = if left = 7 then b OR push_bit 48 (ucast (tail ! 6)) else b;
          b = if 6 \<le> left then b OR push_bit 40 (ucast (tail ! 5)) else b;
          b = if 5 \<le> left then b OR push_bit 32 (ucast (tail ! 4)) else b
      in if 4 \<le> left then b OR load_le 4 tail
         else (let b = if left = 3 then b OR push_bit 16 (ucast (tail ! 2)) else b
               in if 2 \<le> left then b OR load_le 2 tail
                  else if left = 1 then b OR ucast (tail ! 0)
                  else b))"

definition siphash :: "bytes \<Rightarrow> sip_key \<Rightarrow> u64" where
  "siphash data key =
     (let len = length data;
          st = sip_loop (len div 8) data (sip_preamble key)
      in sip_postamble st (sip_tail (len mod 8) (drop (len - len mod 8) data) (sip_length len)))"

definition siphash_1u64 :: "u64 \<Rightarrow> sip_key \<Rightarrow> u64" where
  "siphash_1u64 first key = sip_postamble (sip_word (sip_preamble key) first) (sip_length 8)"

definition siphash_2u64 :: "u64 \<Rightarrow> u64 \<Rightarrow> sip_key \<Rightarrow> u64" where
  "siphash_2u64 first second key =
     sip_postamble (sip_word (sip_word (sip_preamble key) first) second) (sip_length 16)"

subsection \<open>The published function\<close>

text \<open>
  The message is padded with zeros to one byte short of a block, the last byte is its length
  modulo 256, and every 8-byte block is absorbed as a little-endian word by two rounds.
\<close>

definition sip_pad :: "bytes \<Rightarrow> bytes" where
  "sip_pad data = data @ replicate (7 - length data mod 8) 0 @ [of_nat (length data)]"

fun sip_words :: "bytes \<Rightarrow> u64 list" where
  "sip_words [] = []"
| "sip_words (b # bs) = load_le 8 (b # bs) # sip_words (drop 7 bs)"

definition sip_finish :: "sip_state \<Rightarrow> u64" where
  "sip_finish st = (case st of (v0, v1, v2, v3) \<Rightarrow>
     (case (sip_permutation ^^ 4) (v0, v1, v2 XOR 0xff, v3) of (v0, v1, v2, v3) \<Rightarrow> v0 XOR v1 XOR v2 XOR v3))"

definition siphash24 :: "bytes \<Rightarrow> sip_key \<Rightarrow> u64" where
  "siphash24 data key = sip_finish (foldl sip_word (sip_preamble key) (sip_words (sip_pad data)))"

lemma sip_postamble_finish: "sip_postamble st b = sip_finish (sip_word st b)"
  by (simp add: sip_postamble_def sip_finish_def sip_word_def numeral_eq_Suc xor.assoc split: prod.splits)

lemma load_le_append: "n \<le> length x \<Longrightarrow> load_le n (x @ y) = load_le n x"
  unfolding load_le_def by (rule foldl_cong) (auto simp: nth_append)

lemma sip_words_Cons: "length x = 8 \<Longrightarrow> sip_words (x @ y) = load_le 8 x # sip_words y"
  using load_le_append [of 8 x y] by (cases x) simp_all

lemma sip_loop_words:
  "8 * n \<le> length data \<Longrightarrow>
   foldl sip_word st (sip_words (data @ rest)) = foldl sip_word (sip_loop n data st) (sip_words (drop (8 * n) data @ rest))"
proof (induction n arbitrary: data st)
  case (Suc n)
  have "data @ rest = take 8 data @ (drop 8 data @ rest)" "length (take 8 data) = 8"
    using Suc.prems by (simp_all add: append_assoc [symmetric] del: append_assoc)
  then have "sip_words (data @ rest) = load_le 8 (take 8 data) # sip_words (drop 8 data @ rest)"
    by (metis sip_words_Cons)
  moreover have "load_le 8 (take 8 data) = load_le 8 data"
    using load_le_append [of 8 "take 8 data" "drop 8 data"] Suc.prems by simp
  ultimately show ?case
    using Suc.IH [of "drop 8 data"] Suc.prems by (simp add: add.commute)
qed simp

lemma load_le_8: "load_le 8 data =
  ucast (data ! 0) OR push_bit 8 (ucast (data ! 1)) OR push_bit 16 (ucast (data ! 2)) OR push_bit 24 (ucast (data ! 3)) OR
  push_bit 32 (ucast (data ! 4)) OR push_bit 40 (ucast (data ! 5)) OR push_bit 48 (ucast (data ! 6)) OR push_bit 56 (ucast (data ! 7))"
  by (simp add: load_le_def upt_rec or.assoc eval_nat_numeral)

lemma load_le_4: "load_le 4 data =
  ucast (data ! 0) OR push_bit 8 (ucast (data ! 1)) OR push_bit 16 (ucast (data ! 2)) OR push_bit 24 (ucast (data ! 3))"
  by (simp add: load_le_def upt_rec or.assoc eval_nat_numeral)

lemma load_le_2: "load_le 2 data = ucast (data ! 0) OR push_bit 8 (ucast (data ! 1))"
  by (simp add: load_le_def upt_rec)

lemma sip_length_byte: "sip_length n = push_bit 56 (ucast (of_nat n :: u8))"
proof (rule bit_eqI)
  fix m
  assume "possible_bit TYPE(u64) m"
  then have "m < 64"
    by (simp add: possible_bit_def)
  then show "bit (sip_length n) m = bit (push_bit 56 (ucast (of_nat n :: u8)) :: u64) m"
    by (auto simp: sip_length_def bit_simps bit_of_nat_iff)
qed

lemma sip_tail_padded:
  assumes "length t < 8"
  shows "sip_tail (length t) t (sip_length n) = load_le 8 (t @ replicate (7 - length t) 0 @ [of_nat n])"
proof -
  from assms consider "length t = 0" | "length t = 1" | "length t = 2" | "length t = 3" | "length t = 4"
    | "length t = 5" | "length t = 6" | "length t = 7"
    by linarith
  then show ?thesis
    by cases (simp_all add: sip_tail_def load_le_8 load_le_4 load_le_2 nth_append sip_length_byte ac_simps)
qed

lemma load_le_load_le64: "length data = 8 \<Longrightarrow> load_le 8 data = load_le64 data"
proof -
  assume "length data = 8"
  then have "\<exists>a b c d e f g h. data = [a, b, c, d, e, f, g, h]"
    by (auto simp: eval_nat_numeral length_Suc_conv)
  then obtain a b c d e f g h where data: "data = [a, b, c, d, e, f, g, h]"
    by blast
  show ?thesis
    by (simp add: data load_le_8 load_le64_def be_step_def push_bit_or ac_simps)
qed

lemma load_le_stored [simp]: "load_le 8 (store_le64 v @ rest) = v"
  by (simp add: load_le_append load_le_load_le64)


end
