(* ===== verification/Ring.thy ===== *)
theory Ring
  imports Prelude "HOL-Library.Sublist"
begin

text \<open>
  Ring buffers of queued datagrams, as the retry queues of the switch and of the UDP socket
  have them: an array, the index of its first entry and a count. The queued entries read as
  a list; a pop drops its head and a push appends. The locale \<open>ordered_queue\<close> states what a
  queue in front of a socket owes its user: over any sequence of operations, what was sent
  and what is still pending are, in order, among what was submitted.
\<close>

record tx_entry =
  en_wire :: bytes
  en_created :: time

definition entry_init :: tx_entry where
  "entry_init = \<lparr>en_wire = [], en_created = 0\<rparr>"

definition ring_items :: "'a list \<Rightarrow> nat \<Rightarrow> nat \<Rightarrow> 'a list" where
  "ring_items entries head n = map (\<lambda>i. entries ! ((head + i) mod length entries)) [0..<n]"

lemma length_ring_items [simp]: "length (ring_items entries head n) = n"
  by (simp add: ring_items_def)

lemma ring_items_0 [simp]: "ring_items entries head 0 = []"
  by (simp add: ring_items_def)

lemma ring_items_empty [simp]: "ring_items entries head n = [] \<longleftrightarrow> n = 0"
  by (simp add: ring_items_def)

lemma ring_slot_inj:
  fixes head i j L :: nat
  assumes "(head + i) mod L = (head + j) mod L" "i < L" "j < L"
  shows "i = j"
proof -
  have "i mod L = j mod L"
    using assms(1) by (simp add: nat_mod_eq_iff)
  then show ?thesis
    using assms(2,3) by simp
qed

lemma hd_ring_items: "0 < n \<Longrightarrow> head < length entries \<Longrightarrow> hd (ring_items entries head n) = entries ! head"
  by (simp add: ring_items_def upt_conv_Cons)

lemma ring_items_pop:
  assumes "0 < n" "n \<le> length entries" "head < length entries"
  shows "ring_items (entries[head := x]) ((head + 1) mod length entries) (n - 1) = tl (ring_items entries head n)"
proof (rule nth_equalityI)
  fix i
  assume "i < length (ring_items (entries[head := x]) ((head + 1) mod length entries) (n - 1))"
  then have i: "i < n - 1"
    by simp
  have "(head + Suc i) mod length entries \<noteq> (head + 0) mod length entries"
    using ring_slot_inj [of head "Suc i" "length entries" 0] i assms(2) by fastforce
  then have "(head + Suc i) mod length entries \<noteq> head"
    using assms(3) by simp
  moreover have "((head + 1) mod length entries + i) mod length entries = (head + Suc i) mod length entries"
    by (simp add: mod_add_left_eq)
  ultimately show "ring_items (entries[head := x]) ((head + 1) mod length entries) (n - 1) ! i = tl (ring_items entries head n) ! i"
    using i less_diff_conv [of i n 1] by (simp add: ring_items_def nth_tl)
qed simp

lemma ring_items_push:
  assumes "n < length entries"
  shows "ring_items (entries[(head + n) mod length entries := x]) head (Suc n) = ring_items entries head n @ [x]"
proof (rule nth_equalityI)
  fix i
  assume "i < length (ring_items (entries[(head + n) mod length entries := x]) head (Suc n))"
  then consider "i < n" | "i = n"
    by fastforce
  then show "ring_items (entries[(head + n) mod length entries := x]) head (Suc n) ! i = (ring_items entries head n @ [x]) ! i"
  proof cases
    case 1
    have "(head + i) mod length entries \<noteq> (head + n) mod length entries"
      using ring_slot_inj [of head i "length entries" n] 1 assms by fastforce
    with 1 show ?thesis
      using assms by (simp add: ring_items_def nth_append nth_list_update del: upt_Suc)
  next
    case 2
    have "(head + n) mod length entries < length entries"
      using assms by (intro mod_less_divisor) linarith
    with 2 show ?thesis
      by (simp add: ring_items_def nth_append del: upt_Suc)
  qed
qed simp

subsection \<open>The contract of a queue in front of a socket\<close>

fun run_queue :: "('op \<Rightarrow> 'q \<Rightarrow> 'q \<times> bytes list) \<Rightarrow> 'op list \<Rightarrow> 'q \<Rightarrow> 'q \<times> bytes list" where
  "run_queue step [] q = (q, [])"
| "run_queue step (op # ops) q = (case step op q of (q1, s1) \<Rightarrow> case run_queue step ops q1 of (q2, s2) \<Rightarrow> (q2, s1 @ s2))"

locale ordered_queue =
  fixes step :: "'op \<Rightarrow> 'q \<Rightarrow> 'q \<times> bytes list"
    and submitted :: "'op \<Rightarrow> bytes list"
    and pending :: "'q \<Rightarrow> bytes list"
    and inv :: "'q \<Rightarrow> bool"
  assumes step_ordered: "inv q \<Longrightarrow> step op q = (q', sent) \<Longrightarrow> inv q' \<and> subseq (sent @ pending q') (pending q @ submitted op)"
begin


lemma run_ordered:
  "inv q \<Longrightarrow> run_queue step ops q = (q', sent) \<Longrightarrow> inv q' \<and> subseq (sent @ pending q') (pending q @ concat (map submitted ops))"
proof (induction ops arbitrary: q q' sent)
  case (Cons op ops)
  obtain q1 s1 where s1: "step op q = (q1, s1)"
    by (cases "step op q")
  obtain s2 where s2: "run_queue step ops q1 = (q', s2)" "sent = s1 @ s2"
    using Cons.prems(2) s1 by (auto split: prod.splits)
  have step: "inv q1" "subseq (s1 @ pending q1) (pending q @ submitted op)"
    using step_ordered [OF Cons.prems(1) s1] by auto
  have "subseq (s2 @ pending q') (pending q1 @ concat (map submitted ops))" "inv q'"
    using Cons.IH [OF step(1) s2(1)] by auto
  then have "subseq (s1 @ s2 @ pending q') ((s1 @ pending q1) @ concat (map submitted ops))"
    by (simp add: list_emb_append_mono)
  also have "subseq ((s1 @ pending q1) @ concat (map submitted ops)) ((pending q @ submitted op) @ concat (map submitted ops))"
    by (rule list_emb_append_mono [OF step(2)]) simp
  finally show ?case
    using s2(2) \<open>inv q'\<close> by simp
qed simp

end

end
