(* ===== verification/Retry_Queue.thy ===== *)
theory Retry_Queue
  imports Ring
begin

text \<open>
  The retry queue of the switch's sockets, \<open>src/ipc/retry_queue.hpp\<close>. The send callback and
  the clock readings of a flush are an environment: at iteration \<open>i\<close> of its loop, the clock
  reads and the call returns what \<open>env i\<close> says. Every operation also returns the records the
  socket accepted.
\<close>

datatype send_result = Sent nat | Send_errno int

abbreviation EAGAIN :: int where "EAGAIN \<equiv> 11"
abbreviation EWOULDBLOCK :: int where "EWOULDBLOCK \<equiv> 11"
abbreviation EINTR :: int where "EINTR \<equiv> 4"
abbreviation EIO :: int where "EIO \<equiv> 5"

definition retry_errno :: "int \<Rightarrow> bool" where
  "retry_errno e \<longleftrightarrow> e = EAGAIN \<or> e = EWOULDBLOCK \<or> e = EINTR"

definition retry_capacity :: nat where "retry_capacity = 128"
definition retry_byte_limit :: nat where "retry_byte_limit = 256 * 1024"
definition retry_record_limit :: nat where "retry_record_limit = 128 * 1024"
definition retry_max_age :: time where "retry_max_age = milliseconds 100"

record outcome =
  oc_frames :: u64
  oc_bytes :: u64
  oc_drops :: u64
  oc_backpressure :: u64
  oc_error :: int

definition outcome_init :: outcome where
  "outcome_init = \<lparr>oc_frames = 0, oc_bytes = 0, oc_drops = 0, oc_backpressure = 0, oc_error = 0\<rparr>"

definition outcome_add :: "outcome \<Rightarrow> outcome \<Rightarrow> outcome" where
  "outcome_add this other = \<lparr>oc_frames = oc_frames this + oc_frames other, oc_bytes = oc_bytes this + oc_bytes other,
     oc_drops = oc_drops this + oc_drops other, oc_backpressure = oc_backpressure this + oc_backpressure other,
     oc_error = (if oc_error other \<noteq> 0 then oc_error other else oc_error this)\<rparr>"

record retry_queue =
  rq_entries :: "tx_entry list"
  rq_head :: nat
  rq_size :: nat
  rq_bytes :: nat
  rq_high_water :: nat
  rq_retry_at :: time
  rq_enqueued :: u64
  rq_sent :: u64
  rq_eagain :: u64
  rq_full :: u64
  rq_expired :: u64
  rq_discarded :: u64
  rq_errors :: u64

definition retry_init :: retry_queue where
  "retry_init = \<lparr>rq_entries = replicate retry_capacity entry_init, rq_head = 0, rq_size = 0, rq_bytes = 0, rq_high_water = 0,
     rq_retry_at = 0, rq_enqueued = 0, rq_sent = 0, rq_eagain = 0, rq_full = 0, rq_expired = 0, rq_discarded = 0, rq_errors = 0\<rparr>"

definition rq_empty :: "retry_queue \<Rightarrow> bool" where
  "rq_empty q \<longleftrightarrow> rq_size q = 0"

definition rq_writable :: "retry_queue \<Rightarrow> time \<Rightarrow> bool" where
  "rq_writable q now \<longleftrightarrow> rq_size q \<noteq> 0 \<and> now \<ge> rq_retry_at q"

definition ceil_ms :: "time \<Rightarrow> int" where
  "ceil_ms d = - ((- d) div milliseconds 1)"

definition rq_timeout :: "retry_queue \<Rightarrow> time \<Rightarrow> int \<Rightarrow> int" where
  "rq_timeout q now limit =
     (if rq_empty q then limit
      else let e = en_created (rq_entries q ! rq_head q) + retry_max_age;
               e = (if rq_retry_at q > now then min e (rq_retry_at q) else e)
           in min limit (max 0 (ceil_ms (e - now))))"

definition rq_pop :: "retry_queue \<Rightarrow> retry_queue" where
  "rq_pop q =
     (let q = q\<lparr>rq_bytes := rq_bytes q - length (en_wire (rq_entries q ! rq_head q)),
                rq_entries := (rq_entries q)[rq_head q := (rq_entries q ! rq_head q)\<lparr>en_wire := []\<rparr>],
                rq_head := (rq_head q + 1) mod retry_capacity, rq_size := rq_size q - 1\<rparr>
      in if rq_size q = 0 then q\<lparr>rq_retry_at := 0\<rparr> else q)"

lemma rq_pop_sel:
  "rq_size (rq_pop q) = rq_size q - 1" "rq_head (rq_pop q) = (rq_head q + 1) mod retry_capacity"
  "rq_entries (rq_pop q) = (rq_entries q)[rq_head q := (rq_entries q ! rq_head q)\<lparr>en_wire := []\<rparr>]"
  "rq_bytes (rq_pop q) = rq_bytes q - length (en_wire (rq_entries q ! rq_head q))"
  by (simp_all add: rq_pop_def Let_def)

lemmas rq_size_pop [simp] = rq_pop_sel(1)

function rq_expire_loop :: "time \<Rightarrow> retry_queue \<Rightarrow> outcome \<Rightarrow> retry_queue \<times> outcome" where
  "rq_expire_loop now q out =
     (if rq_size q \<noteq> 0 \<and> now - en_created (rq_entries q ! rq_head q) \<ge> retry_max_age
      then rq_expire_loop now ((rq_pop q)\<lparr>rq_expired := rq_expired q + 1\<rparr>)
             (out\<lparr>oc_drops := oc_drops out + 1, oc_backpressure := oc_backpressure out + 1\<rparr>)
      else (q, out))"
  by pat_completeness auto
termination
  by (relation "measure (\<lambda>(now, q, out). rq_size q)") auto

declare rq_expire_loop.simps [simp del]

definition rq_expire :: "time \<Rightarrow> retry_queue \<Rightarrow> retry_queue \<times> outcome" where
  "rq_expire now q = rq_expire_loop now q outcome_init"

function rq_pop_all :: "retry_queue \<Rightarrow> retry_queue" where
  "rq_pop_all q = (if rq_size q \<noteq> 0 then rq_pop_all (rq_pop q) else q)"
  by pat_completeness auto
termination
  by (relation "measure rq_size") auto

declare rq_pop_all.simps [simp del]

definition rq_discard :: "retry_queue \<Rightarrow> retry_queue \<times> outcome" where
  "rq_discard q =
     (rq_pop_all (q\<lparr>rq_discarded := rq_discarded q + of_nat (rq_size q)\<rparr>), outcome_init\<lparr>oc_drops := of_nat (rq_size q)\<rparr>)"

definition rq_blocked :: "time \<Rightarrow> retry_queue \<Rightarrow> retry_queue" where
  "rq_blocked now q = q\<lparr>rq_eagain := rq_eagain q + 1, rq_retry_at := now + milliseconds 1\<rparr>"

definition rq_enqueue :: "bytes \<Rightarrow> bytes \<Rightarrow> time \<Rightarrow> retry_queue \<Rightarrow> retry_queue \<times> outcome" where
  "rq_enqueue a b now q =
     (case rq_expire now q of (q, out) \<Rightarrow>
        if length a > retry_record_limit \<or> length b > retry_record_limit - length a \<or> rq_size q = retry_capacity \<or>
           length a + length b > retry_byte_limit - rq_bytes q
        then (q\<lparr>rq_full := rq_full q + 1\<rparr>, out\<lparr>oc_drops := oc_drops out + 1, oc_backpressure := oc_backpressure out + 1\<rparr>)
        else (q\<lparr>rq_entries := (rq_entries q)[(rq_head q + rq_size q) mod retry_capacity := \<lparr>en_wire = a @ b, en_created = now\<rparr>],
                rq_size := rq_size q + 1, rq_bytes := rq_bytes q + (length a + length b), rq_enqueued := rq_enqueued q + 1,
                rq_high_water := max (rq_high_water q) (rq_size q + 1)\<rparr>, out))"

type_synonym flush_env = "nat \<Rightarrow> time \<times> send_result \<times> time"

fun rq_flush_loop :: "nat \<Rightarrow> nat \<Rightarrow> flush_env \<Rightarrow> retry_queue \<Rightarrow> outcome \<Rightarrow> retry_queue \<times> outcome \<times> bytes list" where
  "rq_flush_loop 0 i env q out = (q, out, [])"
| "rq_flush_loop (Suc n) i env q out =
     (if rq_size q = 0 then (q, out, [])
      else case env i of (clock, result, later) \<Rightarrow>
        case rq_expire clock q of (q, ex) \<Rightarrow>
          let out = outcome_add out ex in
          if rq_size q = 0 then (q, out, [])
          else let wire = en_wire (rq_entries q ! rq_head q) in
            case result of
              Send_errno e \<Rightarrow>
                if retry_errno e then (rq_blocked later q, out, [])
                else (rq_pop (q\<lparr>rq_errors := rq_errors q + 1\<rparr>), out\<lparr>oc_error := e, oc_drops := oc_drops out + 1\<rparr>, [])
            | Sent k \<Rightarrow>
                if k \<noteq> length wire then
                  (rq_pop (q\<lparr>rq_errors := rq_errors q + 1\<rparr>), out\<lparr>oc_error := EIO, oc_drops := oc_drops out + 1\<rparr>, [])
                else
                  case rq_flush_loop n (i + 1) env (rq_pop (q\<lparr>rq_sent := rq_sent q + 1\<rparr>))
                      (out\<lparr>oc_frames := oc_frames out + 1, oc_bytes := oc_bytes out + of_nat (length wire)\<rparr>) of
                    (q, out, sent) \<Rightarrow> (q, out, wire # sent))"

definition rq_flush :: "time \<Rightarrow> flush_env \<Rightarrow> retry_queue \<Rightarrow> retry_queue \<times> outcome \<times> bytes list" where
  "rq_flush now env q =
     (case rq_expire now q of (q, out) \<Rightarrow>
        if \<not> rq_writable q now then (q, out, []) else rq_flush_loop retry_capacity 0 env q out)"

definition rq_submit :: "bytes \<Rightarrow> time \<Rightarrow> send_result \<Rightarrow> retry_queue \<Rightarrow> retry_queue \<times> outcome \<times> bytes list" where
  "rq_submit data now result q =
     (case rq_expire now q of (q, out) \<Rightarrow>
        if \<not> rq_empty q then (case rq_enqueue data [] now q of (q, e) \<Rightarrow> (q, outcome_add out e, []))
        else case result of
          Sent k \<Rightarrow>
            if k = length data then
              (q, out\<lparr>oc_frames := oc_frames out + 1, oc_bytes := oc_bytes out + of_nat (length data)\<rparr>, [data])
            else (q\<lparr>rq_errors := rq_errors q + 1\<rparr>, out\<lparr>oc_error := EIO, oc_drops := oc_drops out + 1\<rparr>, [])
        | Send_errno e \<Rightarrow>
            if retry_errno e then
              (case rq_enqueue data [] now q of (q, e) \<Rightarrow> (rq_blocked now q, outcome_add out e, []))
            else (q\<lparr>rq_errors := rq_errors q + 1\<rparr>, out\<lparr>oc_error := e, oc_drops := oc_drops out + 1\<rparr>, []))"

subsection \<open>The queued records as a list\<close>

definition rq_items :: "retry_queue \<Rightarrow> tx_entry list" where
  "rq_items q = ring_items (rq_entries q) (rq_head q) (rq_size q)"

definition retry_inv :: "retry_queue \<Rightarrow> bool" where
  "retry_inv q \<longleftrightarrow> length (rq_entries q) = retry_capacity \<and> rq_head q < retry_capacity \<and> rq_size q \<le> retry_capacity \<and>
     rq_bytes q = sum_list (map (length \<circ> en_wire) (rq_items q)) \<and> rq_bytes q \<le> retry_byte_limit"

lemma retry_inv_cong [simp]:
  "rq_items (q\<lparr>rq_expired := n\<rparr>) = rq_items q" "rq_items (q\<lparr>rq_errors := n\<rparr>) = rq_items q"
  "rq_items (q\<lparr>rq_sent := n\<rparr>) = rq_items q" "rq_items (q\<lparr>rq_full := n\<rparr>) = rq_items q"
  "rq_items (q\<lparr>rq_discarded := n\<rparr>) = rq_items q" "rq_items (rq_blocked t q) = rq_items q" "rq_size (rq_blocked t q) = rq_size q"
  "retry_inv (q\<lparr>rq_expired := n\<rparr>) = retry_inv q" "retry_inv (q\<lparr>rq_errors := n\<rparr>) = retry_inv q"
  "retry_inv (q\<lparr>rq_sent := n\<rparr>) = retry_inv q" "retry_inv (q\<lparr>rq_full := n\<rparr>) = retry_inv q"
  "retry_inv (q\<lparr>rq_discarded := n\<rparr>) = retry_inv q" "retry_inv (rq_blocked t q) = retry_inv q"
  by (simp_all add: retry_inv_def rq_items_def rq_blocked_def)

lemma rq_items_Nil [simp]: "rq_items q = [] \<longleftrightarrow> rq_size q = 0"
  by (simp add: rq_items_def)

lemma rq_items_zero: "rq_size q = 0 \<Longrightarrow> rq_items q = []"
  by simp

lemma length_rq_items [simp]: "length (rq_items q) = rq_size q"
  by (simp add: rq_items_def)

lemma hd_rq_items: "retry_inv q \<Longrightarrow> rq_size q \<noteq> 0 \<Longrightarrow> hd (rq_items q) = rq_entries q ! rq_head q"
  by (simp add: retry_inv_def rq_items_def hd_ring_items)

lemma rq_items_pop: "retry_inv q \<Longrightarrow> rq_size q \<noteq> 0 \<Longrightarrow> rq_items (rq_pop q) = tl (rq_items q)"
  using ring_items_pop [of "rq_size q" "rq_entries q" "rq_head q"]
  by (simp add: retry_inv_def rq_items_def rq_pop_sel)

lemma retry_inv_pop: "retry_inv q \<Longrightarrow> rq_size q \<noteq> 0 \<Longrightarrow> retry_inv (rq_pop q)"
proof -
  assume q: "retry_inv q" "rq_size q \<noteq> 0"
  obtain e es where es: "rq_items q = e # es"
    using q(2) by (cases "rq_items q") simp_all
  have "rq_bytes (rq_pop q) = rq_bytes q - length (en_wire (hd (rq_items q)))"
    using hd_rq_items [OF q] by (simp add: rq_pop_sel)
  moreover have "length (rq_entries (rq_pop q)) = retry_capacity" "rq_head (rq_pop q) < retry_capacity"
    "rq_size q - 1 \<le> retry_capacity"
    using q by (auto simp: rq_pop_sel retry_inv_def retry_capacity_def)
  ultimately show ?thesis
    using q rq_items_pop [OF q] es by (simp add: retry_inv_def)
qed

lemma rq_items_push:
  assumes "retry_inv q" "rq_size q < retry_capacity" "length w \<le> retry_byte_limit - rq_bytes q"
    and q': "q' = q\<lparr>rq_entries := (rq_entries q)[(rq_head q + rq_size q) mod retry_capacity := \<lparr>en_wire = w, en_created = now\<rparr>],
      rq_size := rq_size q + 1, rq_bytes := rq_bytes q + length w, rq_enqueued := x, rq_high_water := y\<rparr>"
  shows "rq_items q' = rq_items q @ [\<lparr>en_wire = w, en_created = now\<rparr>]" "retry_inv q'"
proof -
  show items: "rq_items q' = rq_items q @ [\<lparr>en_wire = w, en_created = now\<rparr>]"
    using assms ring_items_push [of "rq_size q" "rq_entries q" "rq_head q"]
    by (simp add: rq_items_def retry_inv_def)
  have "rq_bytes q + length w \<le> retry_byte_limit"
    using assms(1,3) unfolding retry_inv_def by linarith
  with items show "retry_inv q'"
    using assms(1,2) by (simp add: retry_inv_def) (simp add: q')
qed

lemma rq_expire_loop_items:
  "retry_inv q \<Longrightarrow> rq_expire_loop now q out = (q', out') \<Longrightarrow>
     retry_inv q' \<and> rq_items q' = dropWhile (\<lambda>e. now - en_created e \<ge> retry_max_age) (rq_items q) \<and>
     oc_frames out' = oc_frames out \<and> oc_bytes out' = oc_bytes out \<and>
     oc_drops out' + of_nat (rq_size q') = oc_drops out + of_nat (rq_size q)"
proof (induction now q out arbitrary: q' out' rule: rq_expire_loop.induct)
  case (1 now q out)
  show ?case
  proof (cases "rq_size q \<noteq> 0 \<and> now - en_created (rq_entries q ! rq_head q) \<ge> retry_max_age")
    case True
    obtain e es where es: "rq_items q = e # es"
      using True by (cases "rq_items q") simp_all
    have q: "retry_inv q" "rq_size q \<noteq> 0" "e = rq_entries q ! rq_head q"
      using 1 True hd_rq_items [of q] es by simp_all
    have count: "(of_nat (rq_size q) :: u64) = of_nat (rq_size q - 1) + 1"
      using q(2) by (metis One_nat_def Suc_pred add.commute neq0_conv of_nat_Suc)
    let ?q = "(rq_pop q)\<lparr>rq_expired := rq_expired q + 1\<rparr>"
    have pop: "retry_inv ?q" "rq_items ?q = es" "rq_size ?q = rq_size q - 1"
      using retry_inv_pop [OF q(1,2)] rq_items_pop [OF q(1,2)] es by simp_all
    have "rq_expire_loop now ?q (out\<lparr>oc_drops := oc_drops out + 1, oc_backpressure := oc_backpressure out + 1\<rparr>) = (q', out')"
      using "1.prems"(2) unfolding rq_expire_loop.simps [of now q] if_P [OF True] .
    note IH = "1.IH" [OF True pop(1) this, unfolded pop(2,3)]
    have "oc_drops out' + of_nat (rq_size q') = oc_drops out + of_nat (rq_size q)"
      unfolding count using IH by (simp add: ac_simps del: of_nat_diff)
    with IH True q(3) es show ?thesis
      by simp
  next
    case False
    have "q' = q" "out' = out"
      using "1.prems"(2) unfolding rq_expire_loop.simps [of now q] if_not_P [OF False] by simp_all
    moreover have "rq_items q = dropWhile (\<lambda>e. now - en_created e \<ge> retry_max_age) (rq_items q)"
    proof (cases "rq_items q")
      case (Cons e es)
      then have "rq_size q \<noteq> 0"
        using length_rq_items [of q] by simp
      then show ?thesis
        using False Cons hd_rq_items [OF "1.prems"(1)] by simp
    next
      case Nil
      show ?thesis
        unfolding Nil by simp
    qed
    ultimately show ?thesis
      using "1.prems"(1) by simp
  qed
qed

lemma rq_expire_items:
  assumes "retry_inv q" "rq_expire now q = (q', out)"
  shows "retry_inv q'" "rq_items q' = dropWhile (\<lambda>e. now - en_created e \<ge> retry_max_age) (rq_items q)"
    and "oc_frames out = 0" "oc_drops out + of_nat (rq_size q') = of_nat (rq_size q)"
  using rq_expire_loop_items [of q now outcome_init q' out] assms by (simp_all add: rq_expire_def outcome_init_def)

abbreviation rq_pending :: "retry_queue \<Rightarrow> bytes list" where
  "rq_pending q \<equiv> map en_wire (rq_items q)"

lemma rq_expire_pending: "retry_inv q \<Longrightarrow> rq_expire now q = (q', out) \<Longrightarrow> subseq (rq_pending q') (rq_pending q)"
  using rq_expire_items(2) [of q now q' out] by (simp add: subseq_map suffix_imp_subseq suffix_dropWhile)

lemma rq_pop_pending:
  assumes "retry_inv q" "rq_size q \<noteq> 0"
  shows "rq_pending q = en_wire (rq_entries q ! rq_head q) # rq_pending (rq_pop q)"
proof -
  have "rq_items q \<noteq> []"
    using assms(2) by simp
  then have "rq_items q = hd (rq_items q) # tl (rq_items q)"
    by simp
  then show ?thesis
    using hd_rq_items [OF assms] rq_items_pop [OF assms] by (metis list.simps(9))
qed

text \<open>What an operation owes: the invariant, the order, and an outcome that accounts for every record.\<close>

definition rq_ok :: "retry_queue \<Rightarrow> bytes list \<Rightarrow> outcome \<Rightarrow> retry_queue \<times> outcome \<times> bytes list \<Rightarrow> bool" where
  "rq_ok q new start res \<longleftrightarrow> (case res of (q', out, sent) \<Rightarrow>
     retry_inv q' \<and> subseq (sent @ rq_pending q') (rq_pending q @ new) \<and>
     oc_frames out = oc_frames start + of_nat (length sent) \<and>
     oc_drops out + of_nat (length sent) + of_nat (rq_size q') = oc_drops start + of_nat (rq_size q) + of_nat (length new))"

lemma of_nat_pred: "n \<noteq> 0 \<Longrightarrow> (of_nat n :: u64) = of_nat (n - 1) + 1"
  by (metis One_nat_def Suc_pred add.commute neq0_conv of_nat_Suc)

text \<open>Expiry comes first in every operation; an operation that is in order after it is in order.\<close>

lemma rq_ok_expire:
  assumes "retry_inv q" "rq_expire now q = (q1, ex)"
    and ok: "retry_inv q1 \<Longrightarrow> rq_ok q1 new start' res"
    and start: "oc_frames start' = oc_frames start + oc_frames ex" "oc_drops start' = oc_drops start + oc_drops ex"
  shows "rq_ok q new start res"
proof -
  note ex = rq_expire_items [OF assms(1,2)]
  have "subseq (rq_pending q1 @ new) (rq_pending q @ new)"
    by (rule list_emb_append_mono [OF rq_expire_pending [OF assms(1,2)]]) simp
  moreover obtain q' out sent where res: "res = (q', out, sent)"
    by (cases res)
  moreover have r: "retry_inv q'" "subseq (sent @ rq_pending q') (rq_pending q1 @ new)"
    "oc_frames out = oc_frames start + of_nat (length sent)"
    "oc_drops out + of_nat (length sent) + of_nat (rq_size q') = oc_drops start + oc_drops ex + of_nat (rq_size q1) + of_nat (length new)"
    using ok [OF ex(1)] start ex(3) by (simp_all add: rq_ok_def res)
  have "oc_drops start + oc_drops ex + of_nat (rq_size q1) = oc_drops start + of_nat (rq_size q)"
    unfolding add.assoc ex(4) ..
  with r(4) have "oc_drops out + of_nat (length sent) + of_nat (rq_size q') = oc_drops start + of_nat (rq_size q) + of_nat (length new)"
    by simp
  moreover have "subseq (sent @ rq_pending q') (rq_pending q @ new)"
    by (rule subseq_order.trans [OF r(2)]) fact
  ultimately show ?thesis
    using r(1,3) by (simp add: rq_ok_def)
qed

lemma rq_ok_popped:
  assumes "retry_inv q" "rq_size q \<noteq> 0" "oc_frames out = oc_frames start" "oc_drops out = oc_drops start + 1"
  shows "rq_ok q [] start (rq_pop q, out, [])"
  using assms retry_inv_pop [of q] rq_pop_pending [of q] of_nat_pred [of "rq_size q"]
  by (simp add: rq_ok_def ac_simps subseq_Cons')

lemma rq_ok_sent:
  assumes q: "retry_inv q" "rq_size q \<noteq> 0"
    and ok: "retry_inv (rq_pop q) \<Longrightarrow> rq_ok (rq_pop q) [] start' res"
    and start: "oc_frames start' = oc_frames start + 1" "oc_drops start' = oc_drops start"
  shows "rq_ok q [] start (case res of (q', out, sent) \<Rightarrow> (q', out, en_wire (rq_entries q ! rq_head q) # sent))"
proof -
  obtain q' out sent where res: "res = (q', out, sent)"
    by (cases res)
  have r: "retry_inv q'" "subseq (sent @ rq_pending q') (rq_pending (rq_pop q))"
    "oc_frames out = oc_frames start + 1 + of_nat (length sent)"
    "oc_drops out + of_nat (length sent) + of_nat (rq_size q') = oc_drops start + of_nat (rq_size q - 1)"
    using ok [OF retry_inv_pop [OF q]] start by (simp_all add: rq_ok_def res del: of_nat_diff)
  have "oc_drops out + of_nat (Suc (length sent)) + of_nat (rq_size q') = oc_drops start + of_nat (rq_size q)"
    unfolding of_nat_pred [OF q(2)] using r(4) by (simp add: add.assoc add.left_commute del: of_nat_diff)
  with r(1-3) show ?thesis
    by (simp add: rq_ok_def res rq_pop_pending [OF q])
qed

lemma rq_flush_loop_ok: "retry_inv q \<Longrightarrow> rq_ok q [] out (rq_flush_loop n i env q out)"
proof (induction n arbitrary: i q out)
  case 0
  then show ?case
    by (simp add: rq_ok_def)
next
  case (Suc n)
  obtain clock result later where env: "env i = (clock, result, later)"
    by (cases "env i")
  obtain q1 ex where q1: "rq_expire clock q = (q1, ex)"
    by (cases "rq_expire clock q")
  define start where "start = outcome_add out ex"
  define wire where "wire = en_wire (rq_entries q1 ! rq_head q1)"
  let ?res = "if rq_size q1 = 0 then (q1, start, [])
      else case result of
        Send_errno e \<Rightarrow>
          if retry_errno e then (rq_blocked later q1, start, [])
          else (rq_pop (q1\<lparr>rq_errors := rq_errors q1 + 1\<rparr>), start\<lparr>oc_error := e, oc_drops := oc_drops start + 1\<rparr>, [])
      | Sent k \<Rightarrow>
          if k \<noteq> length wire then
            (rq_pop (q1\<lparr>rq_errors := rq_errors q1 + 1\<rparr>), start\<lparr>oc_error := EIO, oc_drops := oc_drops start + 1\<rparr>, [])
          else case rq_flush_loop n (i + 1) env (rq_pop (q1\<lparr>rq_sent := rq_sent q1 + 1\<rparr>))
              (start\<lparr>oc_frames := oc_frames start + 1, oc_bytes := oc_bytes start + of_nat (length wire)\<rparr>) of
            (q, out, sent) \<Rightarrow> (q, out, wire # sent)"
  have res: "rq_flush_loop (Suc n) i env q out = (if rq_size q = 0 then (q, out, []) else ?res)"
    by (cases result) (simp_all add: env q1 start_def wire_def Let_def)
  have "rq_ok q1 [] start ?res" if inv: "retry_inv q1"
  proof -
    have pop: "rq_ok q1 [] start (rq_pop (q1\<lparr>rq_errors := e\<rparr>), start\<lparr>oc_error := x, oc_drops := oc_drops start + 1\<rparr>, [])"
      if "rq_size q1 \<noteq> 0" for e x
      using rq_ok_popped [of "q1\<lparr>rq_errors := e\<rparr>" "start\<lparr>oc_error := x, oc_drops := oc_drops start + 1\<rparr>" start] inv that
      by (simp add: rq_ok_def)
    have sent: "rq_ok q1 [] start (case rq_flush_loop n (i + 1) env (rq_pop (q1\<lparr>rq_sent := s\<rparr>))
        (start\<lparr>oc_frames := oc_frames start + 1, oc_bytes := b\<rparr>) of (q, out, sent) \<Rightarrow> (q, out, wire # sent))"
      if "rq_size q1 \<noteq> 0" for s b
      using rq_ok_sent [of "q1\<lparr>rq_sent := s\<rparr>", OF _ _ Suc.IH, of "start\<lparr>oc_frames := oc_frames start + 1, oc_bytes := b\<rparr>" start "i + 1"]
        inv that by (simp add: wire_def rq_ok_def)
    show ?thesis
      using inv pop sent by (auto simp: rq_ok_def split: send_result.splits)
  qed
  moreover have "oc_frames start = oc_frames out + oc_frames ex" "oc_drops start = oc_drops out + oc_drops ex"
    by (simp_all add: start_def outcome_add_def)
  ultimately have "rq_ok q [] out ?res"
    by (intro rq_ok_expire [OF Suc.prems q1])
  then show ?case
    unfolding res using Suc.prems by (simp add: rq_ok_def)
qed

lemma rq_pop_all_empty: "retry_inv q \<Longrightarrow> retry_inv (rq_pop_all q) \<and> rq_size (rq_pop_all q) = 0"
proof (induction q rule: rq_pop_all.induct)
  case (1 q)
  then show ?case
    using retry_inv_pop [of q] by (simp add: rq_pop_all.simps [of q])
qed

lemma rq_enqueue_ok:
  assumes "retry_inv q" "rq_enqueue a b now q = (q', out)"
  shows "rq_ok q [a @ b] outcome_init (q', out, [])"
proof -
  obtain q1 ex where q1: "rq_expire now q = (q1, ex)"
    by (cases "rq_expire now q")
  have "rq_ok q1 [a @ b] ex (q', out, [])" if inv: "retry_inv q1"
  proof (cases "length a > retry_record_limit \<or> length b > retry_record_limit - length a \<or> rq_size q1 = retry_capacity \<or>
           length a + length b > retry_byte_limit - rq_bytes q1")
    case True
    then show ?thesis
      using assms(2) inv q1 by (auto simp: rq_enqueue_def rq_ok_def)
  next
    case False
    have "rq_size q1 < retry_capacity" "length (a @ b) \<le> retry_byte_limit - rq_bytes q1"
      using False inv by (auto simp: retry_inv_def)
    from rq_items_push [OF inv this refl] show ?thesis
      using assms(2) False q1 by (auto simp: rq_enqueue_def rq_ok_def)
  qed
  then show ?thesis
    by (rule rq_ok_expire [OF assms(1) q1]) (simp_all add: outcome_init_def)
qed

lemma rq_flush_ok: "retry_inv q \<Longrightarrow> rq_ok q [] outcome_init (rq_flush now env q)"
proof -
  assume inv: "retry_inv q"
  obtain q1 ex where q1: "rq_expire now q = (q1, ex)"
    by (cases "rq_expire now q")
  have "rq_ok q1 [] ex (if \<not> rq_writable q1 now then (q1, ex, []) else rq_flush_loop retry_capacity 0 env q1 ex)" if "retry_inv q1"
    using that rq_flush_loop_ok [OF that] by (simp add: rq_ok_def)
  then show ?thesis
    unfolding rq_flush_def q1 prod.case
    by (rule rq_ok_expire [OF inv q1]) (simp_all add: outcome_init_def)
qed

lemma rq_submit_ok: "retry_inv q \<Longrightarrow> rq_ok q [data] outcome_init (rq_submit data now result q)"
proof -
  assume inv: "retry_inv q"
  obtain q1 ex where q1: "rq_expire now q = (q1, ex)"
    by (cases "rq_expire now q")
  obtain q2 en where q2: "rq_enqueue data [] now q1 = (q2, en)"
    by (cases "rq_enqueue data [] now q1")
  define res where "res = (if \<not> rq_empty q1 then (q2, outcome_add ex en, [])
        else case result of
          Sent k \<Rightarrow>
            if k = length data then
              (q1, ex\<lparr>oc_frames := oc_frames ex + 1, oc_bytes := oc_bytes ex + of_nat (length data)\<rparr>, [data])
            else (q1\<lparr>rq_errors := rq_errors q1 + 1\<rparr>, ex\<lparr>oc_error := EIO, oc_drops := oc_drops ex + 1\<rparr>, [])
        | Send_errno e \<Rightarrow>
            if retry_errno e then (rq_blocked now q2, outcome_add ex en, [])
            else (q1\<lparr>rq_errors := rq_errors q1 + 1\<rparr>, ex\<lparr>oc_error := e, oc_drops := oc_drops ex + 1\<rparr>, []))"
  have "rq_ok q1 [data] ex res" if inv1: "retry_inv q1"
  proof -
    have "rq_ok q1 [data] outcome_init (q2, en, [])"
      using rq_enqueue_ok [OF inv1 q2] by simp
    then have queued: "rq_ok q1 [data] ex (q2, outcome_add ex en, [])" "rq_ok q1 [data] ex (rq_blocked now q2, outcome_add ex en, [])"
      by (simp_all add: rq_ok_def outcome_add_def outcome_init_def add.assoc)
    show ?thesis
      unfolding res_def using queued inv1
      by (cases result) (auto simp: rq_ok_def rq_empty_def rq_items_zero)
  qed
  moreover have "rq_submit data now result q = res"
    by (cases result) (simp_all add: rq_submit_def res_def q1 q2)
  ultimately show ?thesis
    by (simp only:) (rule rq_ok_expire [OF inv q1], simp_all add: outcome_init_def)
qed

lemma rq_discard_ok: "retry_inv q \<Longrightarrow> rq_discard q = (q', out) \<Longrightarrow> rq_ok q [] outcome_init (q', out, [])"
  using rq_pop_all_empty [of "q\<lparr>rq_discarded := rq_discarded q + of_nat (rq_size q)\<rparr>"]
  by (auto simp: rq_discard_def rq_ok_def outcome_init_def rq_items_zero)

subsection \<open>Any sequence of operations\<close>

datatype retry_op =
    Rq_enqueue bytes bytes time
  | Rq_submit bytes time send_result
  | Rq_flush time flush_env
  | Rq_expire time
  | Rq_discard
  | Rq_blocked time

fun retry_apply :: "retry_op \<Rightarrow> retry_queue \<Rightarrow> retry_queue \<times> outcome \<times> bytes list" where
  "retry_apply (Rq_enqueue a b now) q = (case rq_enqueue a b now q of (q', out) \<Rightarrow> (q', out, []))"
| "retry_apply (Rq_submit data now result) q = rq_submit data now result q"
| "retry_apply (Rq_flush now env) q = rq_flush now env q"
| "retry_apply (Rq_expire now) q = (case rq_expire now q of (q', out) \<Rightarrow> (q', out, []))"
| "retry_apply Rq_discard q = (case rq_discard q of (q', out) \<Rightarrow> (q', out, []))"
| "retry_apply (Rq_blocked now) q = (rq_blocked now q, outcome_init, [])"

fun retry_submitted :: "retry_op \<Rightarrow> bytes list" where
  "retry_submitted (Rq_enqueue a b now) = [a @ b]"
| "retry_submitted (Rq_submit data now result) = [data]"
| "retry_submitted _ = []"

definition retry_step :: "retry_op \<Rightarrow> retry_queue \<Rightarrow> retry_queue \<times> bytes list" where
  "retry_step op q = (case retry_apply op q of (q', out, sent) \<Rightarrow> (q', sent))"

lemma retry_apply_ok:
  assumes inv: "retry_inv q"
  shows "rq_ok q (retry_submitted op) outcome_init (retry_apply op q)"
proof (cases op)
  case (Rq_enqueue a b now)
  then show ?thesis
    using rq_enqueue_ok [OF inv] by (simp split: prod.split)
next
  case (Rq_expire now)
  have "rq_ok q [] outcome_init (q', out, [])" if "rq_expire now q = (q', out)" for q' out
    using rq_ok_expire [OF inv that, of "[]" out "(q', out, [])" outcome_init] by (simp add: rq_ok_def outcome_init_def)
  then show ?thesis
    using Rq_expire by (simp split: prod.split)
next
  case Rq_discard
  then show ?thesis
    using rq_discard_ok [OF inv] by (simp split: prod.split)
qed (use inv in \<open>simp_all add: rq_submit_ok rq_flush_ok\<close>, simp_all add: rq_ok_def)

interpretation retry: ordered_queue retry_step retry_submitted rq_pending retry_inv
proof
  fix q op q' sent
  assume "retry_inv q" "retry_step op q = (q', sent)"
  then show "retry_inv q' \<and> subseq (sent @ rq_pending q') (rq_pending q @ retry_submitted op)"
    using retry_apply_ok [of q op] by (auto simp: retry_step_def rq_ok_def split: prod.splits)
qed

lemma retry_inv_init: "retry_inv retry_init" "rq_pending retry_init = []"
  by (simp_all add: retry_inv_def retry_init_def rq_items_def retry_capacity_def retry_byte_limit_def)

text \<open>
  C21. The retry queue never reorders, repeats or invents a record, and accounts for each one.
  After any sequence of enqueues, submits, flushes, expiries and discards, whatever the socket
  answers, the records it accepted followed by those still queued are, in order, among the
  submitted ones, within the limits of 128 records and 256 KiB. Every single operation's
  outcome balances: what was queued and submitted is sent, dropped or still queued.
\<close>

theorem retry_queue_ordered:
  assumes "run_queue retry_step ops retry_init = (q, sent)" and "retry_apply op q = (q', out, now_sent)"
  shows "subseq (sent @ rq_pending q) (concat (map retry_submitted ops)) \<and>
    length (rq_items q) \<le> 128 \<and> sum_list (map length (rq_pending q)) \<le> 256 * 1024 \<and>
    oc_frames out = of_nat (length now_sent) \<and>
    of_nat (length (rq_items q)) + of_nat (length (retry_submitted op)) =
      oc_frames out + oc_drops out + of_nat (length (rq_items q'))"
proof -
  have q: "retry_inv q" "subseq (sent @ rq_pending q) (concat (map retry_submitted ops))"
    using retry.run_ordered [OF retry_inv_init(1) assms(1)] retry_inv_init(2) by simp_all
  have "length (rq_items q) \<le> 128" "sum_list (map length (rq_pending q)) \<le> 256 * 1024"
    using q(1) by (simp_all add: retry_inv_def retry_capacity_def retry_byte_limit_def comp_def)
  moreover have "oc_frames out = of_nat (length now_sent)"
    "of_nat (length (rq_items q)) + of_nat (length (retry_submitted op)) = oc_frames out + oc_drops out + of_nat (length (rq_items q'))"
    using retry_apply_ok [OF q(1), of op] assms(2) by (simp_all add: rq_ok_def outcome_init_def ac_simps)
  ultimately show ?thesis
    using q(2) by blast
qed

text \<open>A record that meets a full socket is queued, and the next flush delivers it before a new one.\<close>

theorem retry_queue_ordered_witness:
  "\<exists>q sent. run_queue retry_step [Rq_submit [1] 0 (Send_errno 11), Rq_submit [2] 1 (Sent 1),
      Rq_flush (milliseconds 2) (\<lambda>i. (milliseconds 2, Sent 1, 0))] retry_init = (q, sent) \<and>
    subseq (sent @ rq_pending q) [[1], [2]]"
proof -
  let ?ops = "[Rq_submit [1] 0 (Send_errno 11), Rq_submit [2] 1 (Sent 1),
      Rq_flush (milliseconds 2) (\<lambda>i. (milliseconds 2, Sent 1, 0))]"
  obtain q sent where run: "run_queue retry_step ?ops retry_init = (q, sent)"
    by (cases "run_queue retry_step ?ops retry_init")
  obtain q' out now_sent where op: "retry_apply Rq_discard q = (q', out, now_sent)"
    by (cases "retry_apply Rq_discard q")
  from retry_queue_ordered [OF run op] have "subseq (sent @ rq_pending q) [[1], [2]]"
    by (simp del: subseq_append_le_same_iff)
  with run show ?thesis
    by blast
qed

end
