(* ===== verification/Udp_Tx_Queue.thy ===== *)
theory Udp_Tx_Queue
  imports Retry_Queue
begin

text \<open>
  The bounded queue of encoded datagrams behind the tunnel's UDP socket,
  \<open>src/udp_tx_queue.hpp\<close>. As in the switch's retry queue, the send callback is an
  environment that answers the call of each iteration of a flush.
\<close>

definition udp_capacity :: nat where "udp_capacity = 64"
definition udp_byte_limit :: nat where "udp_byte_limit = 256 * 1024"
definition udp_max_age :: time where "udp_max_age = milliseconds 100"
definition udp_retry_delay :: time where "udp_retry_delay = milliseconds 1"

record udp_tx_queue =
  uq_entries :: "tx_entry list"
  uq_head :: nat
  uq_size :: nat
  uq_bytes :: nat
  uq_high_water :: nat
  uq_retry_at :: time
  uq_enqueued :: u64
  uq_sent :: u64
  uq_eagain :: u64
  uq_capacity_drops :: u64
  uq_expired :: u64
  uq_discarded :: u64
  uq_error_drops :: u64

definition udp_queue_init :: udp_tx_queue where
  "udp_queue_init = \<lparr>uq_entries = replicate udp_capacity entry_init, uq_head = 0, uq_size = 0, uq_bytes = 0, uq_high_water = 0,
     uq_retry_at = 0, uq_enqueued = 0, uq_sent = 0, uq_eagain = 0, uq_capacity_drops = 0, uq_expired = 0, uq_discarded = 0,
     uq_error_drops = 0\<rparr>"

definition uq_fits :: "udp_tx_queue \<Rightarrow> nat \<Rightarrow> nat \<Rightarrow> bool" where
  "uq_fits q count n \<longleftrightarrow> count \<le> udp_capacity - uq_size q \<and> n \<le> udp_byte_limit - uq_bytes q"

definition uq_reject :: "nat \<Rightarrow> udp_tx_queue \<Rightarrow> udp_tx_queue" where
  "uq_reject count q = q\<lparr>uq_capacity_drops := uq_capacity_drops q + of_nat count\<rparr>"

definition uq_empty :: "udp_tx_queue \<Rightarrow> bool" where
  "uq_empty q \<longleftrightarrow> uq_size q = 0"

definition uq_writable_interest :: "udp_tx_queue \<Rightarrow> time \<Rightarrow> bool" where
  "uq_writable_interest q now \<longleftrightarrow> \<not> uq_empty q \<and> now \<ge> uq_retry_at q"

definition uq_poll_timeout :: "udp_tx_queue \<Rightarrow> time \<Rightarrow> int \<Rightarrow> int" where
  "uq_poll_timeout q now fallback =
     (if uq_empty q then fallback
      else let deadline = en_created (uq_entries q ! uq_head q) + udp_max_age;
               deadline = (if uq_retry_at q > now then min deadline (uq_retry_at q) else deadline)
           in min fallback (max 0 (ceil_ms (deadline - now))))"

definition uq_pop :: "udp_tx_queue \<Rightarrow> udp_tx_queue" where
  "uq_pop q =
     (let q = q\<lparr>uq_bytes := uq_bytes q - length (en_wire (uq_entries q ! uq_head q)),
                uq_entries := (uq_entries q)[uq_head q := (uq_entries q ! uq_head q)\<lparr>en_wire := []\<rparr>],
                uq_head := (uq_head q + 1) mod udp_capacity, uq_size := uq_size q - 1\<rparr>
      in if uq_empty q then q\<lparr>uq_retry_at := 0\<rparr> else q)"

lemma uq_pop_sel:
  "uq_size (uq_pop q) = uq_size q - 1" "uq_head (uq_pop q) = (uq_head q + 1) mod udp_capacity"
  "uq_entries (uq_pop q) = (uq_entries q)[uq_head q := (uq_entries q ! uq_head q)\<lparr>en_wire := []\<rparr>]"
  "uq_bytes (uq_pop q) = uq_bytes q - length (en_wire (uq_entries q ! uq_head q))"
  by (simp_all add: uq_pop_def Let_def uq_empty_def)

lemma uq_pop_counters [simp]:
  "uq_enqueued (uq_pop q) = uq_enqueued q" "uq_sent (uq_pop q) = uq_sent q" "uq_expired (uq_pop q) = uq_expired q"
  "uq_discarded (uq_pop q) = uq_discarded q" "uq_error_drops (uq_pop q) = uq_error_drops q"
  by (simp_all add: uq_pop_def Let_def uq_empty_def)

lemmas uq_size_pop [simp] = uq_pop_sel(1)

function uq_expire :: "time \<Rightarrow> udp_tx_queue \<Rightarrow> udp_tx_queue" where
  "uq_expire now q =
     (if \<not> uq_empty q \<and> now - en_created (uq_entries q ! uq_head q) \<ge> udp_max_age
      then uq_expire now ((uq_pop q)\<lparr>uq_expired := uq_expired q + 1\<rparr>)
      else q)"
  by pat_completeness auto
termination
  by (relation "measure (\<lambda>(now, q). uq_size q)") (auto simp: uq_empty_def)

declare uq_expire.simps [simp del]

function uq_pop_all :: "udp_tx_queue \<Rightarrow> udp_tx_queue" where
  "uq_pop_all q = (if \<not> uq_empty q then uq_pop_all (uq_pop q) else q)"
  by pat_completeness auto
termination
  by (relation "measure uq_size") (auto simp: uq_empty_def)

declare uq_pop_all.simps [simp del]

definition uq_discard :: "udp_tx_queue \<Rightarrow> udp_tx_queue" where
  "uq_discard q = uq_pop_all (q\<lparr>uq_discarded := uq_discarded q + of_nat (uq_size q)\<rparr>)"

definition uq_blocked :: "time \<Rightarrow> udp_tx_queue \<Rightarrow> udp_tx_queue" where
  "uq_blocked now q = q\<lparr>uq_eagain := uq_eagain q + 1, uq_retry_at := now + udp_retry_delay\<rparr>"

text \<open>The size check of an append: the packets' total, or nothing where one of them cannot fit.\<close>

fun uq_measure :: "bytes list \<Rightarrow> nat \<Rightarrow> nat option" where
  "uq_measure [] n = Some n"
| "uq_measure (p # ps) n =
     (if length p > 65535 \<or> length p > udp_byte_limit - n then None else uq_measure ps (n + length p))"

fun uq_store :: "bytes list \<Rightarrow> nat \<Rightarrow> time \<Rightarrow> udp_tx_queue \<Rightarrow> tx_entry list \<Rightarrow> tx_entry list" where
  "uq_store [] i now q entries = entries"
| "uq_store (p # ps) i now q entries =
     uq_store ps (i + 1) now q (entries[(uq_head q + uq_size q + i) mod udp_capacity := \<lparr>en_wire = p, en_created = now\<rparr>])"

definition uq_append :: "bytes list \<Rightarrow> time \<Rightarrow> udp_tx_queue \<Rightarrow> udp_tx_queue \<times> bool" where
  "uq_append packets now q =
     (let q = uq_expire now q; count = length packets in
      case uq_measure packets 0 of
        None \<Rightarrow> (q\<lparr>uq_capacity_drops := uq_capacity_drops q + of_nat count\<rparr>, False)
      | Some n \<Rightarrow>
          if count > udp_capacity - uq_size q \<or> n > udp_byte_limit - uq_bytes q
          then (q\<lparr>uq_capacity_drops := uq_capacity_drops q + of_nat count\<rparr>, False)
          else (q\<lparr>uq_entries := uq_store packets 0 now q (uq_entries q), uq_size := uq_size q + count,
                  uq_bytes := uq_bytes q + n, uq_enqueued := uq_enqueued q + of_nat count,
                  uq_high_water := max (uq_high_water q) (uq_size q + count)\<rparr>, True))"

record batch_result =
  br_packets :: nat
  br_bytes :: nat
  br_error :: int

definition batch_result_init :: batch_result where
  "batch_result_init = \<lparr>br_packets = 0, br_bytes = 0, br_error = 0\<rparr>"

fun uq_flush_loop ::
  "nat \<Rightarrow> nat \<Rightarrow> time \<Rightarrow> (nat \<Rightarrow> send_result) \<Rightarrow> udp_tx_queue \<Rightarrow> batch_result \<Rightarrow> udp_tx_queue \<times> batch_result \<times> bytes list" where
  "uq_flush_loop 0 i now env q res = (q, res, [])"
| "uq_flush_loop (Suc n) i now env q res =
     (if uq_empty q then (q, res, [])
      else let wire = en_wire (uq_entries q ! uq_head q) in
        case env i of
          Send_errno e \<Rightarrow>
            if e = EAGAIN \<or> e = EWOULDBLOCK then (uq_blocked now q, res, [])
            else if e = EINTR then (q\<lparr>uq_retry_at := now + udp_retry_delay\<rparr>, res, [])
            else ((uq_pop q)\<lparr>uq_error_drops := uq_error_drops q + 1\<rparr>, res\<lparr>br_error := e\<rparr>, [])
        | Sent k \<Rightarrow>
            if k \<noteq> length wire then ((uq_pop q)\<lparr>uq_error_drops := uq_error_drops q + 1\<rparr>, res\<lparr>br_error := EIO\<rparr>, [])
            else
              case uq_flush_loop n (i + 1) now env (uq_pop (q\<lparr>uq_sent := uq_sent q + 1\<rparr>))
                  (res\<lparr>br_packets := br_packets res + 1, br_bytes := br_bytes res + k\<rparr>) of
                (q, res, sent) \<Rightarrow> (q, res, wire # sent))"

definition uq_flush :: "time \<Rightarrow> (nat \<Rightarrow> send_result) \<Rightarrow> udp_tx_queue \<Rightarrow> udp_tx_queue \<times> batch_result \<times> bytes list" where
  "uq_flush now env q =
     (let q = uq_expire now q in
      if \<not> uq_writable_interest q now then (q, batch_result_init, [])
      else uq_flush_loop udp_capacity 0 now env q batch_result_init)"

subsection \<open>The queued datagrams as a list\<close>

definition uq_items :: "udp_tx_queue \<Rightarrow> tx_entry list" where
  "uq_items q = ring_items (uq_entries q) (uq_head q) (uq_size q)"

abbreviation uq_pending :: "udp_tx_queue \<Rightarrow> bytes list" where
  "uq_pending q \<equiv> map en_wire (uq_items q)"

text \<open>
  The invariant: the ring is within its bounds, the byte count is that of the queued
  datagrams, and the counters balance.
\<close>

definition uq_balance :: "udp_tx_queue \<Rightarrow> u64" where
  "uq_balance q = uq_sent q + uq_expired q + uq_discarded q + uq_error_drops q + of_nat (uq_size q)"

definition uq_ring :: "udp_tx_queue \<Rightarrow> bool" where
  "uq_ring q \<longleftrightarrow> length (uq_entries q) = udp_capacity \<and> uq_head q < udp_capacity \<and> uq_size q \<le> udp_capacity \<and>
     uq_bytes q = sum_list (map length (uq_pending q)) \<and> uq_bytes q \<le> udp_byte_limit"

definition udp_inv :: "udp_tx_queue \<Rightarrow> bool" where
  "udp_inv q \<longleftrightarrow> uq_ring q \<and> uq_enqueued q = uq_balance q"

lemma uq_items_zero: "uq_size q = 0 \<Longrightarrow> uq_items q = []"
  by (simp add: uq_items_def)

lemma length_uq_items [simp]: "length (uq_items q) = uq_size q"
  by (simp add: uq_items_def)

lemma uq_items_counters [simp]:
  "uq_items (q\<lparr>uq_expired := n\<rparr>) = uq_items q" "uq_items (q\<lparr>uq_error_drops := n\<rparr>) = uq_items q" "uq_items (q\<lparr>uq_sent := n\<rparr>) = uq_items q"
  "uq_items (q\<lparr>uq_discarded := n\<rparr>) = uq_items q" "uq_items (q\<lparr>uq_capacity_drops := n\<rparr>) = uq_items q"
  "uq_items (q\<lparr>uq_retry_at := t\<rparr>) = uq_items q" "uq_items (uq_blocked t q) = uq_items q"
  "uq_ring (q\<lparr>uq_expired := n\<rparr>) = uq_ring q" "uq_ring (q\<lparr>uq_error_drops := n\<rparr>) = uq_ring q" "uq_ring (q\<lparr>uq_sent := n\<rparr>) = uq_ring q"
  "uq_ring (q\<lparr>uq_discarded := n\<rparr>) = uq_ring q" "uq_ring (q\<lparr>uq_capacity_drops := n\<rparr>) = uq_ring q"
  "uq_ring (q\<lparr>uq_retry_at := t\<rparr>) = uq_ring q" "uq_ring (uq_blocked t q) = uq_ring q"
  by (simp_all add: uq_items_def uq_ring_def uq_blocked_def)

lemma uq_blocked_counters [simp]:
  "uq_enqueued (uq_blocked t q) = uq_enqueued q" "uq_balance (uq_blocked t q) = uq_balance q"
  by (simp_all add: uq_blocked_def uq_balance_def)

lemma uq_pop_items:
  assumes "uq_ring q" "uq_size q \<noteq> 0"
  shows "uq_items q = uq_entries q ! uq_head q # uq_items (uq_pop q)" "uq_ring (uq_pop q)"
proof -
  have "uq_items (uq_pop q) = tl (uq_items q)" "hd (uq_items q) = uq_entries q ! uq_head q"
    using assms ring_items_pop [of "uq_size q" "uq_entries q" "uq_head q"] hd_ring_items [of "uq_size q" "uq_head q" "uq_entries q"]
    by (simp_all add: uq_ring_def uq_items_def uq_pop_sel)
  moreover have "uq_items q \<noteq> []"
    using assms(2) by (simp add: uq_items_def)
  ultimately show items: "uq_items q = uq_entries q ! uq_head q # uq_items (uq_pop q)"
    by (metis list.collapse)
  have "uq_size q - 1 \<le> udp_capacity" "Suc (uq_head q) mod udp_capacity < udp_capacity"
    using assms(1) by (auto simp: uq_ring_def udp_capacity_def)
  with assms(1) items show "uq_ring (uq_pop q)"
    by (simp add: uq_ring_def uq_pop_sel)
qed

lemma udp_inv_pop:
  assumes "udp_inv q" "uq_size q \<noteq> 0" "uq_size q' = uq_size q - 1" "uq_ring q'" "uq_enqueued q' = uq_enqueued q"
    and "uq_sent q' + uq_expired q' + uq_discarded q' + uq_error_drops q' = uq_sent q + uq_expired q + uq_discarded q + uq_error_drops q + 1"
  shows "udp_inv q'"
  using assms of_nat_pred [OF assms(2)] by (simp add: udp_inv_def uq_balance_def add.assoc del: of_nat_diff)

lemma uq_expire_items:
  "udp_inv q \<Longrightarrow> udp_inv (uq_expire now q) \<and> suffix (uq_items (uq_expire now q)) (uq_items q)"
proof (induction now q rule: uq_expire.induct)
  case (1 now q)
  show ?case
  proof (cases "\<not> uq_empty q \<and> now - en_created (uq_entries q ! uq_head q) \<ge> udp_max_age")
    case True
    let ?q = "(uq_pop q)\<lparr>uq_expired := uq_expired q + 1\<rparr>"
    have q: "uq_ring q" "uq_size q \<noteq> 0"
      using 1 True by (simp_all add: udp_inv_def uq_empty_def)
    have "udp_inv ?q"
      using "1.prems" q(2) by (rule udp_inv_pop) (simp_all add: uq_pop_items [OF q])
    with "1.IH" [OF True] have "udp_inv (uq_expire now ?q)" "suffix (uq_items (uq_expire now ?q)) (uq_items (uq_pop q))"
      by simp_all
    moreover have "uq_expire now q = uq_expire now ?q"
      using True by (simp add: uq_expire.simps [of now q])
    ultimately show ?thesis
      using uq_pop_items(1) [OF q] by (simp add: suffix_ConsI)
  next
    case False
    then have "uq_expire now q = q"
      unfolding uq_expire.simps [of now q] by (rule if_not_P)
    then show ?thesis
      using "1.prems" by simp
  qed
qed

lemma uq_expire_pending: "udp_inv q \<Longrightarrow> subseq (uq_pending (uq_expire now q)) (uq_pending q)"
  using uq_expire_items by (simp add: subseq_map suffix_imp_subseq)

lemma uq_measure_total: "uq_measure ps n = Some k \<Longrightarrow> k = n + sum_list (map length ps)"
proof (induction ps arbitrary: n)
  case (Cons p ps)
  show ?case
    using Cons.IH [of "n + length p"] Cons.prems by (simp split: if_splits)
qed simp

lemma uq_store_items:
  assumes "length entries = udp_capacity" "uq_size q + i + length ps \<le> udp_capacity"
  shows "length (uq_store ps i now q entries) = udp_capacity \<and>
    ring_items (uq_store ps i now q entries) (uq_head q) (uq_size q + i + length ps) =
      ring_items entries (uq_head q) (uq_size q + i) @ map (\<lambda>p. \<lparr>en_wire = p, en_created = now\<rparr>) ps"
  using assms
proof (induction ps arbitrary: i entries)
  case (Cons p ps)
  let ?e = "entries[(uq_head q + uq_size q + i) mod udp_capacity := \<lparr>en_wire = p, en_created = now\<rparr>]"
  have "ring_items ?e (uq_head q) (Suc (uq_size q + i)) = ring_items entries (uq_head q) (uq_size q + i) @ [\<lparr>en_wire = p, en_created = now\<rparr>]"
    using ring_items_push [of "uq_size q + i" entries "uq_head q"] Cons.prems by (simp add: add.assoc)
  then show ?case
    using Cons.IH [of ?e "i + 1"] Cons.prems by simp
qed simp

text \<open>What an operation owes: the invariant and the order.\<close>

definition uq_ok :: "udp_tx_queue \<Rightarrow> bytes list \<Rightarrow> udp_tx_queue \<Rightarrow> bytes list \<Rightarrow> bool" where
  "uq_ok q new q' sent \<longleftrightarrow> udp_inv q' \<and> subseq (sent @ uq_pending q') (uq_pending q @ new)"

lemma uq_ok_expire:
  assumes "udp_inv q" "uq_ok (uq_expire now q) new q' sent"
  shows "uq_ok q new q' sent"
proof -
  have "subseq (uq_pending (uq_expire now q) @ new) (uq_pending q @ new)"
    by (rule list_emb_append_mono [OF uq_expire_pending [OF assms(1)]]) simp
  then show ?thesis
    using assms(2) unfolding uq_ok_def by (blast intro: subseq_order.trans)
qed

lemma uq_append_ok:
  assumes inv: "udp_inv q" and step: "uq_append packets now q = (q', ok)"
  shows "uq_ok q packets q' []"
proof -
  define q1 where "q1 = uq_expire now q"
  have inv1: "udp_inv q1"
    unfolding q1_def using uq_expire_items [OF inv] ..
  have "uq_ok q1 packets q' []"
  proof (cases ok)
    case True
    then obtain n where n: "uq_measure packets 0 = Some n" "length packets \<le> udp_capacity - uq_size q1" "n \<le> udp_byte_limit - uq_bytes q1"
      and q': "q' = q1\<lparr>uq_entries := uq_store packets 0 now q1 (uq_entries q1), uq_size := uq_size q1 + length packets,
                  uq_bytes := uq_bytes q1 + n, uq_enqueued := uq_enqueued q1 + of_nat (length packets),
                  uq_high_water := max (uq_high_water q1) (uq_size q1 + length packets)\<rparr>"
      using step by (auto simp: uq_append_def q1_def [symmetric] Let_def not_less split: option.splits if_splits)
    have ring: "uq_ring q1" "uq_size q1 + length packets \<le> udp_capacity" "uq_bytes q1 + n \<le> udp_byte_limit"
      using inv1 n(2,3) unfolding udp_inv_def uq_ring_def by linarith+
    have stored: "length (uq_entries q') = udp_capacity" "uq_items q' = uq_items q1 @ map (\<lambda>p. \<lparr>en_wire = p, en_created = now\<rparr>) packets"
      using uq_store_items [of "uq_entries q1" q1 0 packets now] ring by (simp_all add: uq_ring_def uq_items_def q')
    then have pending: "uq_pending q' = uq_pending q1 @ packets"
      by (simp add: comp_def)
    have "uq_ring q'"
      using ring stored(1) uq_measure_total [OF n(1)] unfolding uq_ring_def pending by (simp add: q')
    moreover have "uq_enqueued q' = uq_balance q'"
      using inv1 by (simp add: udp_inv_def uq_balance_def q' ac_simps)
    ultimately show ?thesis
      using pending by (simp add: uq_ok_def udp_inv_def)
  next
    case False
    then have "q' = q1\<lparr>uq_capacity_drops := uq_capacity_drops q1 + of_nat (length packets)\<rparr>"
      using step by (auto simp: uq_append_def q1_def [symmetric] Let_def split: option.splits if_splits)
    then show ?thesis
      using inv1 by (simp add: uq_ok_def udp_inv_def uq_balance_def prefix_imp_subseq)
  qed
  then show ?thesis
    unfolding q1_def by (rule uq_ok_expire [OF inv])
qed

lemma uq_flush_loop_ok:
  "udp_inv q \<Longrightarrow> uq_flush_loop n i now env q res = (q', res', sent) \<Longrightarrow> uq_ok q [] q' sent"
proof (induction n arbitrary: i q res q' res' sent)
  case 0
  then show ?case
    by (simp add: uq_ok_def)
next
  case (Suc n)
  show ?case
  proof (cases "uq_size q = 0")
    case True
    then show ?thesis
      using Suc.prems by (simp add: uq_ok_def uq_empty_def)
  next
    case False
    define wire where "wire = en_wire (uq_entries q ! uq_head q)"
    have q: "uq_ring q" "uq_size q \<noteq> 0"
      using False Suc.prems(1) by (simp_all add: udp_inv_def)
    have error: "uq_ok q [] ((uq_pop q)\<lparr>uq_error_drops := uq_error_drops q + 1\<rparr>) []"
      using udp_inv_pop [OF Suc.prems(1) q(2), of "(uq_pop q)\<lparr>uq_error_drops := uq_error_drops q + 1\<rparr>"] uq_pop_items [OF q]
      by (simp add: uq_ok_def subseq_Cons')
    have blocked: "uq_ok q [] (uq_blocked now q) []" "uq_ok q [] (q\<lparr>uq_retry_at := now + udp_retry_delay\<rparr>) []"
      using Suc.prems(1) by (simp_all add: uq_ok_def udp_inv_def) (simp add: uq_balance_def)
    let ?p = "uq_pop (q\<lparr>uq_sent := uq_sent q + 1\<rparr>)"
    have pop: "uq_items q = uq_entries q ! uq_head q # uq_items ?p" "uq_ring ?p"
      using uq_pop_items [of "q\<lparr>uq_sent := uq_sent q + 1\<rparr>"] q by simp_all
    have "udp_inv ?p"
      using Suc.prems(1) q(2) by (rule udp_inv_pop) (simp_all add: pop(2))
    then have sent: "uq_ok q [] q2 (wire # s2)"
      if "uq_flush_loop n (i + 1) now env ?p r = (q2, r2, s2)" for r q2 r2 s2
      using Suc.IH [OF _ that] pop(1) by (simp add: uq_ok_def wire_def)
    show ?thesis
    proof (cases "env i")
      case (Sent k)
      then show ?thesis
        using Suc.prems(2) q(2) sent error by (auto simp: uq_empty_def wire_def [symmetric] split: prod.splits if_splits)
    next
      case (Send_errno e)
      then show ?thesis
        using Suc.prems(2) q(2) error blocked by (auto simp: uq_empty_def split: if_splits)
    qed
  qed
qed

lemma uq_flush_ok:
  assumes inv: "udp_inv q" and step: "uq_flush now env q = (q', res, sent)"
  shows "uq_ok q [] q' sent"
proof -
  have "udp_inv (uq_expire now q)"
    using uq_expire_items [OF inv] ..
  then have "uq_ok (uq_expire now q) [] q' sent"
    using step uq_flush_loop_ok [of "uq_expire now q"] by (auto simp: uq_flush_def Let_def uq_ok_def split: if_splits)
  then show ?thesis
    by (rule uq_ok_expire [OF inv])
qed

lemma uq_pop_all_empty:
  "uq_ring q \<Longrightarrow> uq_ring (uq_pop_all q) \<and> uq_size (uq_pop_all q) = 0 \<and> uq_enqueued (uq_pop_all q) = uq_enqueued q \<and>
     uq_sent (uq_pop_all q) = uq_sent q \<and> uq_expired (uq_pop_all q) = uq_expired q \<and>
     uq_discarded (uq_pop_all q) = uq_discarded q \<and> uq_error_drops (uq_pop_all q) = uq_error_drops q"
proof (induction q rule: uq_pop_all.induct)
  case (1 q)
  then show ?case
    using uq_pop_items(2) [of q] by (simp add: uq_pop_all.simps [of q] uq_empty_def)
qed

lemma uq_discard_ok: "udp_inv q \<Longrightarrow> uq_ok q [] (uq_discard q) []"
  using uq_pop_all_empty [of "q\<lparr>uq_discarded := uq_discarded q + of_nat (uq_size q)\<rparr>"]
  by (simp add: uq_discard_def uq_ok_def udp_inv_def uq_balance_def uq_items_zero ac_simps)

subsection \<open>Any sequence of operations\<close>

datatype udp_op =
    Uq_append "bytes list" time
  | Uq_flush time "nat \<Rightarrow> send_result"
  | Uq_expire time
  | Uq_discard
  | Uq_blocked time
  | Uq_reject nat

fun udp_step :: "udp_op \<Rightarrow> udp_tx_queue \<Rightarrow> udp_tx_queue \<times> bytes list" where
  "udp_step (Uq_append packets now) q = (fst (uq_append packets now q), [])"
| "udp_step (Uq_flush now env) q = (case uq_flush now env q of (q', res, sent) \<Rightarrow> (q', sent))"
| "udp_step (Uq_expire now) q = (uq_expire now q, [])"
| "udp_step Uq_discard q = (uq_discard q, [])"
| "udp_step (Uq_blocked now) q = (uq_blocked now q, [])"
| "udp_step (Uq_reject n) q = (uq_reject n q, [])"

fun udp_submitted :: "udp_op \<Rightarrow> bytes list" where
  "udp_submitted (Uq_append packets now) = packets"
| "udp_submitted _ = []"

lemma udp_step_ok:
  assumes "udp_inv q" "udp_step op q = (q', sent)"
  shows "uq_ok q (udp_submitted op) q' sent"
proof (cases op)
  case (Uq_append packets now)
  then show ?thesis
    using assms uq_append_ok [of q packets now] by (auto simp: prod_eq_iff)
next
  case (Uq_flush now env)
  then show ?thesis
    using assms uq_flush_ok [of q now env] by (auto split: prod.splits)
next
  case (Uq_expire now)
  then show ?thesis
    using assms uq_expire_items [of q now] uq_expire_pending [of q now] by (auto simp: uq_ok_def)
next
  case Uq_discard
  then show ?thesis
    using assms uq_discard_ok [of q] by auto
next
  case (Uq_blocked now)
  then show ?thesis
    using assms by (auto simp: uq_ok_def udp_inv_def)
next
  case (Uq_reject n)
  then show ?thesis
    using assms by (auto simp: uq_ok_def udp_inv_def uq_balance_def uq_reject_def)
qed

interpretation udp: ordered_queue udp_step udp_submitted uq_pending udp_inv
  using udp_step_ok by unfold_locales (simp add: uq_ok_def)

lemma udp_inv_init: "udp_inv udp_queue_init" "uq_pending udp_queue_init = []"
  by (simp_all add: udp_inv_def uq_ring_def uq_balance_def udp_queue_init_def uq_items_def udp_capacity_def udp_byte_limit_def)

text \<open>
  C22. The UDP transmit queue is an accountable FIFO. After any sequence of operations and
  socket answers, the datagrams sent followed by those queued are, in order, among the
  appended ones; at most 64 datagrams and 256 KiB are queued; and the counters balance:
  enqueued datagrams are sent, expired, discarded, dropped on an error or still queued.
\<close>

theorem udp_queue_ordered:
  assumes "run_queue udp_step ops udp_queue_init = (q, sent)"
  shows "subseq (sent @ uq_pending q) (concat (map udp_submitted ops)) \<and>
    length (uq_pending q) \<le> 64 \<and> sum_list (map length (uq_pending q)) \<le> 256 * 1024 \<and>
    uq_enqueued q = uq_sent q + uq_expired q + uq_discarded q + uq_error_drops q + of_nat (length (uq_pending q))"
proof -
  have "udp_inv q" "subseq (sent @ uq_pending q) (concat (map udp_submitted ops))"
    using udp.run_ordered [OF udp_inv_init(1) assms] udp_inv_init(2) by simp_all
  then show ?thesis
    by (simp add: udp_inv_def uq_ring_def uq_balance_def udp_capacity_def udp_byte_limit_def)
qed

theorem udp_queue_ordered_witness:
  "\<exists>q sent. run_queue udp_step [Uq_append [[1], [2]] 0, Uq_flush 5 (\<lambda>i. if i = 0 then Sent 1 else Send_errno 11)] udp_queue_init = (q, sent) \<and>
     subseq (sent @ uq_pending q) [[1], [2]]"
proof -
  let ?ops = "[Uq_append [[1], [2]] 0, Uq_flush 5 (\<lambda>i. if i = 0 then Sent 1 else Send_errno 11)]"
  obtain q sent where run: "run_queue udp_step ?ops udp_queue_init = (q, sent)"
    by (cases "run_queue udp_step ?ops udp_queue_init")
  from udp_queue_ordered [OF run] run show ?thesis
    by (auto simp del: run_queue.simps)
qed

end
