(* ===== verification/Switch_Protocol.thy ===== *)
theory Switch_Protocol
  imports Codec
begin

text \<open>
  The switch's local protocol, \<open>src/ipc/switch_protocol.hpp\<close>: port registrations and
  labelled frames. A frame view holds the label region and the payload the C++ view points
  to; opcodes are the bytes of the enumeration.
\<close>

definition switch_protocol_version :: u8 where "switch_protocol_version = 1"
definition switch_base_header_size :: nat where "switch_base_header_size = 8"
definition switch_label_size :: nat where "switch_label_size = 8"
definition switch_max_labels :: nat where "switch_max_labels = 8"
definition switch_registration_header_size :: nat where "switch_registration_header_size = 8"
definition switch_max_port_id_size :: nat where "switch_max_port_id_size = 63"

type_synonym switch_opcode = u8

definition switch_packet :: switch_opcode where "switch_packet = 1"
definition exit_packet :: switch_opcode where "exit_packet = 2"

lemmas switch_sizes =
  switch_protocol_version_def switch_base_header_size_def switch_label_size_def switch_max_labels_def
  switch_registration_header_size_def switch_max_port_id_size_def switch_packet_def exit_packet_def

subsection \<open>Registration\<close>

definition port_byte :: "u8 \<Rightarrow> bool" where
  "port_byte b \<longleftrightarrow> \<not> (b < 0x21 \<or> b > 0x7e)"

definition encode_switch_registration :: "string \<Rightarrow> bytes result" where
  "encode_switch_registration port_id =
     (if port_id = [] \<or> length port_id > switch_max_port_id_size then
        Inl (Runtime_error ''Invalid switch port ID length'')
      else if \<not> list_all (\<lambda>c. port_byte (byte_of_char c)) port_id then
        Inl (Runtime_error ''Switch port ID must be printable ASCII without spaces'')
      else Inr (bytes_of_string ''TTP'' @ [switch_protocol_version, of_nat (length port_id), 0, 0, 0] @
        bytes_of_string port_id))"

definition decode_switch_registration :: "bytes \<Rightarrow> string option" where
  "decode_switch_registration data =
     (if length data < switch_registration_header_size \<or>
         data ! 0 \<noteq> byte_of_char CHR ''T'' \<or> data ! 1 \<noteq> byte_of_char CHR ''T'' \<or> data ! 2 \<noteq> byte_of_char CHR ''P'' \<or>
         data ! 3 \<noteq> switch_protocol_version \<or> data ! 5 \<noteq> 0 \<or> data ! 6 \<noteq> 0 \<or> data ! 7 \<noteq> 0 then None
      else let id_size = unat (data ! 4) in
        if id_size = 0 \<or> id_size > switch_max_port_id_size \<or> length data \<noteq> switch_registration_header_size + id_size then None
        else if \<not> list_all port_byte (slice switch_registration_header_size id_size data) then None
        else Some (string_of_bytes (slice switch_registration_header_size id_size data)))"

subsection \<open>Frames\<close>

record switch_frame_view =
  sv_opcode :: switch_opcode
  sv_labels :: bytes
  sv_label_count :: nat
  sv_payload :: bytes

definition view_label :: "switch_frame_view \<Rightarrow> nat \<Rightarrow> u64 result" where
  "view_label frame index =
     (if index \<ge> sv_label_count frame then Inl (Out_of_range ''Switch label index out of range'')
      else Inr (load_be64 (drop (index * switch_label_size) (sv_labels frame))))"

definition decode_switch_frame :: "bytes \<Rightarrow> switch_frame_view option" where
  "decode_switch_frame data =
     (if length data < switch_base_header_size \<or> data ! 0 \<noteq> switch_protocol_version \<or> data ! 2 \<noteq> 0 then None
      else let opcode = data ! 1 in
        if opcode \<noteq> switch_packet \<and> opcode \<noteq> exit_packet then None
        else let label_count = unat (data ! 3) in
          if label_count = 0 \<or> label_count > switch_max_labels then None
          else let total_length = unat (load_be32 (drop 4 data));
                   header_size = switch_base_header_size + label_count * switch_label_size in
            if total_length \<noteq> length data \<or> header_size > length data then None
            else if length data - header_size = 0 then None
            else Some \<lparr>sv_opcode = opcode,
                   sv_labels = slice switch_base_header_size (label_count * switch_label_size) data,
                   sv_label_count = label_count, sv_payload = drop header_size data\<rparr>)"

definition store_labels :: "u64 list \<Rightarrow> bytes" where
  "store_labels labels = concat (map store_be64 labels)"

definition encode_switch_header :: "switch_opcode \<Rightarrow> u64 list \<Rightarrow> nat \<Rightarrow> bytes result" where
  "encode_switch_header opcode labels payload_size =
     (if opcode \<noteq> switch_packet \<and> opcode \<noteq> exit_packet \<or> labels = [] \<or> length labels > switch_max_labels \<or> payload_size = 0
      then Inl (Runtime_error ''Invalid switch frame'')
      else let header_size = switch_base_header_size + length labels * switch_label_size in
        if payload_size > 0xffffffff - header_size then Inl (Runtime_error ''Switch frame is too large'')
        else Inr ([switch_protocol_version, opcode, 0, of_nat (length labels)] @ store_be32 (of_nat (header_size + payload_size)) @
          store_labels labels))"

definition encode_switch_frame :: "switch_opcode \<Rightarrow> u64 list \<Rightarrow> bytes \<Rightarrow> bytes result" where
  "encode_switch_frame opcode labels payload =
     (case encode_switch_header opcode labels (length payload) of
        Inl e \<Rightarrow> Inl e
      | Inr header \<Rightarrow> Inr (header @ payload))"

definition replace_top_switch_label :: "bytes \<Rightarrow> u64 \<Rightarrow> bytes result" where
  "replace_top_switch_label frame label =
     (case decode_switch_frame frame of
        None \<Rightarrow> Inl (Runtime_error ''Cannot relabel invalid switch frame'')
      | Some _ \<Rightarrow> Inr (take switch_base_header_size frame @ store_be64 label @ drop (switch_base_header_size + 8) frame))"

definition set_switch_opcode :: "bytes \<Rightarrow> switch_opcode \<Rightarrow> bytes result" where
  "set_switch_opcode frame opcode =
     (if opcode \<noteq> switch_packet \<and> opcode \<noteq> exit_packet then Inl (Runtime_error ''Invalid switch opcode'')
      else case decode_switch_frame frame of
        None \<Rightarrow> Inl (Runtime_error ''Cannot change opcode of invalid switch frame'')
      | Some _ \<Rightarrow> Inr (frame[1 := opcode]))"

subsection \<open>The label region\<close>

text \<open>The stack a view presents through \<open>label(0)\<close> ... \<open>label(label_count - 1)\<close>.\<close>

definition view_stack :: "switch_frame_view \<Rightarrow> u64 list" where
  "view_stack v = map (\<lambda>i. load_be64 (drop (i * switch_label_size) (sv_labels v))) [0..<sv_label_count v]"

lemma view_label_stack: "view_label v i = (if i < length (view_stack v) then Inr (view_stack v ! i)
    else Inl (Out_of_range ''Switch label index out of range''))"
  by (simp add: view_label_def view_stack_def)

lemma length_view_stack [simp]: "length (view_stack v) = sv_label_count v"
  by (simp add: view_stack_def)

lemma length_store_labels [simp]: "length (store_labels ls) = 8 * length ls"
  by (induction ls) (simp_all add: store_labels_def)

lemma store_labels_simps [simp]: "store_labels [] = []" "store_labels (l # ls) = store_be64 l @ store_labels ls"
  by (simp_all add: store_labels_def)

lemma load_store_labels: "map (\<lambda>i. load_be64 (drop (i * 8) (store_labels ls @ rest))) [0..<length ls] = ls"
proof (induction ls)
  case (Cons l ls)
  have "map (\<lambda>i. load_be64 (drop (Suc i * 8) (store_labels (l # ls) @ rest))) [0..<length ls] = ls"
    using Cons.IH by simp
  then show ?case
    by (simp add: upt_conv_Cons map_Suc_upt [symmetric] comp_def del: upt_Suc map_Suc_upt drop_append)
qed simp

lemma store_load_labels:
  "length b = 8 * n \<Longrightarrow> store_labels (map (\<lambda>i. load_be64 (drop (i * 8) b)) [0..<n]) = b"
proof (induction n arbitrary: b)
  case (Suc n)
  have "store_labels (map (\<lambda>i. load_be64 (drop (Suc i * 8) b)) [0..<n]) = drop 8 b"
    using Suc.IH [of "drop 8 b"] Suc.prems by (simp add: add.commute)
  moreover have "store_be64 (load_be64 b) = take 8 b"
    using stored_slices(1) [of 0 b] Suc.prems by simp
  ultimately show ?case
    by (simp add: upt_conv_Cons map_Suc_upt [symmetric] comp_def del: upt_Suc map_Suc_upt)
qed simp

subsection \<open>Exact codecs\<close>

definition valid_port :: "string \<Rightarrow> bool" where
  "valid_port port_id \<longleftrightarrow> port_id \<noteq> [] \<and> length port_id \<le> 63 \<and> list_all (\<lambda>c. port_byte (byte_of_char c)) port_id"

text \<open>The registration bytes of a valid port, and the bytes of a valid frame.\<close>

definition registration_bytes :: "string \<Rightarrow> bytes" where
  "registration_bytes port_id = (case encode_switch_registration port_id of Inr b \<Rightarrow> b | Inl _ \<Rightarrow> [])"

record switch_frame =
  sf_opcode :: switch_opcode
  sf_labels :: "u64 list"
  sf_payload :: bytes

definition frame_of_view :: "switch_frame_view \<Rightarrow> switch_frame" where
  "frame_of_view v = \<lparr>sf_opcode = sv_opcode v, sf_labels = view_stack v, sf_payload = sv_payload v\<rparr>"

definition decode_frame :: "bytes \<Rightarrow> switch_frame option" where
  "decode_frame data = map_option frame_of_view (decode_switch_frame data)"

definition frame_bytes :: "switch_frame \<Rightarrow> bytes" where
  "frame_bytes f = (case encode_switch_frame (sf_opcode f) (sf_labels f) (sf_payload f) of Inr b \<Rightarrow> b | Inl _ \<Rightarrow> [])"

definition frame_size :: "switch_frame \<Rightarrow> nat" where
  "frame_size f = 8 + length (sf_labels f) * 8 + length (sf_payload f)"

definition valid_frame :: "switch_frame \<Rightarrow> bool" where
  "valid_frame f \<longleftrightarrow> (sf_opcode f = 1 \<or> sf_opcode f = 2) \<and> 1 \<le> length (sf_labels f) \<and> length (sf_labels f) \<le> 8 \<and>
     sf_payload f \<noteq> [] \<and> frame_size f \<le> 0xffffffff"

lemma encode_switch_registration_valid:
  "encode_switch_registration p = Inr b \<longleftrightarrow> valid_port p \<and> b = [0x54, 0x54, 0x50, 1, of_nat (length p), 0, 0, 0] @ bytes_of_string p"
  by (auto simp: encode_switch_registration_def valid_port_def switch_sizes byte_of_char_def)

lemma registration_bytes_valid:
  "valid_port p \<Longrightarrow> registration_bytes p = [0x54, 0x54, 0x50, 1, of_nat (length p), 0, 0, 0] @ bytes_of_string p"
  using iffD2 [OF encode_switch_registration_valid, OF conjI [OF _ refl], of p] by (simp add: registration_bytes_def)

lemma encode_switch_frame_valid:
  "encode_switch_frame (sf_opcode f) (sf_labels f) (sf_payload f) = Inr b \<longleftrightarrow> valid_frame f \<and>
     b = [1, sf_opcode f, 0, of_nat (length (sf_labels f))] @ store_be32 (of_nat (frame_size f)) @ store_labels (sf_labels f) @ sf_payload f"
proof -
  have "encode_switch_frame (sf_opcode f) (sf_labels f) (sf_payload f) =
      (if \<not> (sf_opcode f = 1 \<or> sf_opcode f = 2) \<or> sf_labels f = [] \<or> length (sf_labels f) > 8 \<or> sf_payload f = []
       then Inl (Runtime_error ''Invalid switch frame'')
       else if length (sf_payload f) > 0xffffffff - (8 + length (sf_labels f) * 8) then Inl (Runtime_error ''Switch frame is too large'')
       else Inr ([1, sf_opcode f, 0, of_nat (length (sf_labels f))] @ store_be32 (of_nat (frame_size f)) @ store_labels (sf_labels f) @ sf_payload f))"
    by (simp add: encode_switch_frame_def encode_switch_header_def switch_sizes Let_def frame_size_def)
  moreover have "length (sf_labels f) \<le> 8 \<Longrightarrow>
      length (sf_payload f) > 0xffffffff - (8 + length (sf_labels f) * 8) \<longleftrightarrow> \<not> frame_size f \<le> 0xffffffff"
    by (auto simp: frame_size_def)
  ultimately show ?thesis
    by (auto simp: valid_frame_def Suc_le_eq)
qed

lemma frame_bytes_valid:
  "valid_frame f \<Longrightarrow> frame_bytes f = [1, sf_opcode f, 0, of_nat (length (sf_labels f))] @
     store_be32 (of_nat (frame_size f)) @ store_labels (sf_labels f) @ sf_payload f"
  using iffD2 [OF encode_switch_frame_valid, OF conjI [OF _ refl], of f] by (simp add: frame_bytes_def)

lemma unat_small_8: "n < 256 \<Longrightarrow> unat (of_nat n :: u8) = n"
  by (simp add: unat_of_nat take_bit_nat_eq_self)

lemma unat_small_32: "n \<le> 0xffffffff \<Longrightarrow> unat (of_nat n :: u32) = n"
  by (simp add: unat_of_nat take_bit_nat_eq_self)

interpretation switch_registration: message_codec registration_bytes decode_switch_registration valid_port
proof
  fix p
  assume valid: "valid_port p"
  then have "unat (of_nat (length p) :: u8) = length p"
    by (intro unat_small_8) (simp add: valid_port_def)
  with valid show "decode_switch_registration (registration_bytes p) = Some p"
    by (simp add: registration_bytes_valid decode_switch_registration_def switch_sizes valid_port_def
        list_all_iff Let_def byte_of_char_def [of "CHR ''T''"] byte_of_char_def [of "CHR ''P''"] comp_def)
next
  fix b p
  assume "decode_switch_registration b = Some p"
  then have len: "8 \<le> length b" "unat (b ! 4) \<noteq> 0" "unat (b ! 4) \<le> 63" "length b = 8 + unat (b ! 4)"
    and head: "b ! 0 = 0x54" "b ! 1 = 0x54" "b ! 2 = 0x50" "b ! 3 = 1" "b ! 5 = 0" "b ! 6 = 0" "b ! 7 = 0"
    and port: "list_all port_byte (slice 8 (unat (b ! 4)) b)" "p = string_of_bytes (slice 8 (unat (b ! 4)) b)"
    by (auto simp: decode_switch_registration_def switch_sizes byte_of_char_def Let_def split: if_splits)
  have p: "length p = unat (b ! 4)" "bytes_of_string p = drop 8 b"
    using port(2) len(4) by (simp_all add: slice_def comp_def)
  have "p \<noteq> []" "length p \<le> 63"
    using len p(1) by auto
  with port show "valid_port p"
    by (simp add: valid_port_def list_all_iff)
  with p have "registration_bytes p = [0x54, 0x54, 0x50, 1, b ! 4, 0, 0, 0] @ drop 8 b"
    by (simp add: registration_bytes_valid)
  also have "[0x54, 0x54, 0x50, 1, b ! 4, 0, 0, 0] = take 8 b"
    using head len(1) by (intro nth_equalityI) (auto simp: less_Suc_eq numeral_eq_Suc)
  finally show "registration_bytes p = b"
    by simp
qed

interpretation switch_frames: message_codec frame_bytes decode_frame valid_frame
proof
  fix f
  assume valid: "valid_frame f"
  define n where "n = length (sf_labels f)"
  have n: "unat (of_nat n :: u8) = n" "unat (of_nat (frame_size f) :: u32) = frame_size f"
    using valid unat_small_8 [of n] unat_small_32 [of "frame_size f"]
    by (simp_all add: valid_frame_def n_def)
  let ?b = "[1, sf_opcode f, 0, of_nat n] @ store_be32 (of_nat (frame_size f)) @ store_labels (sf_labels f) @ sf_payload f"
  have total: "load_be32 (drop 4 ?b) = of_nat (frame_size f)" 
    by simp
  have rest: "drop (8 + n * 8) ?b = sf_payload f" "slice 8 (n * 8) ?b = store_labels (sf_labels f)"
    using drop_drop [of "n * 8" 8 ?b] by (simp_all add: n_def slice_def mult.commute add.commute)
  have "decode_switch_frame ?b = Some \<lparr>sv_opcode = sf_opcode f, sv_labels = store_labels (sf_labels f), sv_label_count = n,
      sv_payload = sf_payload f\<rparr>"
    using valid n(1) rest unfolding decode_switch_frame_def Let_def total n(2)
    by (simp add: switch_sizes valid_frame_def n_def [symmetric] frame_size_def mult.commute)
  then show "decode_frame (frame_bytes f) = Some f"
    using valid load_store_labels [of "sf_labels f" "[]"]
    by (simp add: decode_frame_def frame_bytes_valid n_def [symmetric] frame_of_view_def view_stack_def switch_sizes)
next
  fix b f
  assume "decode_frame b = Some f"
  then obtain v where v: "decode_switch_frame b = Some v" "f = frame_of_view v"
    by (auto simp: decode_frame_def)
  define n where "n = unat (b ! 3)"
  from v(1) have len: "8 + 8 * n < length b" "1 \<le> n" "n \<le> 8" "unat (load_be32 (drop 4 b)) = length b"
    and head: "b ! 0 = 1" "b ! 1 = 1 \<or> b ! 1 = 2" "b ! 2 = 0"
    and v': "v = \<lparr>sv_opcode = b ! 1, sv_labels = slice 8 (8 * n) b, sv_label_count = n, sv_payload = drop (8 + 8 * n) b\<rparr>"
    by (auto simp: decode_switch_frame_def switch_sizes Let_def n_def mult.commute Suc_le_eq split: if_splits)
  have f: "sf_opcode f = b ! 1" "sf_payload f = drop (8 + 8 * n) b" "length (sf_labels f) = n" "store_labels (sf_labels f) = slice 8 (8 * n) b"
    using v(2) v' len(1) store_load_labels [of "slice 8 (8 * n) b" n]
    by (simp_all add: frame_of_view_def view_stack_def switch_sizes)
  have "length b \<le> 0xffffffff"
    using unsigned_less [of "load_be32 (drop 4 b)", where ?'a = nat] len(4) by simp
  with f len head(2) show "valid_frame f"
    by (simp add: valid_frame_def frame_size_def)
  moreover have "frame_size f = length b"
    using f(2,3) len(1) by (simp add: frame_size_def)
  ultimately have "frame_bytes f = [1, b ! 1, 0, b ! 3] @ store_be32 (load_be32 (drop 4 b)) @ slice 8 (8 * n) b @ drop (8 + 8 * n) b"
    using f by (simp add: frame_bytes_valid n_def len(4) [symmetric])
  also have "\<dots> = [1, b ! 1, 0, b ! 3] @ drop 4 b"
    using len(1) peel32 [of 8 b "load_be32 (drop 4 b)"] peel_slice [of "8 + 8 * n" 8 "8 * n" b] by simp
  also have "[1, b ! 1, 0, b ! 3] = take 4 b"
    using head len(1) by (intro nth_equalityI) (auto simp: less_Suc_eq numeral_eq_Suc)
  finally show "frame_bytes f = b"
    by simp
qed

text \<open>
  C30. Registrations and frames have one encoding each. A registration decodes to a port name
  exactly when the encoder accepts that name and produces those bytes. A buffer decodes to a
  frame exactly when the encoder accepts its opcode, its label stack and its payload, and
  produces that buffer; a stack has one to eight labels and a payload is never empty.
\<close>

theorem switch_codecs_exact:
  "(decode_switch_registration b = Some p \<longleftrightarrow> encode_switch_registration p = Inr b) \<and>
   (decode_frame b = Some f \<longleftrightarrow> encode_switch_frame (sf_opcode f) (sf_labels f) (sf_payload f) = Inr b)"
  using switch_registration.dec_iff [of b p] switch_frames.dec_iff [of b f]
  by (simp add: encode_switch_registration_valid registration_bytes_valid encode_switch_frame_valid frame_bytes_valid cong: conj_cong)

subsection \<open>Rewriting in place\<close>

lemma replace_top_switch_label_frame:
  assumes "decode_frame b = Some f"
  shows "replace_top_switch_label b l = Inr (frame_bytes (f\<lparr>sf_labels := l # tl (sf_labels f)\<rparr>))"
    and "decode_frame (frame_bytes (f\<lparr>sf_labels := l # tl (sf_labels f)\<rparr>)) = Some (f\<lparr>sf_labels := l # tl (sf_labels f)\<rparr>)"
proof -
  let ?g = "f\<lparr>sf_labels := l # tl (sf_labels f)\<rparr>"
  have f: "valid_frame f" "b = frame_bytes f"
    using assms switch_frames.dec_iff by blast+
  then obtain x xs where xs: "sf_labels f = x # xs"
    by (cases "sf_labels f") (auto simp: valid_frame_def)
  have g: "valid_frame ?g"
    using f(1) xs by (simp add: valid_frame_def frame_size_def)
  then show "decode_frame (frame_bytes ?g) = Some ?g"
    by (rule switch_frames.dec_enc)
  have "decode_switch_frame b \<noteq> None"
    using assms by (auto simp: decode_frame_def)
  then show "replace_top_switch_label b l = Inr (frame_bytes ?g)"
    using f g xs by (auto simp: replace_top_switch_label_def frame_bytes_valid switch_sizes frame_size_def)
qed

lemma set_switch_opcode_frame:
  assumes "decode_frame b = Some f" "opc = switch_packet \<or> opc = exit_packet"
  shows "set_switch_opcode b opc = Inr (frame_bytes (f\<lparr>sf_opcode := opc\<rparr>))"
    and "decode_frame (frame_bytes (f\<lparr>sf_opcode := opc\<rparr>)) = Some (f\<lparr>sf_opcode := opc\<rparr>)"
proof -
  let ?g = "f\<lparr>sf_opcode := opc\<rparr>"
  have f: "valid_frame f" "b = frame_bytes f"
    using assms(1) switch_frames.dec_iff by blast+
  have g: "valid_frame ?g"
    using f(1) assms(2) by (auto simp: valid_frame_def switch_sizes frame_size_def)
  then show "decode_frame (frame_bytes ?g) = Some ?g"
    by (rule switch_frames.dec_enc)
  have "decode_switch_frame b \<noteq> None"
    using assms(1) by (auto simp: decode_frame_def)
  then show "set_switch_opcode b opc = Inr (frame_bytes ?g)"
    using f g assms(2) by (auto simp: set_switch_opcode_def frame_bytes_valid frame_size_def)
qed

text \<open>
  C36. The in-place edits of a frame change what they name and nothing else. Replacing the top
  label or the opcode of a valid frame succeeds, and the new buffer decodes to the same frame
  with only that label or that opcode changed.
\<close>

theorem frame_edits:
  assumes "decode_frame b = Some f" "opc = switch_packet \<or> opc = exit_packet"
  shows "\<exists>c d. replace_top_switch_label b l = Inr c \<and> decode_frame c = Some (f\<lparr>sf_labels := l # tl (sf_labels f)\<rparr>) \<and>
    set_switch_opcode b opc = Inr d \<and> decode_frame d = Some (f\<lparr>sf_opcode := opc\<rparr>)"
  using replace_top_switch_label_frame [OF assms(1)] set_switch_opcode_frame [OF assms] by blast

theorem frame_edits_witness:
  "\<exists>f c. decode_frame [1, 1, 0, 1, 0, 0, 0, 17, 0, 0, 0, 0, 0, 0, 0, 7, 0x45] = Some f \<and>
     replace_top_switch_label [1, 1, 0, 1, 0, 0, 0, 17, 0, 0, 0, 0, 0, 0, 0, 7, 0x45] 9 = Inr c \<and>
     decode_frame c = Some (f\<lparr>sf_labels := 9 # tl (sf_labels f)\<rparr>)"
proof -
  let ?b = "[1, 1, 0, 1, 0, 0, 0, 17, 0, 0, 0, 0, 0, 0, 0, 7, 0x45] :: bytes"
  have "case decode_frame ?b of Some f \<Rightarrow> True | None \<Rightarrow> False"
    by code_simp
  then obtain f where f: "decode_frame ?b = Some f"
    by (auto split: option.splits)
  have "exit_packet = switch_packet \<or> exit_packet = exit_packet"
    by simp
  from frame_edits [OF f this, of 9] f show ?thesis
    by blast
qed

end
