(* ===== verification/Switch_V2.thy ===== *)
theory Switch_V2
  imports Switch_Protocol
begin

text \<open>
  The records of the switch's second connection protocol, \<open>src/ipc/switch_v2.hpp\<close>:
  negotiation of a shared-memory transport and the references to its slots. A C++ record is
  a zeroed array with a size; here it is the bytes up to that size. Decoders write into a
  parameter structure: here they return it updated.
\<close>

definition ipc_version :: u8 where "ipc_version = 2"
definition mmap_ref :: u32 where "mmap_ref = 1"
definition mmap_batch :: u32 where "mmap_batch = 2"
definition known_caps :: u32 where "known_caps = 3"
definition pool_abi :: u32 where "pool_abi = 1"
definition max_slots :: u32 where "max_slots = 128"
definition max_batch :: u32 where "max_batch = 16"
definition min_frame :: u32 where "min_frame = 17"
definition max_frame :: u32 where "max_frame = 65607"

lemmas ipc_constants =
  ipc_version_def mmap_ref_def mmap_batch_def known_caps_def pool_abi_def max_slots_def max_batch_def min_frame_def max_frame_def

datatype ipc_type = Type_hello | Type_welcome | Type_setup | Type_ready | Type_active | Type_ref | Type_batch | Type_error

fun type_byte :: "ipc_type \<Rightarrow> u8" where
  "type_byte Type_hello = 1"
| "type_byte Type_welcome = 2"
| "type_byte Type_setup = 3"
| "type_byte Type_ready = 4"
| "type_byte Type_active = 5"
| "type_byte Type_ref = 16"
| "type_byte Type_batch = 17"
| "type_byte Type_error = 127"

datatype ipc_mode = Mode_automatic | Mode_legacy | Mode_inline_only

definition parse_mode :: "string \<Rightarrow> ipc_mode result" where
  "parse_mode mode =
     (if mode = ''auto'' then Inr Mode_automatic
      else if mode = ''v1'' then Inr Mode_legacy
      else if mode = ''inline'' then Inr Mode_inline_only
      else Inl (Runtime_error ''IPC mode must be auto, v1 or inline''))"

record ipc_options =
  op_mode :: ipc_mode
  op_slots :: u32
  op_batch :: u32
  op_frame_limit :: u32
  op_frame_capacity :: u32

definition options_init :: ipc_options where
  "options_init = \<lparr>op_mode = Mode_automatic, op_slots = 128, op_batch = 8, op_frame_limit = max_frame, op_frame_capacity = 16384\<rparr>"

record ipc_parameters =
  pa_epoch :: u64
  pa_caps :: u32
  pa_abi :: u32
  pa_slots :: u32
  pa_frame_limit :: u32
  pa_capacity :: u32
  pa_stride :: u64
  pa_mapping_size :: u64
  pa_batch :: u32

definition parameters_init :: ipc_parameters where
  "parameters_init = \<lparr>pa_epoch = 0, pa_caps = 0, pa_abi = 0, pa_slots = 0, pa_frame_limit = max_frame, pa_capacity = 0,
     pa_stride = 0, pa_mapping_size = 0, pa_batch = 1\<rparr>"

definition inline_only :: "ipc_parameters \<Rightarrow> ipc_parameters" where
  "inline_only v = v\<lparr>pa_caps := 0, pa_abi := 0, pa_slots := 0, pa_capacity := 0, pa_stride := 0, pa_mapping_size := 0, pa_batch := 1\<rparr>"

definition ipc_header :: "ipc_type \<Rightarrow> nat \<Rightarrow> bytes" where
  "ipc_header ty n = bytes_of_string ''TTX'' @ [ipc_version, type_byte ty, 0] @ store_be16 (of_nat n)"

definition is_header :: "bytes \<Rightarrow> ipc_type \<Rightarrow> nat \<Rightarrow> bool" where
  "is_header p ty exact \<longleftrightarrow> length p = exact \<and> length p \<ge> 8 \<and> p ! 0 = byte_of_char CHR ''T'' \<and> p ! 1 = byte_of_char CHR ''T'' \<and>
     p ! 2 = byte_of_char CHR ''X'' \<and> p ! 3 = ipc_version \<and> p ! 4 = type_byte ty \<and> p ! 5 = 0 \<and>
     unat (load_be16 (drop 6 p)) = length p"

definition valid_frame_limit :: "u32 \<Rightarrow> bool" where
  "valid_frame_limit v \<longleftrightarrow> v \<ge> min_frame \<and> v \<le> max_frame"

definition valid_caps :: "u32 \<Rightarrow> bool" where
  "valid_caps caps \<longleftrightarrow> caps AND NOT known_caps = 0 \<and> (caps AND mmap_batch = 0 \<or> caps AND mmap_ref \<noteq> 0)"

definition hello_record :: "ipc_options \<Rightarrow> bytes" where
  "hello_record opts = (let mmap = (op_mode opts = Mode_automatic) in
     ipc_header Type_hello 32 @
     store_be32 (if mmap then known_caps else 0) @
     store_be32 (if mmap then pool_abi else 0) @
     store_be32 (if mmap then op_slots opts else 0) @
     store_be32 (op_frame_limit opts) @
     store_be32 (if mmap then op_batch opts else 1) @ replicate 4 0)"

definition decode_hello :: "bytes \<Rightarrow> ipc_parameters \<Rightarrow> ipc_parameters option" where
  "decode_hello p v =
     (if \<not> is_header p Type_hello 32 \<or> load_be32 (drop 28 p) \<noteq> 0 then None
      else let v = v\<lparr>pa_caps := load_be32 (drop 8 p), pa_abi := load_be32 (drop 12 p), pa_slots := load_be32 (drop 16 p),
                     pa_frame_limit := load_be32 (drop 20 p), pa_batch := load_be32 (drop 24 p)\<rparr> in
        if \<not> valid_frame_limit (pa_frame_limit v) \<or> pa_batch v = 0 \<or> pa_batch v > max_batch then None
        else if pa_caps v AND mmap_ref \<noteq> 0 then (if pa_slots v \<noteq> 0 then Some v else None)
        else if pa_abi v = 0 \<and> pa_slots v = 0 \<and> pa_caps v AND mmap_batch = 0 \<and> pa_batch v = 1 then Some v else None)"

definition welcome_record :: "ipc_parameters \<Rightarrow> bytes" where
  "welcome_record v = ipc_header Type_welcome 40 @ store_be64 (pa_epoch v) @ store_be32 (pa_caps v) @ store_be32 (pa_abi v) @
     store_be32 (pa_slots v) @ store_be32 (pa_frame_limit v) @ store_be32 (pa_batch v) @ replicate 4 0"

definition decode_welcome :: "bytes \<Rightarrow> ipc_parameters \<Rightarrow> ipc_parameters option" where
  "decode_welcome p v =
     (if \<not> is_header p Type_welcome 40 \<or> load_be32 (drop 36 p) \<noteq> 0 then None
      else let v = v\<lparr>pa_epoch := load_be64 (drop 8 p), pa_caps := load_be32 (drop 16 p), pa_abi := load_be32 (drop 20 p),
                     pa_slots := load_be32 (drop 24 p), pa_frame_limit := load_be32 (drop 28 p), pa_batch := load_be32 (drop 32 p)\<rparr> in
        if pa_epoch v = 0 \<or> \<not> valid_caps (pa_caps v) \<or> \<not> valid_frame_limit (pa_frame_limit v) then None
        else if pa_caps v AND mmap_ref = 0 then
          (if pa_abi v = 0 \<and> pa_slots v = 0 \<and> pa_batch v = 1 then Some v else None)
        else if pa_abi v = pool_abi \<and> pa_slots v \<noteq> 0 \<and> pa_slots v \<le> max_slots \<and> pa_batch v \<noteq> 0 \<and>
                pa_batch v \<le> max_batch \<and> (pa_caps v AND mmap_batch \<noteq> 0 \<or> pa_batch v = 1) then Some v else None)"

definition setup_record :: "ipc_parameters \<Rightarrow> bytes" where
  "setup_record v = ipc_header Type_setup 56 @ store_be64 (pa_epoch v) @ store_be32 (pa_caps v) @ store_be32 (pa_abi v) @
     store_be32 (pa_slots v) @ store_be32 (pa_capacity v) @ store_be64 (pa_stride v) @ store_be64 (pa_mapping_size v) @
     store_be32 (pa_batch v) @ replicate 4 0"

definition decode_setup :: "bytes \<Rightarrow> ipc_parameters \<Rightarrow> ipc_parameters option" where
  "decode_setup p offered =
     (if \<not> is_header p Type_setup 56 \<or> load_be32 (drop 52 p) \<noteq> 0 then None
      else let v = offered\<lparr>pa_epoch := load_be64 (drop 8 p), pa_caps := load_be32 (drop 16 p), pa_abi := load_be32 (drop 20 p),
                     pa_slots := load_be32 (drop 24 p), pa_capacity := load_be32 (drop 28 p), pa_stride := load_be64 (drop 32 p),
                     pa_mapping_size := load_be64 (drop 40 p), pa_batch := load_be32 (drop 48 p)\<rparr> in
        if pa_epoch v \<noteq> pa_epoch offered \<or> pa_caps v AND NOT (pa_caps offered) \<noteq> 0 \<or> \<not> valid_caps (pa_caps v) then None
        else if pa_caps v = 0 then
          (if pa_abi v = 0 \<and> pa_slots v = 0 \<and> pa_capacity v = 0 \<and> pa_stride v = 0 \<and> pa_mapping_size v = 0 \<and> pa_batch v = 1
           then Some v else None)
        else let stride = (64 + ucast (pa_capacity v) + 63) AND NOT 63 :: u64 in
          if pa_abi v = pool_abi \<and> pa_slots v = pa_slots offered \<and> pa_batch v = pa_batch offered \<and>
             valid_frame_limit (pa_capacity v) \<and> pa_capacity v \<le> pa_frame_limit offered \<and> pa_stride v = stride \<and>
             pa_mapping_size v = 4096 + ucast (pa_slots v) * stride
          then Some v else None)"

definition state_record :: "ipc_type \<Rightarrow> ipc_parameters \<Rightarrow> u32 \<Rightarrow> bytes" where
  "state_record ty v status = ipc_header ty 24 @ store_be64 (pa_epoch v) @ store_be32 (pa_caps v) @ store_be32 status"

definition decode_state :: "bytes \<Rightarrow> ipc_type \<Rightarrow> ipc_parameters \<Rightarrow> (u32 \<times> u32) option" where
  "decode_state p ty v =
     (if \<not> is_header p ty 24 \<or> load_be64 (drop 8 p) \<noteq> pa_epoch v then None
      else let caps = load_be32 (drop 16 p); status = load_be32 (drop 20 p) in
        if valid_caps caps \<and> caps AND NOT (pa_caps v) = 0 then Some (caps, status) else None)"

subsection \<open>References to slots\<close>

record ipc_reference =
  rf_slot :: u32
  rf_length :: u32
  rf_token :: u64

definition references :: "ipc_parameters \<Rightarrow> u32 \<Rightarrow> ipc_reference list \<Rightarrow> bytes" where
  "references v pool refs =
     (if pa_caps v AND mmap_batch = 0 then
        ipc_header Type_ref 40 @ store_be64 (pa_epoch v) @ store_be32 pool @
        store_be32 (rf_slot (refs ! 0)) @ store_be64 (rf_token (refs ! 0)) @ store_be32 (rf_length (refs ! 0)) @ replicate 4 0
      else
        ipc_header Type_batch (24 + length refs * 16) @ store_be64 (pa_epoch v) @ store_be32 pool @
        store_be16 (of_nat (length refs)) @ replicate 2 0 @
        concat (map (\<lambda>r. store_be32 (rf_slot r) @ store_be32 (rf_length r) @ store_be64 (rf_token r)) refs))"

definition load_reference :: "bytes \<Rightarrow> nat \<Rightarrow> ipc_reference" where
  "load_reference p i = \<lparr>rf_slot = load_be32 (drop (24 + i * 16) p), rf_length = load_be32 (drop (28 + i * 16) p),
     rf_token = load_be64 (drop (32 + i * 16) p)\<rparr>"

text \<open>The final loop of the decoder: each reference by itself, then against the earlier ones.\<close>

fun check_references :: "ipc_parameters \<Rightarrow> ipc_reference list \<Rightarrow> ipc_reference list \<Rightarrow> bool" where
  "check_references v earlier [] = True"
| "check_references v earlier (r # rs) =
     (if rf_slot r \<ge> pa_slots v \<or> rf_length r < min_frame \<or> rf_length r > pa_capacity v \<or>
         rf_token r AND 1 = 0 \<or> rf_token r = 0xffffffffffffffff then False
      else if list_ex (\<lambda>q. rf_slot q = rf_slot r) earlier then False
      else check_references v (earlier @ [r]) rs)"

definition decode_references :: "bytes \<Rightarrow> ipc_parameters \<Rightarrow> u32 \<Rightarrow> ipc_reference list option" where
  "decode_references p v pool =
     (if pa_caps v AND mmap_ref = 0 \<or> length p < 24 \<or> load_be64 (drop 8 p) \<noteq> pa_epoch v \<or> load_be32 (drop 16 p) \<noteq> pool then None
      else if is_header p Type_ref 40 then
        (if load_be32 (drop 36 p) \<noteq> 0 then None
         else let refs = [\<lparr>rf_slot = load_be32 (drop 20 p), rf_length = load_be32 (drop 32 p), rf_token = load_be64 (drop 24 p)\<rparr>] in
           if check_references v [] refs then Some refs else None)
      else let count = unat (load_be16 (drop 20 p)) in
        if pa_caps v AND mmap_batch = 0 \<or> count = 0 \<or> count > unat (pa_batch v) \<or> count > unat max_batch \<or>
           load_be16 (drop 22 p) \<noteq> 0 \<or> \<not> is_header p Type_batch (24 + count * 16) then None
        else let refs = map (load_reference p) [0..<count] in
          if check_references v [] refs then Some refs else None)"

subsection \<open>Records round trip\<close>

lemma length_ipc_header [simp]: "length (ipc_header ty n) = 8"
  by (simp add: ipc_header_def)

lemma is_header_of_header:
  assumes "n = 8 + length r" "n < 65536"
  shows "is_header (ipc_header ty n @ r) ty n"
proof -
  have "unat (of_nat n :: u16) = n"
    using assms(2) by (simp add: unat_of_nat take_bit_nat_eq_self)
  moreover have "drop 6 (ipc_header ty n @ r) = store_be16 (of_nat n) @ r"
    by (simp add: ipc_header_def)
  ultimately show ?thesis
    using assms(1) by (simp add: is_header_def ipc_header_def)
qed

lemma drop_header [simp]: "8 \<le> k \<Longrightarrow> drop k (ipc_header ty n @ r) = drop (k - 8) r"
  by simp

lemma load_zero32 [simp]: "load_be32 [0, 0, 0, 0] = 0" "load_be32 (replicate 4 0) = 0"
  by (simp_all add: load_be32_def)

lemma decode_hello_hello:
  assumes "valid_frame_limit (op_frame_limit opts)" "op_batch opts \<noteq> 0" "op_batch opts \<le> max_batch" "op_slots opts \<noteq> 0"
  shows "decode_hello (hello_record opts) v = Some
    (if op_mode opts = Mode_automatic
     then v\<lparr>pa_caps := known_caps, pa_abi := pool_abi, pa_slots := op_slots opts, pa_frame_limit := op_frame_limit opts, pa_batch := op_batch opts\<rparr>
     else v\<lparr>pa_caps := 0, pa_abi := 0, pa_slots := 0, pa_frame_limit := op_frame_limit opts, pa_batch := 1\<rparr>)"
  using assms
  by (auto simp: decode_hello_def hello_record_def Let_def is_header_of_header load_store_be32 [of _ "[]", simplified] ipc_constants)

lemma decode_welcome_welcome:
  assumes "pa_epoch v \<noteq> 0" "valid_caps (pa_caps v)" "valid_frame_limit (pa_frame_limit v)"
    and "if pa_caps v AND mmap_ref = 0 then pa_abi v = 0 \<and> pa_slots v = 0 \<and> pa_batch v = 1
      else pa_abi v = pool_abi \<and> pa_slots v \<noteq> 0 \<and> pa_slots v \<le> max_slots \<and> pa_batch v \<noteq> 0 \<and> pa_batch v \<le> max_batch \<and>
        (pa_caps v AND mmap_batch \<noteq> 0 \<or> pa_batch v = 1)"
  shows "decode_welcome (welcome_record v) w = Some (w\<lparr>pa_epoch := pa_epoch v, pa_caps := pa_caps v, pa_abi := pa_abi v,
    pa_slots := pa_slots v, pa_frame_limit := pa_frame_limit v, pa_batch := pa_batch v\<rparr>)"
  using assms
  by (auto simp: decode_welcome_def welcome_record_def Let_def is_header_of_header split: if_splits)

definition pool_stride :: "u32 \<Rightarrow> u64" where
  "pool_stride capacity = ((64 + ucast capacity + 63) AND NOT 63)"

lemma decode_setup_setup:
  assumes "pa_epoch v = pa_epoch offered" "pa_caps v AND NOT (pa_caps offered) = 0" "valid_caps (pa_caps v)"
    and "if pa_caps v = 0 then pa_abi v = 0 \<and> pa_slots v = 0 \<and> pa_capacity v = 0 \<and> pa_stride v = 0 \<and> pa_mapping_size v = 0 \<and> pa_batch v = 1
      else pa_abi v = pool_abi \<and> pa_slots v = pa_slots offered \<and> pa_batch v = pa_batch offered \<and> valid_frame_limit (pa_capacity v) \<and>
        pa_capacity v \<le> pa_frame_limit offered \<and> pa_stride v = pool_stride (pa_capacity v) \<and>
        pa_mapping_size v = 4096 + ucast (pa_slots v) * pa_stride v"
  shows "decode_setup (setup_record v) offered = Some (v\<lparr>pa_frame_limit := pa_frame_limit offered\<rparr>)"
proof -
  have "is_header (setup_record v) Type_setup 56" "load_be32 (drop 52 (setup_record v)) = 0"
    "load_be64 (drop 8 (setup_record v)) = pa_epoch v" "load_be32 (drop 16 (setup_record v)) = pa_caps v"
    "load_be32 (drop 20 (setup_record v)) = pa_abi v" "load_be32 (drop 24 (setup_record v)) = pa_slots v"
    "load_be32 (drop 28 (setup_record v)) = pa_capacity v" "load_be64 (drop 32 (setup_record v)) = pa_stride v"
    "load_be64 (drop 40 (setup_record v)) = pa_mapping_size v" "load_be32 (drop 48 (setup_record v)) = pa_batch v"
    by (simp_all add: setup_record_def is_header_of_header)
  with assms show ?thesis
    by (cases v; cases offered) (auto simp: decode_setup_def Let_def pool_stride_def split: if_splits)
qed

lemma decode_state_state:
  assumes "pa_epoch w = pa_epoch v" "valid_caps (pa_caps w)" "pa_caps w AND NOT (pa_caps v) = 0"
  shows "decode_state (state_record ty w status) ty v = Some (pa_caps w, status)"
  using assms load_store_be32 [of status "[]"]
  by (simp add: decode_state_def state_record_def is_header_of_header)

subsection \<open>What an accepted batch of references promises\<close>

definition reference_ok :: "ipc_parameters \<Rightarrow> ipc_reference \<Rightarrow> bool" where
  "reference_ok v r \<longleftrightarrow> rf_slot r < pa_slots v \<and> min_frame \<le> rf_length r \<and> rf_length r \<le> pa_capacity v \<and>
     rf_token r AND 1 \<noteq> 0 \<and> rf_token r \<noteq> 0xffffffffffffffff"

lemma check_references_iff:
  "check_references v earlier rs \<longleftrightarrow> (\<forall>r \<in> set rs. reference_ok v r) \<and> distinct (map rf_slot rs) \<and>
     rf_slot ` set earlier \<inter> rf_slot ` set rs = {}"
proof (induction rs arbitrary: earlier)
  case (Cons r rs)
  have "list_ex (\<lambda>q. rf_slot q = rf_slot r) earlier \<longleftrightarrow> rf_slot r \<in> rf_slot ` set earlier"
    by (simp add: list_ex_iff image_iff) metis
  then show ?case
    using Cons.IH [of "earlier @ [r]"] by (auto simp: reference_ok_def not_less not_le)
qed simp

definition reference_bytes :: "ipc_reference \<Rightarrow> bytes" where
  "reference_bytes r = store_be32 (rf_slot r) @ store_be32 (rf_length r) @ store_be64 (rf_token r)"

lemma length_reference_bytes [simp]: "length (reference_bytes r) = 16"
  by (simp add: reference_bytes_def)

lemma length_reference_list [simp]: "length (concat (map reference_bytes rs)) = 16 * length rs"
  by (induction rs) simp_all

lemma drop_reference_list:
  "i < length rs \<Longrightarrow> drop (i * 16) (concat (map reference_bytes rs)) = reference_bytes (rs ! i) @ drop (Suc i * 16) (concat (map reference_bytes rs))"
proof (induction rs arbitrary: i)
  case (Cons r rs)
  then show ?case
    by (cases i) simp_all
qed simp

lemma load_reference_list:
  assumes "length h = 24" "i < length rs"
  shows "load_reference (h @ concat (map reference_bytes rs)) i = rs ! i"
proof -
  let ?c = "concat (map reference_bytes rs)"
  obtain rest where rest: "drop (i * 16) ?c = reference_bytes (rs ! i) @ rest"
    using drop_reference_list [OF assms(2)] by blast
  have at: "drop (k + i * 16) (h @ ?c) = drop (k - 24) (drop (i * 16) ?c)" if "24 \<le> k" for k
    using that assms(1) by (simp add: drop_append add.commute)
  show ?thesis
    by (simp add: load_reference_def at rest del: drop_append) (simp add: reference_bytes_def)
qed

lemma decode_references_references:
  assumes "pa_caps v AND mmap_ref \<noteq> 0" "check_references v [] refs" "refs \<noteq> []"
    and "if pa_caps v AND mmap_batch = 0 then length refs = 1 else length refs \<le> unat (pa_batch v) \<and> length refs \<le> 16"
  shows "decode_references (references v pool refs) v pool = Some refs"
proof (cases "pa_caps v AND mmap_batch = 0")
  case True
  with assms(4) obtain r where r: "refs = [r]"
    by (auto simp: length_Suc_conv)
  have "is_header (references v pool refs) Type_ref 40"
    using True by (simp add: references_def is_header_of_header)
  then show ?thesis
    using True assms(1,2) r
    by (cases r) (simp add: decode_references_def del: check_references.simps,
      simp add: references_def Let_def del: check_references.simps)
next
  case False
  let ?n = "length refs"
  let ?h = "ipc_header Type_batch (24 + ?n * 16) @ store_be64 (pa_epoch v) @ store_be32 pool @ store_be16 (of_nat ?n) @ replicate 2 0"
  have b: "references v pool refs = ?h @ concat (map reference_bytes refs)"
    using False by (simp add: references_def reference_bytes_def [abs_def])
  have n: "?n \<le> 16" "?n \<le> unat (pa_batch v)" "?n \<noteq> 0" "unat (of_nat ?n :: u16) = ?n"
    using assms(3,4) False by (simp_all add: unat_of_nat take_bit_nat_eq_self)
  have head: "is_header (references v pool refs) Type_batch (24 + ?n * 16)"
    using is_header_of_header [of "24 + ?n * 16" "drop 8 (references v pool refs)" Type_batch] n(1) by (simp add: b)
  then have other: "\<not> is_header (references v pool refs) Type_ref 40"
    by (auto simp: is_header_def)
  have refs: "map (load_reference (references v pool refs)) [0..<?n] = refs"
    using load_reference_list [of ?h] unfolding b by (intro nth_equalityI) (simp_all del: append_assoc)
  have loads: "load_be64 (drop 8 (references v pool refs)) = pa_epoch v" "load_be32 (drop 16 (references v pool refs)) = pool"
    "load_be16 (drop 20 (references v pool refs)) = of_nat ?n" "load_be16 (drop 22 (references v pool refs)) = 0"
    "24 \<le> length (references v pool refs)"
    by (simp_all add: b) (simp_all add: load_be16_def numeral_2_eq_2)
  show ?thesis
    using False assms(1,2) n head other refs loads by (simp add: decode_references_def max_batch_def)
qed

text \<open>
  C20. Every batch of slot references a peer's record yields is safe to follow: there are
  between one and sixteen, no more than the negotiated batch size, each names a slot of the
  pool, a length between the smallest frame and the slot capacity and an odd token that is
  not the reserved one, and no slot is named twice. A record the sender builds from such
  references decodes to exactly them.
\<close>

theorem references_safe:
  "decode_references p v pool = Some refs \<Longrightarrow>
     1 \<le> length refs \<and> length refs \<le> 16 \<and> (length refs = 1 \<or> length refs \<le> unat (pa_batch v)) \<and>
     (\<forall>r \<in> set refs. reference_ok v r) \<and> distinct (map rf_slot refs) \<and>
     (pa_caps v AND mmap_batch \<noteq> 0 \<or> length refs = 1) \<and>
     (length refs \<le> unat (pa_batch v) \<longrightarrow> decode_references (references v pool refs) v pool = Some refs)"
proof -
  assume dec: "decode_references p v pool = Some refs"
  then have caps: "pa_caps v AND mmap_ref \<noteq> 0" and ok: "check_references v [] refs"
    and len: "length refs \<noteq> 0" "length refs \<le> 16" "length refs = 1 \<or> length refs \<le> unat (pa_batch v)"
      "pa_caps v AND mmap_batch \<noteq> 0 \<or> length refs = 1"
    by (auto simp: decode_references_def Let_def max_batch_def split: if_splits)
  have "length refs \<le> unat (pa_batch v) \<Longrightarrow> decode_references (references v pool refs) v pool = Some refs"
    using caps ok len by (intro decode_references_references) (auto split: if_splits)
  with ok len show ?thesis
    by (simp add: check_references_iff Suc_le_eq)
qed

definition sample_parameters :: ipc_parameters where
  "sample_parameters = \<lparr>pa_epoch = 1, pa_caps = 3, pa_abi = 1, pa_slots = 4, pa_frame_limit = 2048, pa_capacity = 2048,
     pa_stride = 2112, pa_mapping_size = 12544, pa_batch = 8\<rparr>"

theorem references_safe_witness:
  "\<exists>p refs. decode_references p sample_parameters 1 = Some refs \<and> length refs = 2 \<and> (\<forall>r \<in> set refs. reference_ok sample_parameters r)"
proof -
  define refs where "refs = [\<lparr>rf_slot = 2, rf_length = 100, rf_token = 5\<rparr>, \<lparr>rf_slot = 0, rf_length = 17, rf_token = 7\<rparr>]"
  have "decode_references (references sample_parameters 1 refs) sample_parameters 1 = Some refs"
    by (rule decode_references_references) (simp_all add: sample_parameters_def refs_def ipc_constants)
  from this references_safe [OF this] show ?thesis
    by (intro exI [of _ "references sample_parameters 1 refs"] exI [of _ refs]) (simp add: refs_def)
qed

end
