(* ===== verification/Transport.thy ===== *)
theory Transport
  imports Switch_V2 Retry_Queue
begin

text \<open>
  The switch's transport over a sequenced-packet socket and, where negotiated, a pool of
  shared-memory slots per direction: \<open>src/ipc/switch_mmap.hpp\<close> (the slots of a mapping) and
  \<open>src/ipc/switch_transport.hpp\<close>. A pool is the shared memory itself, passed explicitly: a
  token and a data region per slot. The results of socket calls are arguments, and the
  records the socket accepted are part of the results.
\<close>

abbreviation EBUSY :: int where "EBUSY \<equiv> 16"
abbreviation EPROTO :: int where "EPROTO \<equiv> 71"
abbreviation EOVERFLOW :: int where "EOVERFLOW \<equiv> 75"
abbreviation EMSGSIZE :: int where "EMSGSIZE \<equiv> 90"

definition max_record :: nat where "max_record = 24 + 16 * unat max_batch"

subsection \<open>Pools\<close>

record pool =
  po_tokens :: "u64 list"
  po_data :: "bytes list"

definition pool_publish :: "ipc_reference \<Rightarrow> pool \<Rightarrow> pool" where
  "pool_publish r p = p\<lparr>po_tokens := (po_tokens p)[unat (rf_slot r) := rf_token r]\<rparr>"

definition pool_release :: "ipc_reference \<Rightarrow> pool \<Rightarrow> pool" where
  "pool_release r p = p\<lparr>po_tokens := (po_tokens p)[unat (rf_slot r) := rf_token r + 1]\<rparr>"

text \<open>The search for a free slot, from the producer's cursor on; an error is the \<open>errno\<close> it sets.\<close>

fun pool_reserve :: "nat \<Rightarrow> ipc_parameters \<Rightarrow> u32 \<Rightarrow> pool \<Rightarrow> u32 \<Rightarrow> u32 \<times> (int + ipc_reference)" where
  "pool_reserve 0 v len p cursor = (cursor, Inl EAGAIN)"
| "pool_reserve (Suc n) v len p cursor =
     (let slot = cursor; cursor = (cursor + 1) mod pa_slots v; generation = po_tokens p ! unat slot in
      if generation AND 1 \<noteq> 0 then pool_reserve n v len p cursor
      else if generation \<ge> 0xffffffffffffffff - 1 then (cursor, Inl EOVERFLOW)
      else (cursor, Inr \<lparr>rf_slot = slot, rf_length = len, rf_token = generation + 1\<rparr>))"

text \<open>Whether a negotiated geometry is consistent; the pool's creation and attachment check it first.\<close>

definition validate_geometry :: "ipc_parameters \<Rightarrow> bool" where
  "validate_geometry v \<longleftrightarrow> (let stride = (64 + ucast (pa_capacity v) + 63) AND NOT 63 :: u64 in
     \<not> (pa_epoch v = 0 \<or> pa_abi v \<noteq> pool_abi \<or> pa_slots v = 0 \<or> pa_slots v > max_slots \<or>
        \<not> valid_frame_limit (pa_capacity v) \<or> pa_capacity v > pa_frame_limit v \<or>
        pa_stride v \<noteq> stride \<or> pa_mapping_size v \<noteq> 4096 + ucast (pa_slots v) * stride))"

subsection \<open>State\<close>

record frame_parts =
  fp_first :: bytes
  fp_second :: bytes

definition fp_size :: "frame_parts \<Rightarrow> nat" where
  "fp_size f = length (fp_first f) + length (fp_second f)"

record transport_stats =
  ts_calls :: u64
  ts_records :: u64
  ts_inline_frames :: u64
  ts_mapped_frames :: u64
  ts_batches :: u64
  ts_largest_batch :: u64
  ts_pool_fallback :: u64
  ts_invalid :: u64

definition stats_init :: transport_stats where
  "stats_init = \<lparr>ts_calls = 0, ts_records = 0, ts_inline_frames = 0, ts_mapped_frames = 0, ts_batches = 0, ts_largest_batch = 0,
     ts_pool_fallback = 0, ts_invalid = 0\<rparr>"

definition stats_mapped :: "nat \<Rightarrow> transport_stats \<Rightarrow> transport_stats" where
  "stats_mapped n st =
     (let st = st\<lparr>ts_mapped_frames := ts_mapped_frames st + of_nat n\<rparr> in
      if of_nat n > ts_largest_batch st then st\<lparr>ts_largest_batch := of_nat n\<rparr> else st)"

record transport =
  tr_retry :: retry_queue
  tr_parameters :: ipc_parameters
  tr_extended :: bool
  tr_input_id :: u32
  tr_received :: "ipc_reference list"
  tr_read_cursor :: nat
  tr_output_id :: u32
  tr_cursor :: u32
  tr_staged :: "ipc_reference list"
  tr_rx :: transport_stats
  tr_tx :: transport_stats

definition transport_init :: transport where
  "transport_init = \<lparr>tr_retry = retry_init, tr_parameters = parameters_init, tr_extended = False, tr_input_id = 0,
     tr_received = [], tr_read_cursor = 0, tr_output_id = 0, tr_cursor = 0, tr_staged = [], tr_rx = stats_init, tr_tx = stats_init\<rparr>"

definition transport_reset :: "transport \<Rightarrow> transport" where
  "transport_reset t = t\<lparr>tr_retry := fst (rq_discard (tr_retry t)), tr_received := [], tr_read_cursor := 0, tr_staged := [],
     tr_parameters := parameters_init, tr_extended := False\<rparr>"

definition transport_configure :: "ipc_parameters \<Rightarrow> u32 \<Rightarrow> u32 \<Rightarrow> transport \<Rightarrow> transport" where
  "transport_configure v input_id output_id t =
     (transport_reset t)\<lparr>tr_parameters := v, tr_extended := True, tr_input_id := input_id, tr_output_id := output_id, tr_cursor := 0\<rparr>"

definition disable_mmap :: "transport \<Rightarrow> transport" where
  "disable_mmap t = t\<lparr>tr_parameters := inline_only (tr_parameters t)\<rparr>"

definition tr_mapped :: "transport \<Rightarrow> bool" where
  "tr_mapped t \<longleftrightarrow> pa_caps (tr_parameters t) AND mmap_ref \<noteq> 0"

definition batch_limit :: "transport \<Rightarrow> nat" where
  "batch_limit t = (if tr_mapped t then unat (pa_batch (tr_parameters t)) else 1)"

definition receive_pending :: "transport \<Rightarrow> bool" where
  "receive_pending t \<longleftrightarrow> tr_read_cursor t < length (tr_received t)"

subsection \<open>Sending\<close>

definition stage :: "frame_parts \<Rightarrow> transport \<Rightarrow> pool \<Rightarrow> (int + ipc_reference) \<times> transport \<times> pool" where
  "stage frame t p =
     (case pool_reserve (unat (pa_slots (tr_parameters t))) (tr_parameters t) (of_nat (fp_size frame)) p (tr_cursor t) of
        (cursor, Inl e) \<Rightarrow> (Inl e, t\<lparr>tr_cursor := cursor\<rparr>, p)
      | (cursor, Inr r) \<Rightarrow>
          let slot = unat (rf_slot r);
              p = p\<lparr>po_data := (po_data p)[slot := fp_first frame @ fp_second frame @ drop (fp_size frame) (po_data p ! slot)]\<rparr>
          in (Inr r, t\<lparr>tr_cursor := cursor\<rparr>, pool_publish r p))"

fun release_all :: "ipc_reference list \<Rightarrow> pool \<Rightarrow> pool" where
  "release_all [] p = p"
| "release_all (r # rs) p = release_all rs (pool_release r p)"

definition add_call :: "transport \<Rightarrow> transport" where
  "add_call t = t\<lparr>tr_tx := (tr_tx t)\<lparr>ts_calls := ts_calls (tr_tx t) + 1\<rparr>\<rparr>"

definition send_refs :: "ipc_reference list \<Rightarrow> send_result \<Rightarrow> transport \<Rightarrow> pool \<Rightarrow> (int + nat) \<times> transport \<times> pool \<times> bytes list" where
  "send_refs refs result t p =
     (let rec = references (tr_parameters t) (tr_output_id t) refs; t = add_call t in
      if result \<noteq> Sent (length rec) then
        (Inl (case result of Send_errno e \<Rightarrow> e | Sent _ \<Rightarrow> EIO), t, release_all refs p, [])
      else
        let tx = stats_mapped (length refs) ((tr_tx t)\<lparr>ts_records := ts_records (tr_tx t) + 1\<rparr>);
            tx = (if pa_caps (tr_parameters t) AND mmap_batch \<noteq> 0 then tx\<lparr>ts_batches := ts_batches tx + 1\<rparr> else tx)
        in (Inr (length refs), t\<lparr>tr_tx := tx\<rparr>, p, [rec]))"

definition inline_send :: "frame_parts \<Rightarrow> send_result \<Rightarrow> transport \<Rightarrow> (int + nat) \<times> transport \<times> bytes list" where
  "inline_send frame result t =
     (let t = add_call t in
      if result \<noteq> Sent (fp_size frame) then (Inl (case result of Send_errno e \<Rightarrow> e | Sent _ \<Rightarrow> EIO), t, [])
      else (Inr 1, t\<lparr>tr_tx := (tr_tx t)\<lparr>ts_records := ts_records (tr_tx t) + 1, ts_inline_frames := ts_inline_frames (tr_tx t) + 1\<rparr>\<rparr>,
            [fp_first frame @ fp_second frame]))"

text \<open>
  The loop that stages the frames of a batch: the references so far, and the overflow error
  where the loop returns early.
\<close>

fun stage_batch :: "nat \<Rightarrow> frame_parts list \<Rightarrow> transport \<Rightarrow> pool \<Rightarrow> bool \<times> ipc_reference list \<times> transport \<times> pool" where
  "stage_batch 0 frames t p = (False, [], t, p)"
| "stage_batch (Suc n) [] t p = (False, [], t, p)"
| "stage_batch (Suc n) (f # fs) t p =
     (if fp_size f < unat min_frame \<or> fp_size f > unat (pa_capacity (tr_parameters t)) then (False, [], t, p)
      else case stage f t p of
        (Inl e, t, p) \<Rightarrow>
          if e = EOVERFLOW then (True, [], t, p)
          else (False, [], t\<lparr>tr_tx := (tr_tx t)\<lparr>ts_pool_fallback := ts_pool_fallback (tr_tx t) + 1\<rparr>\<rparr>, p)
      | (Inr r, t, p) \<Rightarrow>
          case stage_batch n fs t p of (overflow, refs, t, p) \<Rightarrow> (overflow, r # refs, t, p))"

definition send_batch :: "frame_parts list \<Rightarrow> send_result \<Rightarrow> transport \<Rightarrow> pool \<Rightarrow> (int + nat) \<times> transport \<times> pool \<times> bytes list" where
  "send_batch frames result t p =
     (if frames = [] then (Inr 0, t, p, [])
      else if tr_staged t \<noteq> [] \<or> \<not> rq_empty (tr_retry t) then (Inl EBUSY, t, p, [])
      else if tr_extended t \<and> (fp_size (hd frames) < unat min_frame \<or> fp_size (hd frames) > unat (pa_frame_limit (tr_parameters t)))
      then (Inl EMSGSIZE, t, p, [])
      else if \<not> tr_mapped t \<or> fp_size (hd frames) > unat (pa_capacity (tr_parameters t))
      then (case inline_send (hd frames) result t of (res, t, out) \<Rightarrow> (res, t, p, out))
      else case stage_batch (min (length frames) (batch_limit t)) frames t p of
        (overflow, refs, t, p) \<Rightarrow>
          if overflow then (Inl EOVERFLOW, t, release_all refs p, [])
          else if refs \<noteq> [] then send_refs refs result t p
          else (case inline_send (hd frames) result t of (res, t, out) \<Rightarrow> (res, t, p, out)))"

text \<open>One frame: its size, or nothing where the C++ returns -1.\<close>

definition send_one :: "frame_parts \<Rightarrow> send_result \<Rightarrow> transport \<Rightarrow> pool \<Rightarrow> nat option \<times> transport \<times> pool \<times> bytes list" where
  "send_one frame result t p =
     (case send_batch [frame] result t p of
        (res, t, p, out) \<Rightarrow> (if res = Inr 1 then Some (fp_size frame) else None, t, p, out))"

subsection \<open>Receiving\<close>

text \<open>
  A received record: its bytes, how many files came with it, whether its ancillary data is
  well formed and whether it was truncated.
\<close>

datatype recv_result = Recv_errno int | Received bytes nat bool bool

definition bad_reference :: "transport \<Rightarrow> (int + nat \<times> bytes) \<times> transport" where
  "bad_reference t = (Inl EPROTO, t\<lparr>tr_rx := (tr_rx t)\<lparr>ts_invalid := ts_invalid (tr_rx t) + 1\<rparr>, tr_received := [], tr_read_cursor := 0\<rparr>)"

text \<open>The tail of \<open>receive\<close>: the next reference of the accepted batch.\<close>

definition receive_next :: "nat \<Rightarrow> transport \<Rightarrow> pool \<Rightarrow> (int + nat \<times> bytes) \<times> transport \<times> pool" where
  "receive_next capacity t p =
     (let ref = tr_received t ! tr_read_cursor t;
          t = t\<lparr>tr_read_cursor := tr_read_cursor t + 1\<rparr> in
      if po_tokens p ! unat (rf_slot ref) \<noteq> rf_token ref then (case bad_reference t of (res, t) \<Rightarrow> (res, t, p))
      else (Inr (unat (rf_length ref), take (min (unat (rf_length ref)) capacity) (po_data p ! unat (rf_slot ref))),
            t, pool_release ref p))"

text \<open>
  The head of \<open>receive\<close>: one record from the socket. \<open>Inl\<close> is what the call returns, \<open>Inr\<close>
  the state with an accepted batch.
\<close>

definition receive_record :: "recv_result \<Rightarrow> nat \<Rightarrow> transport \<Rightarrow> pool \<Rightarrow> ((int + nat \<times> bytes) \<times> transport) + transport" where
  "receive_record incoming capacity t p =
     (let t = t\<lparr>tr_received := [], tr_read_cursor := 0, tr_rx := (tr_rx t)\<lparr>ts_calls := ts_calls (tr_rx t) + 1\<rparr>\<rparr> in
      case incoming of
        Recv_errno e \<Rightarrow> Inl (Inl e, t)
      | Received data files valid trunc \<Rightarrow>
          if \<not> tr_extended t then
            Inl (Inr (length data, take capacity data),
              if data \<noteq> [] then t\<lparr>tr_rx := (tr_rx t)\<lparr>ts_records := ts_records (tr_rx t) + 1,
                ts_inline_frames := ts_inline_frames (tr_rx t) + 1\<rparr>\<rparr> else t)
          else if \<not> valid \<or> files \<noteq> 0 then Inl (bad_reference t)
          else if data = [] then Inl (Inr (0, []), t)
          else
            let t = t\<lparr>tr_rx := (tr_rx t)\<lparr>ts_records := ts_records (tr_rx t) + 1\<rparr>\<rparr>;
                limit = max capacity max_record; n = length data in
            if data ! 0 = switch_protocol_version \<or> data ! 0 = 2 then
              (if n > unat (pa_frame_limit (tr_parameters t)) then Inl (bad_reference t)
               else Inl (Inr (n, take (min n capacity) data),
                 t\<lparr>tr_rx := (tr_rx t)\<lparr>ts_inline_frames := ts_inline_frames (tr_rx t) + 1\<rparr>\<rparr>))
            else if n > limit \<or> trunc then Inl (bad_reference t)
            else case decode_references data (tr_parameters t) (tr_input_id t) of
                None \<Rightarrow> Inl (bad_reference t)
              | Some refs \<Rightarrow>
                  if list_ex (\<lambda>r. po_tokens p ! unat (rf_slot r) \<noteq> rf_token r) refs then Inl (bad_reference t)
                  else
                    let rx = (if data ! 4 = type_byte Type_batch then (tr_rx t)\<lparr>ts_batches := ts_batches (tr_rx t) + 1\<rparr> else tr_rx t)
                    in Inr (t\<lparr>tr_received := refs, tr_rx := stats_mapped (length refs) rx\<rparr>))"

definition receive_frame :: "recv_result \<Rightarrow> nat \<Rightarrow> transport \<Rightarrow> pool \<Rightarrow> (int + nat \<times> bytes) \<times> transport \<times> pool" where
  "receive_frame incoming capacity t p =
     (if receive_pending t then receive_next capacity t p
      else case receive_record incoming capacity t p of
        Inl (res, t) \<Rightarrow> (res, t, p)
      | Inr t \<Rightarrow> receive_next capacity t p)"

subsection \<open>Slots\<close>

definition pool_ok :: "ipc_parameters \<Rightarrow> pool \<Rightarrow> bool" where
  "pool_ok v p \<longleftrightarrow> length (po_tokens p) = unat (pa_slots v) \<and> length (po_data p) = unat (pa_slots v)"

text \<open>A slot holds a frame: its token is the reference's and its region starts with the frame.\<close>

definition holds :: "pool \<Rightarrow> ipc_reference \<Rightarrow> bytes \<Rightarrow> bool" where
  "holds p r w \<longleftrightarrow> po_tokens p ! unat (rf_slot r) = rf_token r \<and> take (unat (rf_length r)) (po_data p ! unat (rf_slot r)) = w \<and>
     unat (rf_length r) = length w"

lemma odd_succ:
  fixes g :: u64
  assumes "g AND 1 = 0" "\<not> g \<ge> 0xffffffffffffffff - 1"
  shows "(g + 1) AND 1 \<noteq> 0" "g + 1 \<noteq> 0xffffffffffffffff"
proof -
  have "even g"
    using assms(1) by (simp add: and_one_eq even_iff_mod_2_eq_zero)
  then show "(g + 1) AND 1 \<noteq> 0"
    by (simp add: and_one_eq odd_iff_mod_2_eq_one [symmetric])
  show "g + 1 \<noteq> 0xffffffffffffffff"
  proof
    assume "g + 1 = 0xffffffffffffffff"
    then have "g = 0xffffffffffffffff - 1"
      by (metis add_diff_cancel_right')
    with assms(2) show False
      by simp
  qed
qed

lemma pool_reserve_free:
  "pool_reserve n v len p cursor = (cursor', Inr r) \<Longrightarrow> cursor < pa_slots v \<Longrightarrow>
     rf_slot r < pa_slots v \<and> cursor' < pa_slots v \<and> rf_length r = len \<and> po_tokens p ! unat (rf_slot r) AND 1 = 0 \<and>
     rf_token r AND 1 \<noteq> 0 \<and> rf_token r \<noteq> 0xffffffffffffffff"
proof (induction n arbitrary: cursor)
  case (Suc n)
  define c where "c = (cursor + 1) mod pa_slots v"
  have c: "c < pa_slots v"
    unfolding c_def using Suc.prems(2) by (intro word_mod_less_divisor) (metis word_gt_0 word_not_simps(1))
  show ?case
    using Suc.prems Suc.IH [of c] c odd_succ [of "po_tokens p ! unat cursor"]
    by (auto simp: Let_def c_def [symmetric] split: if_splits)
qed simp

abbreviation fp_content :: "frame_parts \<Rightarrow> bytes" where
  "fp_content f \<equiv> fp_first f @ fp_second f"

lemma length_content: "length (fp_content f) = fp_size f"
  by (simp add: fp_size_def)

definition mappable :: "ipc_parameters \<Rightarrow> frame_parts \<Rightarrow> bool" where
  "mappable v f \<longleftrightarrow> unat min_frame \<le> fp_size f \<and> fp_size f \<le> unat (pa_capacity v)"

lemma holds_write:
  assumes "rf_slot r \<noteq> rf_slot s" "holds p r w"
  shows "holds (pool_publish s (p\<lparr>po_data := (po_data p)[unat (rf_slot s) := d]\<rparr>)) r w"
  using assms by (auto simp: holds_def pool_publish_def word_unat_eq_iff)

lemma stage_held:
  assumes stage: "stage f t p = (Inr r, t', p')"
    and pre: "pool_ok v p" "tr_cursor t < pa_slots v" "v = tr_parameters t" "mappable v f"
  shows "t' = t\<lparr>tr_cursor := tr_cursor t'\<rparr>" "tr_cursor t' < pa_slots v" "pool_ok v p'" "reference_ok v r"
    and "holds p' r (fp_content f)" "po_tokens p ! unat (rf_slot r) AND 1 = 0"
    and "po_tokens p' = (po_tokens p)[unat (rf_slot r) := rf_token r]"
    and "\<And>q w. holds p q w \<Longrightarrow> rf_token q AND 1 \<noteq> 0 \<Longrightarrow> rf_slot q \<noteq> rf_slot r \<and> holds p' q w"
proof -
  obtain c where res: "pool_reserve (unat (pa_slots v)) v (of_nat (fp_size f)) p (tr_cursor t) = (c, Inr r)"
    and t': "t' = t\<lparr>tr_cursor := c\<rparr>"
    and p': "p' = pool_publish r (p\<lparr>po_data := (po_data p)[unat (rf_slot r) := fp_content f @ drop (fp_size f) (po_data p ! unat (rf_slot r))]\<rparr>)"
    using stage by (auto simp: stage_def pre(3) Let_def split: prod.splits sum.splits)
  note free = pool_reserve_free [OF res pre(2)]
  have len: "unat (of_nat (fp_size f) :: u32) = fp_size f"
    using pre(4) unsigned_less [of "pa_capacity v", where ?'a = nat]
    by (simp add: mappable_def unat_of_nat take_bit_nat_eq_self)
  have slot: "unat (rf_slot r) < unat (pa_slots v)"
    using free by (simp add: word_less_nat_alt)
  show "t' = t\<lparr>tr_cursor := tr_cursor t'\<rparr>" "tr_cursor t' < pa_slots v" "pool_ok v p'"
    using free pre(1) by (simp_all add: t' p' pool_ok_def pool_publish_def)
  show "reference_ok v r"
    using free pre(4) len by (simp add: reference_ok_def mappable_def word_le_nat_alt word_less_nat_alt)
  show "po_tokens p ! unat (rf_slot r) AND 1 = 0"
    using free by simp
  show "po_tokens p' = (po_tokens p)[unat (rf_slot r) := rf_token r]"
    by (simp add: p' pool_publish_def)
  show "holds p' r (fp_content f)"
  proof -
    have n: "unat (rf_length r) = length (fp_content f)"
      using free len unfolding length_content by simp
    show ?thesis
      unfolding holds_def n p' using slot pre(1) by (simp add: pool_publish_def pool_ok_def)
  qed
  show "rf_slot q \<noteq> rf_slot r \<and> holds p' q w" if "holds p q w" "rf_token q AND 1 \<noteq> 0" for q w
  proof -
    have "rf_slot q \<noteq> rf_slot r"
      using that free by (auto simp: holds_def)
    then show ?thesis
      using that(1) holds_write unfolding p' by blast
  qed
qed

text \<open>Tokens change only at the slots that were taken, which were free.\<close>

definition taken :: "pool \<Rightarrow> pool \<Rightarrow> ipc_reference list \<Rightarrow> bool" where
  "taken p p' refs \<longleftrightarrow> length (po_tokens p') = length (po_tokens p) \<and>
     (\<forall>i. (\<forall>r \<in> set refs. unat (rf_slot r) \<noteq> i) \<longrightarrow> po_tokens p' ! i = po_tokens p ! i)"

lemma stage_batch_held:
  assumes "stage_batch n frames t p = (False, refs, t', p')"
    and "pool_ok v p" "tr_cursor t < pa_slots v" "v = tr_parameters t"
  shows "length refs \<le> n \<and> length refs \<le> length frames \<and> pool_ok v p' \<and> tr_parameters t' = v \<and> tr_output_id t' = tr_output_id t \<and>
    list_all2 (holds p') refs (map fp_content (take (length refs) frames)) \<and> (\<forall>r \<in> set refs. reference_ok v r) \<and>
    distinct (map rf_slot refs) \<and> taken p p' refs \<and>
    (\<forall>q w. holds p q w \<longrightarrow> rf_token q AND 1 \<noteq> 0 \<longrightarrow> rf_slot q \<notin> rf_slot ` set refs \<and> holds p' q w)"
  using assms
proof (induction n frames t p arbitrary: refs t' p' rule: stage_batch.induct)
  case (3 n f fs t p)
  show ?case
  proof (cases "mappable v f")
    case True
    then have guard: "\<not> (fp_size f < unat min_frame \<or> fp_size f > unat (pa_capacity (tr_parameters t)))"
      by (simp add: mappable_def "3.prems"(4))
    obtain res t1 p1 where st: "stage f t p = (res, t1, p1)"
      by (cases "stage f t p")
    show ?thesis
    proof (cases res)
      case (Inl e)
      have same: "t1 = t\<lparr>tr_cursor := tr_cursor t1\<rparr>" "p1 = p"
        using st Inl by (auto simp: stage_def Let_def split: prod.splits sum.splits)
      have "refs = []" "t' = t1\<lparr>tr_tx := (tr_tx t1)\<lparr>ts_pool_fallback := ts_pool_fallback (tr_tx t1) + 1\<rparr>\<rparr>" "p' = p1"
        using "3.prems"(1) guard st Inl by (auto split: if_splits)
      moreover have "tr_parameters t1 = v" "tr_output_id t1 = tr_output_id t"
        using same(1) "3.prems"(4) by (metis transport.select_convs(2,7) transport.surjective transport.update_convs(8))+
      ultimately show ?thesis
        using same(2) "3.prems"(2) by (simp add: taken_def)
    next
      case (Inr r)
      obtain refs' where rest: "stage_batch n fs t1 p1 = (False, refs', t', p')" "refs = r # refs'"
        using "3.prems"(1) guard st Inr by (auto split: prod.splits)
      note held = stage_held [OF st [unfolded Inr] "3.prems"(2-4) True]
      have t1: "tr_parameters t1 = v" "tr_output_id t1 = tr_output_id t"
        using held(1) "3.prems"(4) by (metis transport.select_convs(2,7) transport.surjective transport.update_convs(8))+
      note IH = "3.IH" [OF guard st [symmetric] Inr refl rest(1) held(3,2) t1(1) [symmetric]]
      have "rf_token r AND 1 \<noteq> 0"
        using held(4) by (simp add: reference_ok_def)
      then have r: "rf_slot r \<notin> rf_slot ` set refs'" "holds p' r (fp_content f)"
        using IH held(5) by blast+
      have old: "rf_slot q \<notin> rf_slot ` set refs \<and> holds p' q w" if "holds p q w" "rf_token q AND 1 \<noteq> 0" for q w
        using held(8) [OF that] IH that(2) unfolding rest(2) by auto
      have "taken p p' refs"
        using IH held(7) unfolding rest(2) taken_def by auto
      then show ?thesis
        using IH held(4) r old t1(2) by (simp add: rest(2))
    qed
  next
    case False
    then show ?thesis
      using "3.prems" by (auto simp: mappable_def taken_def split: if_splits)
  qed
qed (auto simp: taken_def)

subsection \<open>Delivery\<close>

text \<open>A receiver that is called once for each socket answer.\<close>

fun receive_times :: "recv_result list \<Rightarrow> nat \<Rightarrow> transport \<Rightarrow> pool \<Rightarrow> (int + nat \<times> bytes) list \<times> transport \<times> pool" where
  "receive_times [] capacity u p = ([], u, p)"
| "receive_times (i # is) capacity u p =
     (case receive_frame i capacity u p of (res, u, p) \<Rightarrow>
        case receive_times is capacity u p of (rs, u, p) \<Rightarrow> (res # rs, u, p))"

lemma holds_release: "holds p q w \<Longrightarrow> rf_slot q \<noteq> rf_slot r \<Longrightarrow> holds (pool_release r p) q w"
  by (auto simp: holds_def pool_release_def word_unat_eq_iff)

lemma receive_batch:
  assumes "list_all2 (holds p) refs ws" "distinct (map rf_slot refs)" "\<forall>w \<in> set ws. length w \<le> capacity"
    and "tr_received u = before @ refs" "tr_read_cursor u = length before"
  shows "\<exists>u'. receive_times (replicate (length refs) x) capacity u p = (map (\<lambda>w. Inr (length w, w)) ws, u', release_all refs p) \<and>
    \<not> receive_pending u'"
  using assms
proof (induction refs arbitrary: ws u before p)
  case Nil
  then show ?case
    by (simp add: receive_pending_def)
next
  case (Cons r refs)
  then obtain w ws' where ws: "ws = w # ws'" "holds p r w" "list_all2 (holds p) refs ws'"
    by (auto simp: list_all2_Cons1)
  let ?u = "u\<lparr>tr_read_cursor := tr_read_cursor u + 1\<rparr>"
  have "receive_frame x capacity u p = (Inr (length w, w), ?u, pool_release r p)"
    using Cons.prems(3-5) ws(1,2) by (auto simp: receive_frame_def receive_pending_def receive_next_def Let_def holds_def)
  moreover have "list_all2 (holds (pool_release r p)) refs ws'"
    using ws(3) Cons.prems(2) by (auto intro!: holds_release simp: list_all2_conv_all_nth) (metis image_eqI nth_mem)
  moreover from this obtain u' where "receive_times (replicate (length refs) x) capacity ?u (pool_release r p) =
      (map (\<lambda>w. Inr (length w, w)) ws', u', release_all refs (pool_release r p))" "\<not> receive_pending u'"
    using Cons.IH [of "pool_release r p" ws' ?u "before @ [r]"] Cons.prems ws(1) by auto
  ultimately show ?case
    using ws(1) by simp
qed

lemma release_all_free:
  assumes "\<forall>r \<in> set refs. rf_token r AND 1 \<noteq> 0" "i < length (po_tokens p)"
    and "po_tokens p ! i AND 1 = 0 \<or> i \<in> (\<lambda>r. unat (rf_slot r)) ` set refs"
  shows "po_tokens (release_all refs p) ! i AND 1 = 0"
  using assms
proof (induction refs arbitrary: p)
  case (Cons r refs)
  have "(rf_token r + 1) AND 1 = 0"
    using Cons.prems(1) by (auto simp: and_one_eq odd_iff_mod_2_eq_one [symmetric] even_iff_mod_2_eq_zero [symmetric])
  then have "po_tokens (pool_release r p) ! i AND 1 = 0 \<or> i \<in> (\<lambda>r. unat (rf_slot r)) ` set refs"
    using Cons.prems(2,3) by (cases "unat (rf_slot r) = i") (auto simp: pool_release_def)
  then show ?case
    using Cons.prems(1,2) Cons.IH [of "pool_release r p"] by (simp add: pool_release_def)
qed simp

lemma references_head: "references v pool refs ! 0 = 0x54" "references v pool refs \<noteq> []"
  by (auto simp: references_def ipc_header_def byte_of_char_def nth_append)

lemma length_references:
  "length (references v pool refs) = (if pa_caps v AND mmap_batch = 0 then 40 else 24 + length refs * 16)"
  using length_reference_list [of refs] by (simp add: references_def reference_bytes_def [abs_def] mult.commute)

text \<open>A sent batch of references, received: the head of the first call accepts it.\<close>

lemma receive_record_references:
  assumes "decode_references (references v pool refs) v pool = Some refs" "length refs \<le> 16"
    and u: "tr_parameters u = v" "tr_extended u" "tr_input_id u = pool"
    and held: "list_all2 (holds p) refs ws"
  shows "\<exists>u1. receive_record (Received (references v pool refs) 0 True False) capacity u p = Inr u1 \<and>
    tr_received u1 = refs \<and> tr_read_cursor u1 = 0"
proof -
  have "\<not> list_ex (\<lambda>r. po_tokens p ! unat (rf_slot r) \<noteq> rf_token r) refs"
    using held by (auto simp: list_ex_iff list_all2_conv_all_nth in_set_conv_nth holds_def)
  moreover have "\<not> length (references v pool refs) > max capacity max_record"
    using assms(2) unfolding length_references by (simp add: max_record_def ipc_constants)
  ultimately show ?thesis
    using assms(1) u references_head [of v pool refs]
    by (simp add: receive_record_def Let_def switch_protocol_version_def)
qed

lemma receive_times_first:
  assumes "\<not> receive_pending u" "receive_record i capacity u p = Inr u1" "receive_pending u1"
  shows "receive_times (i # is) capacity u p = receive_times (x # is) capacity u1 p"
  using assms by (simp add: receive_frame_def)

text \<open>The parameters a negotiation leaves behind, as both ends use them.\<close>

definition negotiated :: "ipc_parameters \<Rightarrow> bool" where
  "negotiated v \<longleftrightarrow> pa_batch v \<le> max_batch \<and> (pa_caps v AND mmap_batch \<noteq> 0 \<or> pa_batch v = 1)"

lemma send_refs_delivered:
  assumes batch: "stage_batch n frames t p = (False, refs, t1, p1)" "refs \<noteq> []" "n \<le> batch_limit t"
    and send: "send_refs refs result t1 p1 = (Inr k, t', p', [rec])"
    and t: "pool_ok v p" "tr_cursor t < pa_slots v" "v = tr_parameters t" "tr_mapped t" "negotiated v"
    and u: "tr_parameters u = v" "tr_extended u" "tr_input_id u = tr_output_id t" "\<not> receive_pending u"
    and fit: "\<forall>f \<in> set frames. fp_size f \<le> capacity"
  shows "\<exists>u' q. receive_times (Received rec 0 True False # replicate (k - 1) (Recv_errno 0)) capacity u p' =
      (map (\<lambda>f. Inr (fp_size f, fp_content f)) (take k frames), u', q) \<and> \<not> receive_pending u' \<and>
    (\<forall>i < unat (pa_slots v). po_tokens p ! i AND 1 = 0 \<longrightarrow> po_tokens q ! i AND 1 = 0)"
proof -
  note held = stage_batch_held [OF batch(1) t(1-3)]
  have sent: "k = length refs" "p' = p1" "rec = references v (tr_output_id t) refs"
    using send held by (auto simp: send_refs_def add_call_def Let_def split: if_splits)
  let ?ws = "map fp_content (take k frames)"
  have ws: "list_all2 (holds p1) refs ?ws" "\<forall>w \<in> set ?ws. length w \<le> capacity"
    using held fit by (auto simp: sent(1) length_content [unfolded fp_size_def] fp_size_def dest!: in_set_takeD)
  have len: "length refs \<le> 16" "length refs \<le> unat (pa_batch v)"
    using held batch(3) t(3-5) by (simp_all add: batch_limit_def negotiated_def max_batch_def word_le_nat_alt)
  have "check_references v [] refs"
    using held by (simp add: check_references_iff)
  then have dec: "decode_references rec v (tr_output_id t) = Some refs"
    unfolding sent(3) using t(3-5) batch(2) len
    by (intro decode_references_references) (auto simp: tr_mapped_def negotiated_def Suc_le_eq le_Suc_eq)
  obtain u1 where u1: "receive_record (Received rec 0 True False) capacity u p1 = Inr u1" "tr_received u1 = refs" "tr_read_cursor u1 = 0"
    using receive_record_references [of v "tr_output_id t" refs u p1 ?ws] dec len(1) u(1-3) ws(1) unfolding sent(3) by blast
  have "Recv_errno 0 # replicate (k - 1) (Recv_errno 0) = replicate k (Recv_errno 0)"
    using batch(2) sent(1) replicate_Suc [of "k - 1" "Recv_errno 0"] by simp
  then have "receive_times (Received rec 0 True False # replicate (k - 1) (Recv_errno 0)) capacity u p1 =
      receive_times (replicate k (Recv_errno 0)) capacity u1 p1"
    using receive_times_first [OF u(4) u1(1), of "replicate (k - 1) (Recv_errno 0)" "Recv_errno 0"] u1(2,3) batch(2)
    by (simp add: receive_pending_def del: receive_times.simps)
  moreover obtain u' where "receive_times (replicate k (Recv_errno 0)) capacity u1 p1 =
      (map (\<lambda>w. Inr (length w, w)) ?ws, u', release_all refs p1)" "\<not> receive_pending u'"
    using receive_batch [of p1 refs ?ws capacity u1 "[]" "Recv_errno 0"] ws held u1(2,3) sent(1) by auto
  moreover have "po_tokens (release_all refs p1) ! i AND 1 = 0" if "i < unat (pa_slots v)" "po_tokens p ! i AND 1 = 0" for i
  proof (rule release_all_free)
    show "\<forall>r \<in> set refs. rf_token r AND 1 \<noteq> 0" "i < length (po_tokens p1)"
      using that held by (auto simp: reference_ok_def pool_ok_def)
    show "po_tokens p1 ! i AND 1 = 0 \<or> i \<in> (\<lambda>r. unat (rf_slot r)) ` set refs"
    proof (cases "\<forall>r \<in> set refs. unat (rf_slot r) \<noteq> i")
      case True
      then have "po_tokens p1 ! i = po_tokens p ! i"
        using held unfolding taken_def by blast
      then show ?thesis
        using that(2) by simp
    qed auto
  qed
  moreover have "map (\<lambda>w. Inr (length w, w)) ?ws = map (\<lambda>f. Inr (fp_size f, fp_content f)) (take k frames)"
    by (simp add: fp_size_def)
  ultimately show ?thesis
    unfolding sent(2) by auto
qed

lemma inline_delivered:
  assumes send: "inline_send f result t = (Inr k, t', [rec])"
    and f: "fp_size f \<le> unat (pa_frame_limit v)" "fp_content f \<noteq> []" "fp_content f ! 0 = switch_protocol_version" "fp_size f \<le> capacity"
    and u: "tr_parameters u = v" "tr_extended u" "\<not> receive_pending u"
  shows "k = 1 \<and> (\<exists>u'. receive_times [Received rec 0 True False] capacity u p = ([Inr (fp_size f, fp_content f)], u', p) \<and> \<not> receive_pending u')"
proof -
  have "k = 1" "rec = fp_content f"
    using send by (auto simp: inline_send_def Let_def split: if_splits)
  then show ?thesis
    using f u by (simp add: receive_frame_def receive_record_def Let_def receive_pending_def fp_size_def)
qed

text \<open>
  C10. Every batch the transport sends is the batch the peer receives. Whatever frames of
  protocol version 1 the sender hands over, whether they go inline or through shared slots,
  and however many of them the call accepts, calling the receiver once per accepted frame
  yields exactly these frames, in order and unchanged, and every slot that was free before
  is free again.
\<close>

theorem transport_delivery:
  assumes send: "send_batch frames result t p = (Inr k, t', p', [rec])"
    and t: "pool_ok v p" "tr_cursor t < pa_slots v" "v = tr_parameters t" "tr_extended t" "negotiated v"
    and frames: "\<forall>f \<in> set frames. fp_content f \<noteq> [] \<and> fp_content f ! 0 = switch_protocol_version \<and> fp_size f \<le> capacity"
    and u: "tr_parameters u = v" "tr_extended u" "tr_input_id u = tr_output_id t" "\<not> receive_pending u"
  shows "\<exists>u' q. receive_times (Received rec 0 True False # replicate (k - 1) (Recv_errno 0)) capacity u p' =
      (map (\<lambda>f. Inr (fp_size f, fp_content f)) (take k frames), u', q) \<and> \<not> receive_pending u' \<and>
    (\<forall>i < unat (pa_slots v). po_tokens p ! i AND 1 = 0 \<longrightarrow> po_tokens q ! i AND 1 = 0)"
proof -
  have ne: "frames \<noteq> []"
    using send by (auto simp: send_batch_def)
  then obtain f fs where fs: "frames = f # fs"
    by (cases frames) auto
  have limit: "fp_size f \<le> unat (pa_frame_limit v)"
    using send fs t(3,4) by (auto simp: send_batch_def split: if_splits)
  have inline: ?thesis if "inline_send f result s = (Inr k, t', [rec])" "p' = p" for s
    using inline_delivered [OF that(1) limit _ _ _ u(1,2,4), of capacity p] frames fs that(2) by auto
  obtain ov refs t1 p1 where st: "stage_batch (min (length frames) (batch_limit t)) frames t p = (ov, refs, t1, p1)"
    by (cases "stage_batch (min (length frames) (batch_limit t)) frames t p")
  consider (inline) "inline_send f result t = (Inr k, t', [rec])" "p' = p"
    | (refs) "tr_mapped t" "\<not> ov" "refs \<noteq> []" "send_refs refs result t1 p1 = (Inr k, t', p', [rec])"
    | (none) "tr_mapped t" "\<not> ov" "refs = []" "inline_send f result t1 = (Inr k, t', [rec])" "p' = p1"
    using send fs st by (auto simp: send_batch_def split: if_splits prod.splits)
  then show ?thesis
  proof cases
    case refs
    have "\<forall>f \<in> set frames. fp_size f \<le> capacity"
      using frames by blast
    with refs show ?thesis
      using send_refs_delivered [OF _ refs(3) _ refs(4) t(1-3) refs(1) t(5) u] st by auto
  next
    case none
    have "taken p p1 []" "pool_ok v p1"
      using stage_batch_held [of _ frames t p "[]" t1 p1 v] st none(2,3) t by simp_all
    then have "po_tokens p1 = po_tokens p"
      by (intro nth_equalityI) (simp_all add: taken_def)
    then show ?thesis
      using inline_delivered [OF none(4) limit _ _ _ u(1,2,4), of capacity p1] frames fs none(5) by auto
  qed (rule inline)
qed

text \<open>Two 17-byte frames through a pool of four free slots.\<close>

definition sample_frames :: "frame_parts list" where
  "sample_frames = [\<lparr>fp_first = 1 # replicate 15 0, fp_second = [7]\<rparr>, \<lparr>fp_first = 1 # replicate 15 0, fp_second = [9]\<rparr>]"

definition sample_transport :: transport where
  "sample_transport = transport_configure sample_parameters 1 1 transport_init"

definition sample_pool :: pool where
  "sample_pool = \<lparr>po_tokens = replicate 4 0, po_data = replicate 4 []\<rparr>"

theorem transport_delivery_witness:
  "\<exists>t' p' rec u' q. send_batch sample_frames (Sent 56) sample_transport sample_pool = (Inr 2, t', p', [rec]) \<and>
     receive_times [Received rec 0 True False, Recv_errno 0] 2048 sample_transport p' =
       (map (\<lambda>f. Inr (fp_size f, fp_content f)) sample_frames, u', q)"
proof -
  have "case send_batch sample_frames (Sent 56) sample_transport sample_pool of (res, t', p', out) \<Rightarrow> res = Inr 2 \<and> length out = 1"
    by code_simp
  then obtain t' p' rec where send: "send_batch sample_frames (Sent 56) sample_transport sample_pool = (Inr 2, t', p', [rec])"
    by (auto split: prod.splits simp: length_Suc_conv)
  have "\<exists>u' q. receive_times (Received rec 0 True False # replicate (2 - 1) (Recv_errno 0)) 2048 sample_transport p' =
      (map (\<lambda>f. Inr (fp_size f, fp_content f)) (take 2 sample_frames), u', q) \<and> \<not> receive_pending u' \<and>
    (\<forall>i < unat (pa_slots sample_parameters). po_tokens sample_pool ! i AND 1 = 0 \<longrightarrow> po_tokens q ! i AND 1 = 0)"
    using send
    by (rule transport_delivery)
      (simp_all add: pool_ok_def sample_transport_def transport_configure_def transport_reset_def sample_parameters_def
        sample_pool_def sample_frames_def negotiated_def ipc_constants fp_size_def switch_protocol_version_def receive_pending_def)
  then show ?thesis
    using send by (auto simp: sample_frames_def simp del: receive_times.simps)
qed

end
