(* ===== verification/Switch_Handshake.thy ===== *)
theory Switch_Handshake
  imports Transport
begin

text \<open>
  The registration of a port on both ends: \<open>src/ipc/switch_handshake.hpp\<close> on the switch,
  \<open>src/switch_client.hpp\<close> in the client. A step does at most one socket operation; its
  result, like the result of creating or attaching the shared pools, is an argument, and
  the record a step sends is returned.
\<close>

subsection \<open>The server\<close>

datatype server_phase =
  Sv_first | Sv_welcome | Sv_registration | Sv_identified | Sv_setup | Sv_ready | Sv_activate | Sv_failed

record server_handshake =
  hs_state :: server_phase
  hs_parameters :: ipc_parameters
  hs_id :: string
  hs_legacy :: bool
  hs_transport :: "transport option"

definition server_init :: server_handshake where
  "server_init = \<lparr>hs_state = Sv_first, hs_parameters = parameters_init, hs_id = [], hs_legacy = False, hs_transport = None\<rparr>"

text \<open>A socket operation: one send or one receive.\<close>

datatype io = Io_send send_result | Io_recv recv_result

text \<open>The negotiation of the parameters after an accepted hello.\<close>

definition negotiate :: "bool \<Rightarrow> ipc_options \<Rightarrow> ipc_parameters \<Rightarrow> ipc_parameters" where
  "negotiate abi opts v =
     (let v = v\<lparr>pa_frame_limit := min (pa_frame_limit v) (op_frame_limit opts), pa_caps := pa_caps v AND known_caps\<rparr>;
          v = (if op_mode opts \<noteq> Mode_automatic \<or> \<not> abi \<or> pa_abi v \<noteq> pool_abi then inline_only v else v)
      in if pa_caps v AND mmap_ref \<noteq> 0 then
           v\<lparr>pa_slots := min (pa_slots v) (min (op_slots opts) max_slots),
             pa_capacity := min (pa_frame_limit v) (op_frame_capacity opts),
             pa_batch := (if pa_caps v AND mmap_batch \<noteq> 0 then min (pa_batch v) (op_batch opts) else 1)\<rparr>
         else inline_only v)"

definition server_send :: "send_result \<Rightarrow> server_handshake \<Rightarrow> server_handshake \<times> bytes list" where
  "server_send result hs =
     (let setup_state = (hs_state hs = Sv_setup);
          rec = (if setup_state then setup_record (hs_parameters hs) else welcome_record (hs_parameters hs)) in
      if result = Sent (length rec) then (hs\<lparr>hs_state := if setup_state then Sv_ready else Sv_registration\<rparr>, [rec])
      else case result of
          Sent _ \<Rightarrow> (hs\<lparr>hs_state := Sv_failed\<rparr>, [])
        | Send_errno e \<Rightarrow> (if retry_errno e then hs else hs\<lparr>hs_state := Sv_failed\<rparr>, []))"

definition server_receive :: "bool \<Rightarrow> ipc_options \<Rightarrow> bytes \<Rightarrow> u64 \<Rightarrow> server_handshake \<Rightarrow> server_handshake \<times> u64" where
  "server_receive abi opts data epoch hs =
     (if hs_state hs = Sv_first \<and> take 3 data = bytes_of_string ''TTX'' then
        (if op_mode opts = Mode_legacy then (hs\<lparr>hs_state := Sv_failed\<rparr>, epoch)
         else case decode_hello data (hs_parameters hs) of
           None \<Rightarrow> (hs\<lparr>hs_state := Sv_failed\<rparr>, epoch)
         | Some v \<Rightarrow>
             if epoch = 0xffffffffffffffff then (hs\<lparr>hs_state := Sv_failed\<rparr>, epoch)
             else (hs\<lparr>hs_parameters := negotiate abi opts (v\<lparr>pa_epoch := epoch + 1\<rparr>), hs_state := Sv_welcome\<rparr>, epoch + 1))
      else if hs_state hs = Sv_first \<or> hs_state hs = Sv_registration then
        (case decode_switch_registration data of
           None \<Rightarrow> (hs\<lparr>hs_state := Sv_failed\<rparr>, epoch)
         | Some port \<Rightarrow> (hs\<lparr>hs_id := port, hs_legacy := (hs_state hs = Sv_first), hs_state := Sv_identified\<rparr>, epoch))
      else
        (case decode_state data Type_ready (hs_parameters hs) of
           None \<Rightarrow> (hs\<lparr>hs_state := Sv_failed\<rparr>, epoch)
         | Some (caps, status) \<Rightarrow>
             if status > 1 \<or> status = 1 \<and> caps \<noteq> 0 \<or> status = 0 \<and> caps \<noteq> pa_caps (hs_parameters hs)
             then (hs\<lparr>hs_state := Sv_failed\<rparr>, epoch)
             else if caps = 0 then
               (hs\<lparr>hs_transport := map_option disable_mmap (hs_transport hs), hs_parameters := inline_only (hs_parameters hs),
                   hs_state := Sv_activate\<rparr>, epoch)
             else (hs\<lparr>hs_state := Sv_activate\<rparr>, epoch)))"

definition server_step :: "bool \<Rightarrow> ipc_options \<Rightarrow> io \<Rightarrow> u64 \<Rightarrow> server_handshake \<Rightarrow> server_handshake \<times> u64 \<times> bytes list" where
  "server_step abi opts op epoch hs =
     (if hs_state hs = Sv_welcome \<or> hs_state hs = Sv_setup then
        (case op of
           Io_send result \<Rightarrow> (case server_send result hs of (hs, out) \<Rightarrow> (hs, epoch, out))
         | Io_recv _ \<Rightarrow> (hs, epoch, []))
      else if hs_state hs \<noteq> Sv_first \<and> hs_state hs \<noteq> Sv_registration \<and> hs_state hs \<noteq> Sv_ready then (hs, epoch, [])
      else case op of
          Io_send _ \<Rightarrow> (hs, epoch, [])
        | Io_recv (Recv_errno e) \<Rightarrow> (if retry_errno e then hs else hs\<lparr>hs_state := Sv_failed\<rparr>, epoch, [])
        | Io_recv (Received data files valid trunc) \<Rightarrow>
            if data = [] \<or> \<not> valid \<or> files \<noteq> 0 \<or> trunc then (hs\<lparr>hs_state := Sv_failed\<rparr>, epoch, [])
            else (case server_receive abi opts data epoch hs of (hs, epoch) \<Rightarrow> (hs, epoch, [])))"

text \<open>Both pools, of identifiers 1 (input) and 2 (output), are created, or the port stays inline.\<close>

definition server_prepare :: "bool \<Rightarrow> u64 \<Rightarrow> server_handshake \<Rightarrow> server_handshake" where
  "server_prepare created available hs =
     (if hs_legacy hs then hs\<lparr>hs_transport := Some transport_init, hs_state := Sv_activate\<rparr>
      else
        let v = hs_parameters hs;
            v = (if pa_caps v AND mmap_ref \<noteq> 0 then
                   let v = v\<lparr>pa_stride := (64 + ucast (pa_capacity v) + 63) AND NOT 63\<rparr>;
                       v = v\<lparr>pa_mapping_size := 4096 + ucast (pa_slots v) * pa_stride v\<rparr>
                   in if pa_mapping_size v > available div 2 then inline_only v else v
                 else v)
        in if pa_caps v \<noteq> 0 then
             (if validate_geometry v \<and> created then
                hs\<lparr>hs_parameters := v, hs_transport := Some (transport_configure v 1 2 transport_init), hs_state := Sv_setup\<rparr>
              else hs\<lparr>hs_parameters := inline_only v, hs_transport := Some (transport_configure (inline_only v) 0 0 transport_init),
                hs_state := Sv_setup\<rparr>)
           else hs\<lparr>hs_parameters := v, hs_transport := Some (transport_configure v 0 0 transport_init), hs_state := Sv_setup\<rparr>)"

subsection \<open>The client\<close>

abbreviation EBADF :: int where "EBADF \<equiv> 9"
abbreviation EPROTONOSUPPORT :: int where "EPROTONOSUPPORT \<equiv> 93"
abbreviation ECONNRESET :: int where "ECONNRESET \<equiv> 104"
abbreviation ETIMEDOUT :: int where "ETIMEDOUT \<equiv> 110"

datatype client_phase =
  Cl_disconnected | Cl_connecting | Cl_hello | Cl_welcome | Cl_registration | Cl_setup | Cl_ready | Cl_active | Cl_connected

record switch_client =
  cl_open :: bool
  cl_last_error :: int
  cl_state :: client_phase
  cl_connect_deadline :: time
  cl_probe_deadline :: time
  cl_registration :: bytes
  cl_options :: ipc_options
  cl_offered :: ipc_parameters
  cl_transport :: transport
  cl_legacy_attempt :: bool
  cl_map_declined :: bool
  cl_fallbacks :: u64

definition SwitchClient :: "nat \<Rightarrow> string \<Rightarrow> ipc_options \<Rightarrow> switch_client result" where
  "SwitchClient path_size port_id opts =
     (case encode_switch_registration port_id of
        Inl e \<Rightarrow> Inl e
      | Inr reg \<Rightarrow>
          if path_size \<ge> 108 then Inl (Runtime_error ''Switch socket path is too long'')
          else if \<not> valid_frame_limit (op_frame_limit opts) \<or> op_slots opts = 0 \<or> op_slots opts > max_slots \<or>
                  op_batch opts = 0 \<or> op_batch opts > max_batch
          then Inl (Runtime_error ''Invalid switch IPC limits'')
          else Inr \<lparr>cl_open = False, cl_last_error = 0, cl_state = Cl_disconnected, cl_connect_deadline = 0, cl_probe_deadline = 0,
                 cl_registration = reg, cl_options = opts, cl_offered = parameters_init, cl_transport = transport_init,
                 cl_legacy_attempt = False, cl_map_declined = False, cl_fallbacks = 0\<rparr>)"

definition cl_connecting :: "switch_client \<Rightarrow> bool" where
  "cl_connecting c \<longleftrightarrow> cl_state c \<noteq> Cl_disconnected \<and> cl_state c \<noteq> Cl_connected"

definition client_disconnect :: "switch_client \<Rightarrow> switch_client" where
  "client_disconnect c = c\<lparr>cl_open := False, cl_state := Cl_disconnected, cl_transport := transport_reset (cl_transport c)\<rparr>"

definition client_fail :: "int \<Rightarrow> switch_client \<Rightarrow> switch_client" where
  "client_fail e c = client_disconnect (c\<lparr>cl_last_error := e\<rparr>)"

definition write_setup :: "bool \<Rightarrow> send_result \<Rightarrow> switch_client \<Rightarrow> switch_client \<times> bytes list" where
  "write_setup abi result c =
     (let opts = cl_options c;
          request = (if op_mode opts = Mode_automatic \<and> \<not> abi then opts\<lparr>op_mode := Mode_inline_only\<rparr> else opts);
          plan = (if cl_state c = Cl_registration
                  then Some (cl_registration c, if cl_legacy_attempt c then Cl_connected else Cl_setup)
                  else if cl_state c = Cl_hello then Some (hello_record request, Cl_welcome)
                  else if cl_state c = Cl_ready
                  then Some (state_record Type_ready (tr_parameters (cl_transport c)) (if cl_map_declined c then 1 else 0), Cl_active)
                  else None)
      in case plan of
          None \<Rightarrow> (c, [])
        | Some (data, after) \<Rightarrow>
            if result = Sent (length data) then (c\<lparr>cl_state := after\<rparr>, [data])
            else case result of
                Sent _ \<Rightarrow> (client_fail EIO c, [])
              | Send_errno e \<Rightarrow> (if retry_errno e then c else client_fail e c, []))"

text \<open>The outcome of opening a socket and connecting it.\<close>

datatype connect_result = Socket_errno int | Connect_done | Connect_in_progress | Connect_errno int

definition open_socket :: "bool \<Rightarrow> connect_result \<Rightarrow> send_result \<Rightarrow> switch_client \<Rightarrow> switch_client \<times> bytes list" where
  "open_socket abi conn result c =
     (case conn of
        Socket_errno e \<Rightarrow> (c\<lparr>cl_open := False, cl_last_error := e\<rparr>, [])
      | Connect_in_progress \<Rightarrow> (c\<lparr>cl_open := True, cl_state := Cl_connecting\<rparr>, [])
      | Connect_errno e \<Rightarrow> (client_fail e (c\<lparr>cl_open := True\<rparr>), [])
      | Connect_done \<Rightarrow>
          write_setup abi result (c\<lparr>cl_open := True, cl_state := if cl_legacy_attempt c then Cl_registration else Cl_hello\<rparr>))"

definition start_connect :: "bool \<Rightarrow> time \<Rightarrow> connect_result \<Rightarrow> send_result \<Rightarrow> switch_client \<Rightarrow> switch_client \<times> bytes list" where
  "start_connect abi now conn result c =
     open_socket abi conn result ((client_disconnect c)\<lparr>cl_last_error := 0, cl_connect_deadline := now + seconds 5,
       cl_probe_deadline := now + seconds 1, cl_legacy_attempt := (op_mode (cl_options c) = Mode_legacy)\<rparr>)"

definition fallback :: "bool \<Rightarrow> time \<Rightarrow> connect_result \<Rightarrow> send_result \<Rightarrow> switch_client \<Rightarrow> switch_client \<times> bytes list" where
  "fallback abi now conn result c =
     (if op_mode (cl_options c) \<noteq> Mode_automatic \<or> cl_legacy_attempt c \<or> now \<ge> cl_connect_deadline c
      then (client_fail EPROTONOSUPPORT c, [])
      else open_socket abi conn result
             ((client_disconnect c)\<lparr>cl_legacy_attempt := True, cl_fallbacks := cl_fallbacks c + 1\<rparr>))"

text \<open>
  What became of the two pool descriptors: equal or unreadable files and invalid pools are
  protocol errors, a mapping that fails for lack of resources is not.
\<close>

datatype map_result = Map_attached | Map_invalid | Map_unavailable

definition read_welcome ::
  "bool \<Rightarrow> time \<Rightarrow> connect_result \<Rightarrow> send_result \<Rightarrow> bytes \<Rightarrow> switch_client \<Rightarrow> switch_client \<times> bytes list" where
  "read_welcome abi now conn result data c =
     (if is_header data Type_error 16 \<and> load_be32 (drop 8 data) = 1 \<and> load_be32 (drop 12 data) = 0 then fallback abi now conn result c
      else case decode_welcome data parameters_init of
          None \<Rightarrow> (client_fail EPROTO c, [])
        | Some offered \<Rightarrow>
            if pa_frame_limit offered > op_frame_limit (cl_options c) \<or> pa_slots offered > op_slots (cl_options c) \<or>
               pa_batch offered > op_batch (cl_options c) \<or>
               (op_mode (cl_options c) = Mode_inline_only \<or> \<not> abi) \<and> pa_caps offered \<noteq> 0
            then (client_fail EPROTO c, [])
            else (c\<lparr>cl_offered := offered, cl_state := Cl_registration\<rparr>, []))"

definition read_selected :: "map_result \<Rightarrow> bytes \<Rightarrow> nat \<Rightarrow> switch_client \<Rightarrow> switch_client" where
  "read_selected attach data files c =
     (case decode_setup data (cl_offered c) of
        None \<Rightarrow> client_fail EPROTO c
      | Some selected \<Rightarrow>
          if files \<noteq> (if pa_caps selected \<noteq> 0 then 2 else 0) then client_fail EPROTO c
          else let c = c\<lparr>cl_map_declined := False\<rparr> in
            if pa_caps selected \<noteq> 0 then
              (case attach of
                 Map_invalid \<Rightarrow> client_fail EPROTO c
               | Map_attached \<Rightarrow>
                   c\<lparr>cl_transport := transport_configure selected 2 1 (cl_transport c), cl_state := Cl_ready\<rparr>
               | Map_unavailable \<Rightarrow>
                   c\<lparr>cl_transport := transport_configure (inline_only selected) 0 0 (cl_transport c), cl_map_declined := True,
                     cl_state := Cl_ready\<rparr>)
            else c\<lparr>cl_transport := transport_configure selected 0 0 (cl_transport c), cl_state := Cl_ready\<rparr>)"

definition read_setup ::
  "bool \<Rightarrow> time \<Rightarrow> connect_result \<Rightarrow> send_result \<Rightarrow> map_result \<Rightarrow> recv_result \<Rightarrow> switch_client \<Rightarrow> switch_client \<times> bytes list" where
  "read_setup abi now conn result attach incoming c =
     (case incoming of
        Recv_errno e \<Rightarrow> (if retry_errno e then c else client_fail e c, [])
      | Received data files valid trunc \<Rightarrow>
          if cl_state c = Cl_welcome \<and> data = [] \<and> files = 0 \<and> valid then fallback abi now conn result c
          else if data = [] \<or> \<not> valid \<or> trunc then (client_fail EPROTO c, [])
          else if cl_state c \<noteq> Cl_setup \<and> files \<noteq> 0 then (client_fail EPROTO c, [])
          else if cl_state c = Cl_welcome then read_welcome abi now conn result data c
          else if cl_state c = Cl_setup then (read_selected attach data files c, [])
          else case decode_state data Type_active (tr_parameters (cl_transport c)) of
              None \<Rightarrow> (client_fail EPROTO c, [])
            | Some (caps, status) \<Rightarrow>
                if status \<noteq> 0 \<or> caps \<noteq> pa_caps (tr_parameters (cl_transport c)) then (client_fail EPROTO c, [])
                else (c\<lparr>cl_state := Cl_connected\<rparr>, []))"

text \<open>Poll events, and what the one operation a client step may do returns.\<close>

record poll_events =
  ev_in :: bool
  ev_out :: bool
  ev_err :: bool
  ev_hup :: bool
  ev_nval :: bool

record client_io =
  io_so_error :: "int + int"
  io_connect :: connect_result
  io_send :: send_result
  io_recv :: recv_result
  io_map :: map_result

definition advance_setup :: "bool \<Rightarrow> time \<Rightarrow> poll_events \<Rightarrow> client_io \<Rightarrow> switch_client \<Rightarrow> switch_client \<times> bytes list" where
  "advance_setup abi now ev op c =
     (if cl_state c = Cl_welcome \<or> cl_state c = Cl_setup \<or> cl_state c = Cl_active then
        (if ev_in ev \<or> ev_err ev \<or> ev_hup ev then read_setup abi now (io_connect op) (io_send op) (io_map op) (io_recv op) c else (c, []))
      else if ev_err ev \<or> ev_hup ev then (client_fail ECONNRESET c, [])
      else if ev_out ev then write_setup abi (io_send op) c
      else (c, []))"

definition advance_connect :: "bool \<Rightarrow> time \<Rightarrow> poll_events \<Rightarrow> client_io \<Rightarrow> switch_client \<Rightarrow> switch_client \<times> bytes list" where
  "advance_connect abi now ev op c =
     (if \<not> cl_connecting c then (c, [])
      else if now \<ge> cl_connect_deadline c then (client_fail ETIMEDOUT c, [])
      else if \<not> cl_legacy_attempt c \<and> (cl_state c = Cl_hello \<or> cl_state c = Cl_welcome) \<and> now \<ge> cl_probe_deadline c
      then fallback abi now (io_connect op) (io_send op) c
      else if ev_nval ev then (client_fail EBADF c, [])
      else if cl_state c = Cl_connecting then
        (if \<not> (ev_out ev \<or> ev_err ev \<or> ev_hup ev) then (c, [])
         else case io_so_error op of
             Inl e \<Rightarrow> (if e \<noteq> EINTR then client_fail e c else c, [])
           | Inr e \<Rightarrow>
               if e \<noteq> 0 \<or> ev_err ev \<or> ev_hup ev then (client_fail (if e \<noteq> 0 then e else ECONNRESET) c, [])
               else advance_setup abi now ev op (c\<lparr>cl_state := if cl_legacy_attempt c then Cl_registration else Cl_hello\<rparr>))
      else advance_setup abi now ev op c)"

definition client_poll_timeout :: "switch_client \<Rightarrow> time \<Rightarrow> int \<Rightarrow> int" where
  "client_poll_timeout c now maximum =
     (if cl_state c = Cl_connected \<and> receive_pending (cl_transport c) then 0
      else if \<not> cl_connecting c then rq_timeout (tr_retry (cl_transport c)) now maximum
      else let deadline = (if cl_state c = Cl_hello \<or> cl_state c = Cl_welcome
                 then min (cl_connect_deadline c) (cl_probe_deadline c) else cl_connect_deadline c)
           in if now \<ge> deadline then 0 else min maximum (ceil_ms (deadline - now)))"

subsection \<open>Registering a port\<close>

definition valid_options :: "ipc_options \<Rightarrow> bool" where
  "valid_options opts \<longleftrightarrow> valid_frame_limit (op_frame_limit opts) \<and> op_slots opts \<noteq> 0 \<and> op_batch opts \<noteq> 0 \<and> op_batch opts \<le> max_batch"

text \<open>The parameters a server offers: inline, or a complete shared-memory geometry.\<close>

definition offer_inline :: "ipc_parameters \<Rightarrow> bool" where
  "offer_inline v \<longleftrightarrow> pa_caps v = 0 \<and> pa_abi v = 0 \<and> pa_slots v = 0 \<and> pa_capacity v = 0 \<and> pa_stride v = 0 \<and> pa_mapping_size v = 0 \<and> pa_batch v = 1"

definition offer_mapped :: "ipc_parameters \<Rightarrow> bool" where
  "offer_mapped v \<longleftrightarrow> pa_caps v = 3 \<and> pa_abi v = pool_abi \<and> pa_slots v \<noteq> 0 \<and> pa_slots v \<le> max_slots \<and> pa_batch v \<noteq> 0 \<and>
     pa_batch v \<le> max_batch \<and> valid_frame_limit (pa_capacity v) \<and> pa_capacity v \<le> pa_frame_limit v"

definition offer_ok :: "ipc_parameters \<Rightarrow> bool" where
  "offer_ok v \<longleftrightarrow> pa_epoch v \<noteq> 0 \<and> valid_frame_limit (pa_frame_limit v) \<and> (offer_inline v \<or> offer_mapped v)"

lemma offer_inline_only [simp]: "offer_inline (inline_only v)"
  by (simp add: offer_inline_def inline_only_def)

lemma inline_only_sel [simp]:
  "pa_epoch (inline_only v) = pa_epoch v" "pa_frame_limit (inline_only v) = pa_frame_limit v" "pa_caps (inline_only v) = 0"
  "pa_slots (inline_only v) = 0" "pa_batch (inline_only v) = 1" "inline_only (inline_only v) = inline_only v"
  by (simp_all add: inline_only_def)

lemma caps_bits [simp]: "(3 :: u32) AND mmap_ref = 1" "(3 :: u32) AND mmap_batch = 2" "(3 :: u32) AND known_caps = 3" "(0 :: u32) AND x = 0"
  "valid_caps 0" "valid_caps 3" "known_caps = 3"
  by (simp_all add: ipc_constants valid_caps_def)

lemma min_limits:
  fixes a b :: u32
  shows "valid_frame_limit a \<Longrightarrow> valid_frame_limit b \<Longrightarrow> valid_frame_limit (min a b)"
    and "a \<noteq> 0 \<Longrightarrow> b \<noteq> 0 \<Longrightarrow> min a b \<noteq> 0"
  by (auto simp: valid_frame_limit_def min_def)

text \<open>The negotiated offer is acceptable to the client that asked for it.\<close>

lemma negotiate_inline:
  assumes "pa_caps w = 0 \<or> op_mode opts \<noteq> Mode_automatic \<or> \<not> abi \<or> pa_abi w \<noteq> pool_abi"
  shows "negotiate abi opts w = inline_only (w\<lparr>pa_frame_limit := min (pa_frame_limit w) (op_frame_limit opts)\<rparr>)"
  using assms by (cases w) (auto simp: negotiate_def Let_def inline_only_def)

lemma negotiate_mapped:
  assumes "pa_caps w = 3" "op_mode opts = Mode_automatic" "abi" "pa_abi w = pool_abi"
  shows "negotiate abi opts w = w\<lparr>pa_frame_limit := min (pa_frame_limit w) (op_frame_limit opts),
    pa_slots := min (pa_slots w) (min (op_slots opts) max_slots),
    pa_capacity := min (min (pa_frame_limit w) (op_frame_limit opts)) (op_frame_capacity opts),
    pa_batch := min (pa_batch w) (op_batch opts)\<rparr>"
  using assms by (cases w) (simp add: negotiate_def Let_def)

lemma hello_negotiated:
  assumes c: "valid_options copts" and s: "valid_options sopts" "valid_frame_limit (op_frame_capacity sopts)" and e: "e \<noteq> 0"
  shows "\<exists>w. decode_hello (hello_record copts) parameters_init = Some w \<and>
    (let v = negotiate abi sopts (w\<lparr>pa_epoch := e\<rparr>) in
      offer_ok v \<and> pa_epoch v = e \<and> pa_frame_limit v \<le> op_frame_limit copts \<and> pa_slots v \<le> op_slots copts \<and>
      pa_batch v \<le> op_batch copts \<and> (op_mode copts \<noteq> Mode_automatic \<longrightarrow> pa_caps v = 0))"
proof -
  have limits: "valid_frame_limit (min (op_frame_limit copts) (op_frame_limit sopts))" "1 \<le> op_batch copts"
    using c s min_limits(1) by (auto simp: valid_options_def word_le_nat_alt Suc_le_eq unat_gt_0)
  show ?thesis
  proof (cases "op_mode copts = Mode_automatic \<and> op_mode sopts = Mode_automatic \<and> abi")
    case True
    define w where "w = parameters_init\<lparr>pa_caps := known_caps, pa_abi := pool_abi, pa_slots := op_slots copts,
      pa_frame_limit := op_frame_limit copts, pa_batch := op_batch copts\<rparr>"
    have "decode_hello (hello_record copts) parameters_init = Some w"
      using c True decode_hello_hello [of copts parameters_init] by (simp add: valid_options_def w_def)
    moreover have "negotiate abi sopts (w\<lparr>pa_epoch := e\<rparr>) = w\<lparr>pa_epoch := e, pa_frame_limit := min (op_frame_limit copts) (op_frame_limit sopts),
        pa_slots := min (op_slots copts) (min (op_slots sopts) max_slots),
        pa_capacity := min (min (op_frame_limit copts) (op_frame_limit sopts)) (op_frame_capacity sopts),
        pa_batch := min (op_batch copts) (op_batch sopts)\<rparr>"
      using True by (simp add: negotiate_mapped w_def)
    moreover have "min (op_slots copts) (min (op_slots sopts) max_slots) \<noteq> 0" "min (op_batch copts) (op_batch sopts) \<noteq> 0"
      "min (op_batch copts) (op_batch sopts) \<le> max_batch"
      using c s(1) by (auto simp: valid_options_def min_def max_slots_def)
    moreover have "min (min (op_frame_limit copts) (op_frame_limit sopts)) (op_frame_capacity sopts) \<le> op_frame_limit copts"
      "min (min (op_frame_limit copts) (op_frame_limit sopts)) (op_frame_capacity sopts) \<le> op_frame_limit sopts"
      by (simp_all add: min.coboundedI1)
    ultimately show ?thesis
      using True e limits s(2) min_limits(1)
      by (simp add: Let_def offer_ok_def offer_mapped_def w_def min.coboundedI2)
  next
    case False
    obtain w where w: "decode_hello (hello_record copts) parameters_init = Some w" "pa_frame_limit w = op_frame_limit copts"
      "pa_caps w = 0 \<or> op_mode copts = Mode_automatic"
      using c decode_hello_hello [of copts parameters_init] by (auto simp: valid_options_def)
    have "negotiate abi sopts (w\<lparr>pa_epoch := e\<rparr>) =
        inline_only (w\<lparr>pa_epoch := e, pa_frame_limit := min (op_frame_limit copts) (op_frame_limit sopts)\<rparr>)"
      using False w(2,3) by (subst negotiate_inline) auto
    with w(1) show ?thesis
      using e limits by (simp add: Let_def offer_ok_def)
  qed
qed

text \<open>One registration over a socket that loses nothing, step by step.\<close>

definition register_port ::
  "bool \<Rightarrow> bool \<Rightarrow> ipc_options \<Rightarrow> u64 \<Rightarrow> bool \<Rightarrow> u64 \<Rightarrow> map_result \<Rightarrow> time \<Rightarrow> switch_client \<Rightarrow> switch_client \<times> server_handshake" where
  "register_port abi_c abi_s sopts epoch created available attach now c =
     (let (c, m1) = start_connect abi_c now Connect_done (Sent 32) c;
          (s, epoch, _) = server_step abi_s sopts (Io_recv (Received (hd m1) 0 True False)) epoch server_init;
          (s, epoch, m2) = server_step abi_s sopts (Io_send (Sent 40)) epoch s;
          (c, _) = read_setup abi_c now Connect_done (Sent 0) attach (Received (hd m2) 0 True False) c;
          (c, m3) = write_setup abi_c (Sent (length (cl_registration c))) c;
          (s, epoch, _) = server_step abi_s sopts (Io_recv (Received (hd m3) 0 True False)) epoch s;
          s = server_prepare created available s;
          (s, epoch, m4) = server_step abi_s sopts (Io_send (Sent 56)) epoch s;
          (c, _) = read_setup abi_c now Connect_done (Sent 0) attach
            (Received (hd m4) (if pa_caps (hs_parameters s) \<noteq> 0 then 2 else 0) True False) c;
          (c, m5) = write_setup abi_c (Sent 24) c;
          (s, epoch, _) = server_step abi_s sopts (Io_recv (Received (hd m5) 0 True False)) epoch s;
          (c, _) = read_setup abi_c now Connect_done (Sent 0) attach (Received (state_record Type_active (hs_parameters s) 0) 0 True False) c
      in (c, s))"

lemma record_lengths [simp]:
  "length (hello_record opts) = 32" "length (welcome_record v) = 40" "length (setup_record v) = 56" "length (state_record ty v st) = 24"
  by (simp_all add: hello_record_def welcome_record_def setup_record_def state_record_def Let_def)

lemma record_nonempty [simp]:
  "hello_record opts \<noteq> []" "welcome_record v \<noteq> []" "setup_record v \<noteq> []" "state_record ty v st \<noteq> []"
  by (metis length_0_conv record_lengths zero_neq_numeral)+

lemma hello_magic: "take 3 (hello_record opts) = bytes_of_string ''TTX''"
  by (simp add: hello_record_def ipc_header_def Let_def)

lemma server_hello:
  assumes "decode_hello (hello_record copts) parameters_init = Some w" "op_mode sopts \<noteq> Mode_legacy" "epoch \<noteq> 0xffffffffffffffff"
  shows "server_step abi sopts (Io_recv (Received (hello_record copts) 0 True False)) epoch server_init =
    (server_init\<lparr>hs_parameters := negotiate abi sopts (w\<lparr>pa_epoch := epoch + 1\<rparr>), hs_state := Sv_welcome\<rparr>, epoch + 1, [])"
  using assms by (simp add: server_step_def server_receive_def server_init_def hello_magic)

definition offered_of :: "ipc_parameters \<Rightarrow> ipc_parameters" where
  "offered_of v = parameters_init\<lparr>pa_epoch := pa_epoch v, pa_caps := pa_caps v, pa_abi := pa_abi v, pa_slots := pa_slots v,
     pa_frame_limit := pa_frame_limit v, pa_batch := pa_batch v\<rparr>"

lemma client_welcome:
  assumes "cl_state c = Cl_welcome" "offer_ok v" "pa_frame_limit v \<le> op_frame_limit (cl_options c)" "pa_slots v \<le> op_slots (cl_options c)"
    and "pa_batch v \<le> op_batch (cl_options c)" "op_mode (cl_options c) = Mode_inline_only \<or> \<not> abi \<Longrightarrow> pa_caps v = 0"
  shows "read_setup abi now conn res attach (Received (welcome_record v) 0 True False) c =
    (c\<lparr>cl_offered := offered_of v, cl_state := Cl_registration\<rparr>, [])"
proof -
  have "decode_welcome (welcome_record v) parameters_init = Some (offered_of v)"
    unfolding offered_of_def using assms(2)
    by (intro decode_welcome_welcome) (auto simp: offer_ok_def offer_inline_def offer_mapped_def)
  moreover have "\<not> is_header (welcome_record v) Type_error 16"
    by (simp add: is_header_def)
  ultimately show ?thesis
    using assms by (auto simp: read_setup_def read_welcome_def offered_of_def)
qed

text \<open>What preparation leaves: the offer as it was, completed with the pool's geometry, or inline.\<close>

definition prepared :: "ipc_parameters \<Rightarrow> ipc_parameters \<Rightarrow> bool" where
  "prepared v v' \<longleftrightarrow> v' = inline_only v \<or>
     offer_mapped v \<and> v' = v\<lparr>pa_stride := pool_stride (pa_capacity v), pa_mapping_size := 4096 + ucast (pa_slots v) * pool_stride (pa_capacity v)\<rparr>"

lemma inline_only_geometry [simp]: "inline_only (v\<lparr>pa_stride := a, pa_mapping_size := b\<rparr>) = inline_only v"
  by (simp add: inline_only_def)

lemma offer_inline_eq: "offer_inline v \<Longrightarrow> inline_only v = v"
  by (cases v) (simp add: offer_inline_def inline_only_def)

lemma server_prepared:
  assumes "offer_ok (hs_parameters hs)" "\<not> hs_legacy hs"
  shows "\<exists>v' i j. server_prepare created available hs =
      hs\<lparr>hs_parameters := v', hs_transport := Some (transport_configure v' i j transport_init), hs_state := Sv_setup\<rparr> \<and>
    prepared (hs_parameters hs) v' \<and> (pa_caps v' \<noteq> 0 \<longrightarrow> i = 1 \<and> j = 2)"
proof (cases "offer_mapped (hs_parameters hs)")
  case True
  let ?v = "hs_parameters hs"
  let ?w = "?v\<lparr>pa_stride := pool_stride (pa_capacity ?v), pa_mapping_size := 4096 + ucast (pa_slots ?v) * pool_stride (pa_capacity ?v)\<rparr>"
  have prep: "server_prepare created available hs =
      (if pa_mapping_size ?w > available div 2 then
         hs\<lparr>hs_parameters := inline_only ?v, hs_transport := Some (transport_configure (inline_only ?v) 0 0 transport_init), hs_state := Sv_setup\<rparr>
       else if validate_geometry ?w \<and> created then
         hs\<lparr>hs_parameters := ?w, hs_transport := Some (transport_configure ?w 1 2 transport_init), hs_state := Sv_setup\<rparr>
       else hs\<lparr>hs_parameters := inline_only ?v, hs_transport := Some (transport_configure (inline_only ?v) 0 0 transport_init), hs_state := Sv_setup\<rparr>)"
    using True assms(2) by (simp add: server_prepare_def Let_def pool_stride_def offer_mapped_def)
  let ?goal = "\<lambda>s. \<exists>v' i j. s =
      hs\<lparr>hs_parameters := v', hs_transport := Some (transport_configure v' i j transport_init), hs_state := Sv_setup\<rparr> \<and>
    prepared (hs_parameters hs) v' \<and> (pa_caps v' \<noteq> 0 \<longrightarrow> i = 1 \<and> j = 2)"
  have "?goal (hs\<lparr>hs_parameters := inline_only ?v, hs_transport := Some (transport_configure (inline_only ?v) 0 0 transport_init), hs_state := Sv_setup\<rparr>)"
    by (intro exI [of _ "inline_only ?v"] exI [of _ 0]) (simp add: prepared_def)
  moreover have "?goal (hs\<lparr>hs_parameters := ?w, hs_transport := Some (transport_configure ?w 1 2 transport_init), hs_state := Sv_setup\<rparr>)"
    using True by (intro exI [of _ ?w] exI [of _ 1] exI [of _ 2]) (simp add: prepared_def)
  ultimately show ?thesis
    unfolding prep by (simp only: split: if_splits) simp
next
  case False
  then have inline: "offer_inline (hs_parameters hs)"
    using assms(1) by (simp add: offer_ok_def)
  then have "server_prepare created available hs =
      hs\<lparr>hs_transport := Some (transport_configure (hs_parameters hs) 0 0 transport_init), hs_state := Sv_setup\<rparr>"
    using assms(2) by (simp add: server_prepare_def Let_def offer_inline_def)
  then show ?thesis
    using offer_inline_eq [OF inline] inline
    by (intro exI [of _ "hs_parameters hs"] exI [of _ 0]) (simp add: prepared_def offer_inline_def)
qed

lemma decode_setup_prepared:
  assumes "offer_ok v" "prepared v v'"
  shows "decode_setup (setup_record v') (offered_of v) = Some v'"
proof -
  have "decode_setup (setup_record v') (offered_of v) = Some (v'\<lparr>pa_frame_limit := pa_frame_limit (offered_of v)\<rparr>)"
    using assms by (intro decode_setup_setup)
      (auto simp: prepared_def offered_of_def offer_ok_def offer_mapped_def offer_inline_def inline_only_def)
  also have "v'\<lparr>pa_frame_limit := pa_frame_limit (offered_of v)\<rparr> = v'"
    using assms(2) by (cases v) (auto simp: prepared_def offered_of_def inline_only_def)
  finally show ?thesis .
qed

text \<open>The parameters both ends settle on, given whether the client could map the pools.\<close>

definition settled :: "map_result \<Rightarrow> ipc_parameters \<Rightarrow> ipc_parameters" where
  "settled attach v' = (if attach = Map_attached then v' else inline_only v')"

lemma client_selected:
  assumes "cl_state c = Cl_setup" "cl_offered c = offered_of v" "offer_ok v" "prepared v v'" "attach \<noteq> Map_invalid"
  shows "\<exists>i j. read_setup abi now conn res attach (Received (setup_record v') (if pa_caps v' \<noteq> 0 then 2 else 0) True False) c =
    (c\<lparr>cl_map_declined := (pa_caps v' \<noteq> 0 \<and> attach \<noteq> Map_attached), cl_transport := transport_configure (settled attach v') i j (cl_transport c),
       cl_state := Cl_ready\<rparr>, []) \<and> (pa_caps (settled attach v') \<noteq> 0 \<longrightarrow> i = 2 \<and> j = 1)"
proof -
  have "inline_only v' = v'" if "pa_caps v' = 0"
    using assms(3,4) that offer_inline_eq [of v'] by (auto simp: prepared_def offer_mapped_def)
  moreover have "read_setup abi now conn res attach (Received (setup_record v') (if pa_caps v' \<noteq> 0 then 2 else 0) True False) c =
      (read_selected attach (setup_record v') (if pa_caps v' \<noteq> 0 then 2 else 0) c, [])"
    using assms(1) by (simp add: read_setup_def)
  moreover define i j :: u32 where "i = (if pa_caps (settled attach v') \<noteq> 0 then 2 else 0)" and "j = (if pa_caps (settled attach v') \<noteq> 0 then 1 else 0)"
  moreover have "read_selected attach (setup_record v') (if pa_caps v' \<noteq> 0 then 2 else 0) c =
      c\<lparr>cl_map_declined := (pa_caps v' \<noteq> 0 \<and> attach \<noteq> Map_attached), cl_transport := transport_configure (settled attach v') i j (cl_transport c),
       cl_state := Cl_ready\<rparr>"
    using assms(5) calculation(1) unfolding read_selected_def assms(2) decode_setup_prepared [OF assms(3,4)] i_def j_def
    by (cases attach; cases "pa_caps v' = 0") (simp_all add: settled_def)
  ultimately show ?thesis
    by (intro exI [of _ i] exI [of _ j]) simp
qed

lemma prepared_caps: "prepared v v' \<Longrightarrow> pa_caps v' = 0 \<or> pa_caps v' = 3" "prepared v v' \<Longrightarrow> pa_epoch v' = pa_epoch v"
  by (auto simp: prepared_def offer_mapped_def)

lemma settled_caps:
  assumes "prepared v v'"
  shows "pa_caps (settled attach v') = 0 \<or> pa_caps (settled attach v') = 3 \<and> pa_caps v' = 3" "pa_epoch (settled attach v') = pa_epoch v'"
  using prepared_caps(1) [OF assms] by (auto simp: settled_def)

lemma server_ready:
  assumes "hs_state s = Sv_ready" "hs_parameters s = v'" "prepared v v'" "hs_transport s = Some t" "tr_parameters t = v'"
    and status: "st = (if pa_caps v' \<noteq> 0 \<and> attach \<noteq> Map_attached then 1 else 0)"
  shows "\<exists>s'. server_step abi sopts (Io_recv (Received (state_record Type_ready (settled attach v') st) 0 True False)) epoch s = (s', epoch, []) \<and>
    hs_state s' = Sv_activate \<and> hs_id s' = hs_id s \<and> hs_parameters s' = settled attach v' \<and>
    (\<exists>t'. hs_transport s' = Some t' \<and> t' = t\<lparr>tr_parameters := settled attach v'\<rparr>)"
proof -
  have dec: "decode_state (state_record Type_ready (settled attach v') st) Type_ready v' = Some (pa_caps (settled attach v'), st)"
    using settled_caps [OF assms(3), of attach] by (intro decode_state_state) auto
  show ?thesis
  proof (cases "pa_caps (settled attach v') = 0")
    case True
    have inline: "inline_only v' = settled attach v'"
      using True assms(3) offer_inline_eq [of v'] by (auto simp: settled_def prepared_def offer_mapped_def)
    have "\<not> (st > 1 \<or> st = 1 \<and> pa_caps (settled attach v') \<noteq> 0 \<or> st = 0 \<and> pa_caps (settled attach v') \<noteq> pa_caps v')"
      using True status by (auto simp: settled_def split: if_splits)
    then show ?thesis
      unfolding server_step_def server_receive_def
      by (simp add: assms(1,2,4,5) dec True disable_mmap_def inline)
  next
    case False
    then have "attach = Map_attached" "st = 0"
      using status by (auto simp: settled_def split: if_splits)
    moreover have "t\<lparr>tr_parameters := v'\<rparr> = t"
      using assms(5) by (cases t) simp
    ultimately show ?thesis
      unfolding server_step_def server_receive_def
      using dec False by (simp add: assms(1,2,4) settled_def)
  qed
qed

lemma registered:
  assumes client: "SwitchClient n port copts = Inr c" "op_mode copts \<noteq> Mode_legacy"
    and server: "valid_options sopts" "valid_frame_limit (op_frame_capacity sopts)" "op_mode sopts \<noteq> Mode_legacy" "epoch \<noteq> 0xffffffffffffffff"
    and "attach \<noteq> Map_invalid"
  shows "\<exists>v t. (case register_port abi_c abi_s sopts epoch created available attach now c of (c', s') \<Rightarrow>
      cl_state c' = Cl_connected \<and> hs_state s' = Sv_activate \<and> hs_id s' = port \<and> hs_transport s' = Some t \<and>
      tr_parameters t = v \<and> tr_parameters (cl_transport c') = v \<and> tr_extended t \<and> tr_extended (cl_transport c') \<and>
      (pa_caps v \<noteq> 0 \<longrightarrow> tr_input_id t = 1 \<and> tr_output_id t = 2 \<and> tr_input_id (cl_transport c') = 2 \<and> tr_output_id (cl_transport c') = 1)) \<and>
    (\<exists>w w'. v = settled attach w' \<and> offer_ok w \<and> prepared w w' \<and> pa_epoch w = epoch + 1)"
proof -
  define request where "request = (if op_mode copts = Mode_automatic \<and> \<not> abi_c then copts\<lparr>op_mode := Mode_inline_only\<rparr> else copts)"
  have c: "cl_options c = copts" "cl_registration c = registration_bytes port" "valid_port port" "valid_options copts"
  proof -
    obtain reg where reg: "encode_switch_registration port = Inr reg"
      using client(1) by (cases "encode_switch_registration port") (simp_all add: SwitchClient_def)
    then show "cl_options c = copts" "cl_registration c = registration_bytes port" "valid_port port" "valid_options copts"
      using client(1) encode_switch_registration_valid [of port reg]
      by (auto simp: SwitchClient_def valid_options_def registration_bytes_def split: if_splits)
  qed
  have e: "epoch + 1 \<noteq> 0"
  proof
    assume "epoch + 1 = 0"
    then have "epoch = - 1"
      by (simp add: add_eq_0_iff2)
    then show False
      using server(4) by simp
  qed
  have "valid_options request"
    using c(4) by (simp add: request_def valid_options_def)
  from hello_negotiated [OF this server(1,2) e] obtain w where w: "decode_hello (hello_record request) parameters_init = Some w"
    and offer: "offer_ok (negotiate abi_s sopts (w\<lparr>pa_epoch := epoch + 1\<rparr>))" "pa_epoch (negotiate abi_s sopts (w\<lparr>pa_epoch := epoch + 1\<rparr>)) = epoch + 1"
      "pa_frame_limit (negotiate abi_s sopts (w\<lparr>pa_epoch := epoch + 1\<rparr>)) \<le> op_frame_limit request"
      "pa_slots (negotiate abi_s sopts (w\<lparr>pa_epoch := epoch + 1\<rparr>)) \<le> op_slots request"
      "pa_batch (negotiate abi_s sopts (w\<lparr>pa_epoch := epoch + 1\<rparr>)) \<le> op_batch request"
      "op_mode request \<noteq> Mode_automatic \<Longrightarrow> pa_caps (negotiate abi_s sopts (w\<lparr>pa_epoch := epoch + 1\<rparr>)) = 0"
    unfolding Let_def by blast
  define v where "v = negotiate abi_s sopts (w\<lparr>pa_epoch := epoch + 1\<rparr>)"
  define c1 where "c1 = (client_disconnect c)\<lparr>cl_last_error := 0, cl_connect_deadline := now + seconds 5,
    cl_probe_deadline := now + seconds 1, cl_legacy_attempt := False, cl_open := True, cl_state := Cl_welcome\<rparr>"
  have c1: "cl_state c1 = Cl_welcome" "cl_options c1 = copts" "cl_registration c1 = registration_bytes port" "\<not> cl_legacy_attempt c1"
    by (simp_all add: c1_def client_disconnect_def c)
  have s1: "start_connect abi_c now Connect_done (Sent 32) c = (c1, [hello_record request])"
    using client(2) by (simp add: start_connect_def open_socket_def write_setup_def Let_def c(1) c1_def client_disconnect_def request_def)
  have s2: "server_step abi_s sopts (Io_recv (Received (hello_record request) 0 True False)) epoch server_init =
      (server_init\<lparr>hs_parameters := v, hs_state := Sv_welcome\<rparr>, epoch + 1, [])"
    unfolding v_def by (rule server_hello [OF w server(3,4)])
  have s3: "server_step abi_s sopts (Io_send (Sent 40)) (epoch + 1) (server_init\<lparr>hs_parameters := v, hs_state := Sv_welcome\<rparr>) =
      (server_init\<lparr>hs_parameters := v, hs_state := Sv_registration\<rparr>, epoch + 1, [welcome_record v])"
    by (simp add: server_step_def server_send_def)
  define c2 where "c2 = c1\<lparr>cl_offered := offered_of v, cl_state := Cl_registration\<rparr>"
  have s4: "read_setup abi_c now Connect_done (Sent 0) attach (Received (welcome_record v) 0 True False) c1 = (c2, [])"
    unfolding c2_def by (rule client_welcome) (use offer c1 in \<open>auto simp: v_def request_def split: if_splits\<close>)
  define c3 where "c3 = c2\<lparr>cl_state := Cl_setup\<rparr>"
  have s5: "write_setup abi_c (Sent (length (cl_registration c2))) c2 = (c3, [registration_bytes port])"
    by (simp add: write_setup_def Let_def c2_def c1 c3_def)
  define s6 where "s6 = server_init\<lparr>hs_parameters := v, hs_state := Sv_identified, hs_id := port, hs_legacy := False\<rparr>"
  have step6: "server_step abi_s sopts (Io_recv (Received (registration_bytes port) 0 True False)) (epoch + 1)
      (server_init\<lparr>hs_parameters := v, hs_state := Sv_registration\<rparr>) = (s6, epoch + 1, [])"
    using c(3) switch_registration.dec_enc [OF c(3)] registration_bytes_valid [OF c(3)]
    by (simp add: server_step_def server_receive_def s6_def server_init_def)
  obtain v' i j where prep: "server_prepare created available s6 =
      s6\<lparr>hs_parameters := v', hs_transport := Some (transport_configure v' i j transport_init), hs_state := Sv_setup\<rparr>"
    and v': "prepared v v'" "pa_caps v' \<noteq> 0 \<longrightarrow> i = 1 \<and> j = 2"
    using server_prepared [of s6 created available] offer(1) by (auto simp: s6_def v_def)
  define s8 where "s8 = s6\<lparr>hs_parameters := v', hs_transport := Some (transport_configure v' i j transport_init), hs_state := Sv_ready\<rparr>"
  have step8: "server_step abi_s sopts (Io_send (Sent 56)) (epoch + 1) (server_prepare created available s6) = (s8, epoch + 1, [setup_record v'])"
    unfolding prep by (simp add: server_step_def server_send_def s8_def)
  have c3: "cl_state c3 = Cl_setup" "cl_offered c3 = offered_of v"
    by (simp_all add: c3_def c2_def)
  obtain i' j' where sel: "read_setup abi_c now Connect_done (Sent 0) attach (Received (setup_record v') (if pa_caps v' \<noteq> 0 then 2 else 0) True False) c3 =
      (c3\<lparr>cl_map_declined := (pa_caps v' \<noteq> 0 \<and> attach \<noteq> Map_attached), cl_transport := transport_configure (settled attach v') i' j' (cl_transport c3),
       cl_state := Cl_ready\<rparr>, [])" and ids: "pa_caps (settled attach v') \<noteq> 0 \<longrightarrow> i' = 2 \<and> j' = 1"
    using client_selected [OF c3 offer(1) [folded v_def] v'(1) assms(7)] by blast
  define st :: u32 where "st = (if pa_caps v' \<noteq> 0 \<and> attach \<noteq> Map_attached then 1 else 0)"
  define c5 where "c5 = c3\<lparr>cl_map_declined := (pa_caps v' \<noteq> 0 \<and> attach \<noteq> Map_attached),
    cl_transport := transport_configure (settled attach v') i' j' (cl_transport c3), cl_state := Cl_active\<rparr>"
  have s10: "write_setup abi_c (Sent 24) (c3\<lparr>cl_map_declined := (pa_caps v' \<noteq> 0 \<and> attach \<noteq> Map_attached),
      cl_transport := transport_configure (settled attach v') i' j' (cl_transport c3), cl_state := Cl_ready\<rparr>) =
      (c5, [state_record Type_ready (settled attach v') st])"
    by (simp add: write_setup_def Let_def c5_def st_def transport_configure_def)
  obtain s' where step11: "server_step abi_s sopts (Io_recv (Received (state_record Type_ready (settled attach v') st) 0 True False)) (epoch + 1) s8 =
      (s', epoch + 1, [])" and s': "hs_state s' = Sv_activate" "hs_id s' = port" "hs_parameters s' = settled attach v'"
      "hs_transport s' = Some ((transport_configure v' i j transport_init)\<lparr>tr_parameters := settled attach v'\<rparr>)"
    using server_ready [of s8 v' v "transport_configure v' i j transport_init" st attach abi_s sopts "epoch + 1"] v'(1)
    by (auto simp: s8_def s6_def st_def transport_configure_def)
  have "decode_state (state_record Type_active (settled attach v') 0) Type_active (settled attach v') = Some (pa_caps (settled attach v'), 0)"
    using settled_caps(1) [OF v'(1), of attach] by (intro decode_state_state) auto
  then have s12: "read_setup abi_c now Connect_done (Sent 0) attach (Received (state_record Type_active (hs_parameters s') 0) 0 True False) c5 =
      (c5\<lparr>cl_state := Cl_connected\<rparr>, [])"
    by (simp add: read_setup_def c5_def s'(3) transport_configure_def)
  have run: "register_port abi_c abi_s sopts epoch created available attach now c = (c5\<lparr>cl_state := Cl_connected\<rparr>, s')"
    unfolding register_port_def s1 Let_def prod.case list.sel s2 s3 s4 s5 step6 step8
    by (simp add: s8_def [THEN arg_cong [of _ _ hs_parameters]] sel s10 step11 s12)
  have caps: "pa_caps (settled attach v') \<noteq> 0 \<Longrightarrow> pa_caps v' \<noteq> 0"
    by (simp add: settled_def split: if_splits)
  let ?v = "settled attach v'" and ?t = "(transport_configure v' i j transport_init)\<lparr>tr_parameters := settled attach v'\<rparr>"
  have "\<exists>w w'. ?v = settled attach w' \<and> offer_ok w \<and> prepared w w' \<and> pa_epoch w = epoch + 1"
    using offer(1,2) v'(1) unfolding v_def [symmetric] by blast
  moreover have "pa_caps ?v \<noteq> 0 \<longrightarrow> i = 1 \<and> j = 2 \<and> i' = 2 \<and> j' = 1"
    using ids v'(2) caps by blast
  ultimately show ?thesis
    unfolding run prod.case using s'
    by - (rule exI [of _ ?v], rule exI [of _ ?t], simp add: c5_def transport_configure_def)
qed

lemma settled_negotiated:
  assumes "offer_ok w" "prepared w w'"
  shows "negotiated (settled attach w')" "valid_caps (pa_caps (settled attach w'))"
    and "pa_caps (settled attach w') \<noteq> 0 \<longrightarrow> validate_geometry (settled attach w')"
  using assms
  by (auto simp: settled_def prepared_def negotiated_def offer_ok_def offer_mapped_def validate_geometry_def pool_stride_def Let_def
      not_less max_batch_def)



end
