(* ===== verification/Ecmp.thy ===== *)
theory Ecmp
  imports Ip_Flow Siphash Switch_Protocol "HOL-Library.List_Lexorder" "HOL-Library.Char_ord"
begin

text \<open>
  Equal-cost multipath, \<open>src/switch_ecmp.hpp\<close>: the hash of a frame's flow and the streaming
  rendezvous selection among the available members. Port names compare as byte strings.
\<close>

definition ecmp_endpoint_key :: sip_key where "ecmp_endpoint_key = (0x74756e746f6d2d31, 0x65636d702d666c6f)"
definition ecmp_opaque_key :: sip_key where "ecmp_opaque_key = (0x74756e746f6d2d31, 0x65636d702d6f7061)"
definition ecmp_member_key :: sip_key where "ecmp_member_key = (0x74756e746f6d2d31, 0x65636d702d706f72)"
definition ecmp_score_key :: sip_key where "ecmp_score_key = (0x74756e746f6d2d31, 0x65636d702d687277)"

definition ecmp_port_identity :: "string \<Rightarrow> u64" where
  "ecmp_port_identity name = siphash (bytes_of_string name) ecmp_member_key"

definition ecmp_endpoint :: "u8 \<Rightarrow> u8 \<Rightarrow> bytes \<Rightarrow> u16 option \<Rightarrow> bytes" where
  "ecmp_endpoint version protocol address port =
     [version, protocol] @ address @ (case port of None \<Rightarrow> [] | Some p \<Rightarrow> [ucast (drop_bit 8 p), ucast p])"

definition ecmp_flow_hash :: "switch_frame_view \<Rightarrow> u64" where
  "ecmp_flow_hash frame =
     (case parse_ip_flow (sv_payload frame) of
        Some (Some flow) \<Rightarrow>
          let l4 = (pf_has_l4 flow \<and> \<not> pf_fragmented flow);
              version = ip_version (pf_l3 flow);
              address_size = (if version = 4 then 4 else 16);
              protocol = (if l4 then fl_protocol (pf_l4 flow) else 0)
          in siphash (ecmp_endpoint version protocol (take address_size (ip_source (pf_l3 flow)))
                 (if l4 then Some (fl_source_port (pf_l4 flow)) else None)) ecmp_endpoint_key XOR
             siphash (ecmp_endpoint version protocol (take address_size (ip_destination (pf_l3 flow)))
                 (if l4 then Some (fl_destination_port (pf_l4 flow)) else None)) ecmp_endpoint_key
      | _ \<Rightarrow> siphash (take (sv_label_count frame * switch_label_size) (sv_labels frame)) ecmp_opaque_key)"

record ecmp_selector =
  es_count :: nat
  es_flow :: u64
  es_identity :: u64
  es_score :: u64
  es_name :: string

definition EcmpSelector :: ecmp_selector where
  "EcmpSelector = \<lparr>es_count = 0, es_flow = 0, es_identity = 0, es_score = 0, es_name = []\<rparr>"

definition ecmp_score :: "ecmp_selector \<Rightarrow> u64 \<Rightarrow> u64" where
  "ecmp_score s identity = siphash_2u64 (es_flow s) identity ecmp_score_key"

definition consider_member :: "switch_frame_view \<Rightarrow> u64 \<Rightarrow> string \<Rightarrow> ecmp_selector \<Rightarrow> ecmp_selector \<times> bool" where
  "consider_member frame identity name s =
     (let s = s\<lparr>es_count := es_count s + 1\<rparr> in
      if es_count s = 1 then (s\<lparr>es_identity := identity, es_name := name\<rparr>, True)
      else
        let s = (if es_count s = 2
                 then let s = s\<lparr>es_flow := ecmp_flow_hash frame\<rparr> in s\<lparr>es_score := ecmp_score s (es_identity s)\<rparr>
                 else s);
            candidate = ecmp_score s identity in
        if candidate < es_score s \<or> candidate = es_score s \<and> name \<ge> es_name s then (s, False)
        else (s\<lparr>es_score := candidate, es_name := name\<rparr>, True))"

definition multipath :: "ecmp_selector \<Rightarrow> bool" where
  "multipath s \<longleftrightarrow> es_count s > 1"

subsection \<open>The selected member\<close>

text \<open>The callers' loop: the last member that \<open>consider\<close> accepts is the selected one.\<close>

fun ecmp_loop :: "switch_frame_view \<Rightarrow> string list \<Rightarrow> ecmp_selector \<Rightarrow> string option \<Rightarrow> string option" where
  "ecmp_loop frame [] s best = best"
| "ecmp_loop frame (m # ms) s best =
     (case consider_member frame (ecmp_port_identity m) m s of
        (s, accepted) \<Rightarrow> ecmp_loop frame ms s (if accepted then Some m else best))"

definition ecmp_select :: "switch_frame_view \<Rightarrow> string list \<Rightarrow> string option" where
  "ecmp_select frame ms = ecmp_loop frame ms EcmpSelector None"

text \<open>The rendezvous order of members for one flow: the higher score, then the smaller name.\<close>

definition rank :: "u64 \<Rightarrow> string \<Rightarrow> u64" where
  "rank flow m = siphash_2u64 flow (ecmp_port_identity m) ecmp_score_key"

definition beats :: "u64 \<Rightarrow> string \<Rightarrow> string \<Rightarrow> bool" where
  "beats flow a b \<longleftrightarrow> rank flow b < rank flow a \<or> rank flow b = rank flow a \<and> a \<le> b"

lemma beats_refl [simp]: "beats flow a a"
  by (simp add: beats_def)

lemma beats_trans: "beats flow a b \<Longrightarrow> beats flow b c \<Longrightarrow> beats flow a c"
  by (auto simp: beats_def)

lemma beats_antisym: "beats flow a b \<Longrightarrow> beats flow b a \<Longrightarrow> a = b"
  by (auto simp: beats_def)

lemma beats_total: "beats flow a b \<or> beats flow b a"
  unfolding beats_def by (meson linear linorder_cases)

text \<open>The state after at least one member: the best so far, and its score once there are two.\<close>

definition holding :: "switch_frame_view \<Rightarrow> string \<Rightarrow> ecmp_selector \<Rightarrow> bool" where
  "holding frame b s \<longleftrightarrow> es_name s = b \<and>
     (es_count s = 1 \<and> es_identity s = ecmp_port_identity b \<or>
      es_count s \<ge> 2 \<and> es_flow s = ecmp_flow_hash frame \<and> es_score s = rank (ecmp_flow_hash frame) b)"

lemma consider_holding:
  assumes "holding frame b s"
  shows "\<exists>s'. consider_member frame (ecmp_port_identity m) m s = (s', \<not> beats (ecmp_flow_hash frame) b m) \<and>
    holding frame (if beats (ecmp_flow_hash frame) b m then b else m) s'"
  using assms by (auto simp: holding_def consider_member_def Let_def ecmp_score_def rank_def [symmetric] beats_def)

lemma ecmp_loop_best:
  assumes "holding frame b s"
  shows "\<exists>w \<in> set (b # ms). ecmp_loop frame ms s (Some b) = Some w \<and> (\<forall>m \<in> set (b # ms). beats (ecmp_flow_hash frame) w m)"
  using assms
proof (induction ms arbitrary: b s)
  case (Cons m ms)
  let ?h = "ecmp_flow_hash frame"
  obtain s' where s': "consider_member frame (ecmp_port_identity m) m s = (s', \<not> beats ?h b m)"
    "holding frame (if beats ?h b m then b else m) s'"
    using consider_holding [OF Cons.prems] by blast
  show ?case
  proof (cases "beats ?h b m")
    case True
    then obtain w where "w \<in> set (b # ms)" "ecmp_loop frame ms s' (Some b) = Some w" "\<forall>m \<in> set (b # ms). beats ?h w m"
      using Cons.IH [of b s'] s'(2) by auto
    then show ?thesis
      using True s'(1) beats_trans [of ?h w b m] by auto
  next
    case False
    then obtain w where "w \<in> set (m # ms)" "ecmp_loop frame ms s' (Some m) = Some w" "\<forall>k \<in> set (m # ms). beats ?h w k"
      using Cons.IH [of m s'] s'(2) by auto
    then show ?thesis
      using False s'(1) beats_total [of ?h b m] beats_trans [of ?h w m b] by auto
  qed
qed simp

text \<open>A selection among members is the best of them, and the best is selected.\<close>

lemma ecmp_select_best:
  "ms \<noteq> [] \<Longrightarrow> \<exists>w \<in> set ms. ecmp_select frame ms = Some w \<and> (\<forall>m \<in> set ms. beats (ecmp_flow_hash frame) w m)"
proof (cases ms)
  case (Cons m ms')
  have "consider_member frame (ecmp_port_identity m) m EcmpSelector =
      (EcmpSelector\<lparr>es_count := 1, es_identity := ecmp_port_identity m, es_name := m\<rparr>, True)"
    by (simp add: consider_member_def EcmpSelector_def Let_def)
  moreover have "holding frame m (EcmpSelector\<lparr>es_count := 1, es_identity := ecmp_port_identity m, es_name := m\<rparr>)"
    by (simp add: holding_def)
  ultimately show ?thesis
    using ecmp_loop_best [of frame m _ ms'] Cons by (auto simp: ecmp_select_def)
qed simp

lemma ecmp_select_iff:
  "ms \<noteq> [] \<Longrightarrow> ecmp_select frame ms = Some w \<longleftrightarrow> w \<in> set ms \<and> (\<forall>m \<in> set ms. beats (ecmp_flow_hash frame) w m)"
  using ecmp_select_best [of ms frame] beats_antisym by (metis option.inject)

subsection \<open>Both directions of a flow\<close>

definition opposite :: "switch_frame_view \<Rightarrow> switch_frame_view \<Rightarrow> bool" where
  "opposite f g \<longleftrightarrow> (\<exists>p q. parse_ip_flow (sv_payload f) = Some (Some p) \<and> parse_ip_flow (sv_payload g) = Some (Some q) \<and>
     pf_l3 q = reverse_pair (pf_l3 p) \<and> pf_l4 q = reverse_key (pf_l4 p) \<and> pf_has_l4 q = pf_has_l4 p \<and> pf_fragmented q = pf_fragmented p)"

lemma ecmp_flow_hash_opposite: "opposite f g \<Longrightarrow> ecmp_flow_hash g = ecmp_flow_hash f"
  unfolding opposite_def by (auto simp: ecmp_flow_hash_def Let_def reverse_pair_def reverse_key_def xor.commute)

text \<open>
  C25. The member of a flow depends only on the flow and on who is available. Whatever order
  the members are considered in, one of them is selected; the same one is selected in any
  other order, for packets of the opposite direction, and after any of the others left.
\<close>

theorem ecmp_selection:
  assumes "ms \<noteq> []"
  shows "\<exists>w \<in> set ms. ecmp_select frame ms = Some w \<and>
    (\<forall>g ms'. (g = frame \<or> opposite frame g) \<longrightarrow> set ms' \<subseteq> set ms \<longrightarrow> w \<in> set ms' \<longrightarrow> ecmp_select g ms' = Some w)"
proof -
  obtain w where w: "w \<in> set ms" "ecmp_select frame ms = Some w" "\<forall>m \<in> set ms. beats (ecmp_flow_hash frame) w m"
    using ecmp_select_best [OF assms] by blast
  have "ecmp_select g ms' = Some w" if "g = frame \<or> opposite frame g" "set ms' \<subseteq> set ms" "w \<in> set ms'" for g ms'
  proof -
    have "ecmp_flow_hash g = ecmp_flow_hash frame" "ms' \<noteq> []"
      using that(1,3) ecmp_flow_hash_opposite by auto
    then show ?thesis
      using that(2,3) w(3) by (auto simp: ecmp_select_iff)
  qed
  with w(1,2) show ?thesis
    by blast
qed

theorem ecmp_selection_witness:
  "\<exists>w \<in> {''a'', ''b'', ''c''}. ecmp_select \<lparr>sv_opcode = 1, sv_labels = [], sv_label_count = 0, sv_payload = []\<rparr> [''a'', ''b'', ''c''] = Some w \<and>
     ecmp_select \<lparr>sv_opcode = 1, sv_labels = [], sv_label_count = 0, sv_payload = []\<rparr> [''c'', ''b'', ''a''] = Some w"
proof -
  let ?f = "\<lparr>sv_opcode = 1, sv_labels = [], sv_label_count = 0, sv_payload = []\<rparr> :: switch_frame_view"
  have "[''a'', ''b'', ''c''] \<noteq> []"
    by simp
  from ecmp_selection [OF this, of ?f] obtain w where w: "w \<in> set [''a'', ''b'', ''c'']" "ecmp_select ?f [''a'', ''b'', ''c''] = Some w"
    and others: "\<And>g ms'. g = ?f \<or> opposite ?f g \<Longrightarrow> set ms' \<subseteq> set [''a'', ''b'', ''c''] \<Longrightarrow> w \<in> set ms' \<Longrightarrow> ecmp_select g ms' = Some w"
    by blast
  have "ecmp_select ?f [''c'', ''b'', ''a''] = Some w"
    using w(1) by (intro others) auto
  with w show ?thesis
    by auto
qed

end
