(* ===== verification/Stack_Match.thy ===== *)
theory Stack_Match
  imports Switch_Protocol
begin

text \<open>
  Label stack matching, \<open>src/switch_stack_match.hpp\<close>, and the decimal text of unsigned
  integers (\<open>std::to_string\<close>) the switch's configuration uses.
\<close>

fun digits :: "nat \<Rightarrow> nat \<Rightarrow> string" where
  "digits 0 n = []"
| "digits (Suc k) n = (if n < 10 then [char_of (48 + n)] else digits k (n div 10) @ [char_of (48 + n mod 10)])"

definition to_string :: "nat \<Rightarrow> string" where
  "to_string n = digits (Suc n) n"

datatype element_kind = Kind_any | Kind_exact | Kind_range | Kind_bits

record rule_element =
  el_kind :: element_kind
  el_value :: u64
  el_upper :: u64

definition element_init :: rule_element where
  "element_init = \<lparr>el_kind = Kind_any, el_value = 0, el_upper = 0\<rparr>"

definition element_matches :: "rule_element \<Rightarrow> u64 \<Rightarrow> bool" where
  "element_matches e label = (case el_kind e of
     Kind_any \<Rightarrow> True
   | Kind_exact \<Rightarrow> label = el_value e
   | Kind_range \<Rightarrow> el_value e \<le> label \<and> label \<le> el_upper e
   | Kind_bits \<Rightarrow> label AND el_value e \<noteq> 0)"

definition element_text :: "rule_element \<Rightarrow> string" where
  "element_text e = (case el_kind e of
     Kind_any \<Rightarrow> ''*''
   | Kind_exact \<Rightarrow> to_string (unat (el_value e))
   | Kind_range \<Rightarrow> ''<'' @ to_string (unat (el_value e)) @ '', '' @ to_string (unat (el_upper e)) @ ''>''
   | Kind_bits \<Rightarrow> ''&'' @ to_string (unat (el_value e)))"

record stack_match =
  sm_items :: "rule_element list"
  sm_rest :: bool

definition stack_match_init :: stack_match where
  "stack_match_init = \<lparr>sm_items = [element_init], sm_rest = True\<rparr>"

definition unrestricted :: "stack_match \<Rightarrow> bool" where
  "unrestricted m \<longleftrightarrow> sm_rest m \<and> length (sm_items m) = 1 \<and> el_kind (sm_items m ! 0) = Kind_any"

definition stack_matches :: "stack_match \<Rightarrow> u64 list \<Rightarrow> bool" where
  "stack_matches m labels \<longleftrightarrow>
     \<not> (length labels < length (sm_items m) \<or> \<not> sm_rest m \<and> length labels \<noteq> length (sm_items m)) \<and>
     list_all (\<lambda>i. element_matches (sm_items m ! i) (labels ! i)) [0..<length (sm_items m)]"

fun join_items :: "string list \<Rightarrow> string \<Rightarrow> string" where
  "join_items [] acc = acc"
| "join_items (x # xs) acc = join_items xs ((if length acc > 1 then acc @ '', '' else acc) @ x)"

definition stack_match_text :: "stack_match \<Rightarrow> string" where
  "stack_match_text m = join_items (map element_text (sm_items m)) ''['' @ (if sm_rest m then '', ...'' else []) @ '']''"

lemma stack_matches_iff:
  "stack_matches m labels \<longleftrightarrow> length (sm_items m) \<le> length labels \<and> (sm_rest m \<or> length labels = length (sm_items m)) \<and>
     (\<forall>i < length (sm_items m). element_matches (sm_items m ! i) (labels ! i))"
  by (auto simp: stack_matches_def list_all_iff)

lemma unrestricted_matches: "unrestricted m \<Longrightarrow> labels \<noteq> [] \<Longrightarrow> stack_matches m labels"
  by (cases labels) (auto simp: unrestricted_def stack_matches_iff element_matches_def)

end
