(* ===== verification/Routes.thy ===== *)
theory Routes
  imports Stack_Match
begin

text \<open>
  Static routes of the switch, \<open>src/switch_routes.hpp\<close>. The hash maps are association lists;
  the order in which a C++ hash map is walked only decides between entries of one key, and
  a key occurs once.
\<close>

record route_target =
  rt_port :: string
  rt_label :: u64

type_synonym port_routes = "(u64 \<times> route_target) list"
type_synonym switch_routes = "(string \<times> port_routes) list"

definition wildcard_port :: "string \<Rightarrow> bool" where
  "wildcard_port port \<longleftrightarrow> port \<noteq> [] \<and> last port = CHR ''*''"

definition route_port_matches :: "string \<Rightarrow> string \<Rightarrow> bool" where
  "route_port_matches pattern port =
     (if \<not> wildcard_port pattern then pattern = port
      else let pattern = butlast pattern in take (length pattern) port = pattern)"

fun find_char :: "char \<Rightarrow> string \<Rightarrow> nat option" where
  "find_char c [] = None"
| "find_char c (x # xs) = (if x = c then Some 0 else map_option Suc (find_char c xs))"

definition rfind_char :: "char \<Rightarrow> string \<Rightarrow> nat option" where
  "rfind_char c s = map_option (\<lambda>i. length s - 1 - i) (find_char c (rev s))"

definition validate_port_wildcard :: "string \<Rightarrow> unit result" where
  "validate_port_wildcard port =
     (if port = ''*'' then Inl (Runtime_error ''port wildcard '*' requires a non-empty prefix'')
      else case find_char CHR ''*'' port of
          None \<Rightarrow> Inr ()
        | Some star \<Rightarrow>
            if star \<noteq> length port - 1 then Inl (Runtime_error (''port wildcard must be a single trailing '*'' @ [CHR 0x27]))
            else Inr ())"

subsection \<open>\<open>std::stoull\<close> with automatic base\<close>

definition digit_value :: "char \<Rightarrow> nat" where
  "digit_value c = (let k = of_char c in
     if 48 \<le> k \<and> k \<le> 57 then k - 48
     else if 97 \<le> k \<and> k \<le> 122 then k - 97 + 10
     else if 65 \<le> k \<and> k \<le> 90 then k - 65 + 10
     else 99)"

definition is_space :: "char \<Rightarrow> bool" where
  "is_space c \<longleftrightarrow> (let k = of_char c :: nat in k = 32 \<or> 9 \<le> k \<and> k \<le> 13)"

fun scan_digits :: "nat \<Rightarrow> string \<Rightarrow> nat \<Rightarrow> nat \<Rightarrow> nat \<times> nat" where
  "scan_digits base [] used n = (used, n)"
| "scan_digits base (c # cs) used n =
     (if digit_value c < base then scan_digits base cs (used + 1) (n * base + digit_value c) else (used, n))"

text \<open>The value and the number of characters used; the value of a negative number is its negation.\<close>

definition stoull :: "string \<Rightarrow> (u64 \<times> nat) result" where
  "stoull s =
     (let blanks = length (takeWhile is_space s); s = drop blanks s;
          sign = (if s \<noteq> [] \<and> (hd s = CHR ''+'' \<or> hd s = CHR ''-'') then 1 else 0);
          negative = (sign = 1 \<and> hd s = CHR ''-''); s = drop sign s;
          hex = (length s \<ge> 3 \<and> s ! 0 = CHR ''0'' \<and> (s ! 1 = CHR ''x'' \<or> s ! 1 = CHR ''X'') \<and> digit_value (s ! 2) < 16);
          base = (if hex then 16 else if s \<noteq> [] \<and> hd s = CHR ''0'' then 8 else 10);
          prefix = (if hex then 2 else 0);
          (used, n) = scan_digits base (drop prefix s) 0 0
      in if used = 0 then Inl (Invalid_argument ''stoull'')
         else if n \<ge> 2 ^ 64 then Inl (Out_of_range ''stoull'')
         else Inr (if negative then - of_nat n else of_nat n, blanks + sign + prefix + used))"

subsection \<open>Endpoints and routes\<close>

definition switch_route_endpoint :: "string \<Rightarrow> (string \<times> u64) result" where
  "switch_route_endpoint endpoint =
     (case rfind_char CHR '':'' endpoint of
        None \<Rightarrow> Inl (Runtime_error (''Invalid route endpoint: '' @ endpoint))
      | Some colon \<Rightarrow>
          if colon = 0 \<or> colon + 1 = length endpoint then Inl (Runtime_error (''Invalid route endpoint: '' @ endpoint))
          else let port = take colon endpoint in
            case encode_switch_registration port of
              Inl e \<Rightarrow> Inl e
            | Inr _ \<Rightarrow>
                case validate_port_wildcard port of
                  Inl e \<Rightarrow> Inl e
                | Inr _ \<Rightarrow>
                    let label = drop (colon + 1) endpoint in
                    if label ! 0 = CHR ''-'' \<or> list_ex (\<lambda>c. c \<in> {CHR '' '', CHR 0x09, CHR 0x0D, CHR 0x0A}) label
                    then Inl (Runtime_error (''Invalid label: '' @ label))
                    else case stoull label of
                        Inl e \<Rightarrow> Inl e
                      | Inr (v, used) \<Rightarrow>
                          if used \<noteq> length label then Inl (Runtime_error (''Invalid label: '' @ label))
                          else Inr (port, v))"

text \<open>\<open>operator[]\<close> followed by \<open>emplace\<close>: the key's entry is created, the label's only where it is new.\<close>

definition port_entry :: "switch_routes \<Rightarrow> string \<Rightarrow> port_routes" where
  "port_entry routes port = (case map_of routes port of None \<Rightarrow> [] | Some r \<Rightarrow> r)"

definition set_entry :: "string \<Rightarrow> port_routes \<Rightarrow> switch_routes \<Rightarrow> switch_routes" where
  "set_entry port r routes =
     (if map_of routes port = None then routes @ [(port, r)]
      else map (\<lambda>(p, old). if p = port then (p, r) else (p, old)) routes)"

definition add_switch_route :: "switch_routes \<Rightarrow> string \<Rightarrow> switch_routes result" where
  "add_switch_route routes route =
     (case find_char CHR ''='' route of
        None \<Rightarrow> Inl (Runtime_error (''Invalid route: '' @ route))
      | Some equals \<Rightarrow>
          case switch_route_endpoint (take equals route) of
            Inl e \<Rightarrow> Inl e
          | Inr (in_port, in_label) \<Rightarrow>
              case switch_route_endpoint (drop (equals + 1) route) of
                Inl e \<Rightarrow> Inl e
              | Inr (out_port, out_label) \<Rightarrow>
                  if map_of (port_entry routes in_port) in_label \<noteq> None then Inl (Runtime_error (''Duplicate route: '' @ route))
                  else Inr (set_entry in_port (port_entry routes in_port @ [(in_label, \<lparr>rt_port = out_port, rt_label = out_label\<rparr>)]) routes))"

fun emplace_all :: "port_routes \<Rightarrow> port_routes \<Rightarrow> port_routes" where
  "emplace_all [] resolved = resolved"
| "emplace_all ((l, t) # rs) resolved =
     emplace_all rs (if map_of resolved l = None then resolved @ [(l, t)] else resolved)"

definition routes_for_port :: "switch_routes \<Rightarrow> string \<Rightarrow> port_routes" where
  "routes_for_port routes port =
     (let resolved = (case map_of routes port of
            Some r \<Rightarrow> if \<not> wildcard_port port then r else []
          | None \<Rightarrow> []);
          patterns = filter (\<lambda>(p, r). wildcard_port p \<and> route_port_matches p port) routes;
          sorted = sort_key (\<lambda>(p, r). - int (length p)) patterns
      in foldl (\<lambda>resolved (p, r). emplace_all r resolved) resolved sorted)"

subsection \<open>Precedence\<close>

lemma map_of_emplace_all:
  "map_of (emplace_all rs resolved) l = (case map_of resolved l of Some t \<Rightarrow> Some t | None \<Rightarrow> map_of rs l)"
proof (induction rs resolved rule: emplace_all.induct)
  case (2 l' t rs resolved)
  then show ?case
    by (auto simp: map_add_def split: option.splits)
qed (simp split: option.split)

fun first_route :: "(string \<times> port_routes) list \<Rightarrow> u64 \<Rightarrow> route_target option" where
  "first_route [] l = None"
| "first_route ((p, r) # ps) l = (case map_of r l of Some t \<Rightarrow> Some t | None \<Rightarrow> first_route ps l)"

lemma foldl_emplace:
  "map_of (foldl (\<lambda>resolved (p, r). emplace_all r resolved) resolved ps) l =
     (case map_of resolved l of Some t \<Rightarrow> Some t | None \<Rightarrow> first_route ps l)"
proof (induction ps arbitrary: resolved)
  case (Cons p ps)
  then show ?case
    by (cases p) (auto simp: map_of_emplace_all split: option.splits)
qed (simp split: option.split)

text \<open>
  A route found through a pattern has the longest pattern that matches the port and has a
  route for the label; an exact name comes before every pattern.
\<close>

lemma first_route_longest:
  assumes "sorted (map (\<lambda>(p, r). - int (length p)) ps)" "first_route ps l = Some t"
  shows "\<exists>p r. (p, r) \<in> set ps \<and> map_of r l = Some t \<and> (\<forall>(p', r') \<in> set ps. map_of r' l \<noteq> None \<longrightarrow> length p' \<le> length p)"
  using assms
proof (induction ps)
  case (Cons q ps)
  obtain p r where q: "q = (p, r)"
    by (cases q)
  show ?case
  proof (cases "map_of r l")
    case None
    then obtain p' r' where "(p', r') \<in> set ps" "map_of r' l = Some t"
      "\<forall>(p'', r'') \<in> set ps. map_of r'' l \<noteq> None \<longrightarrow> length p'' \<le> length p'"
      using Cons q by auto
    then show ?thesis
      using None q by (intro exI [of _ p'] exI [of _ r']) auto
  next
    case (Some t')
    have "length p' \<le> length p" if "(p', r') \<in> set ps" for p' r'
      using Cons.prems(1) that q by (auto simp: image_iff)
    then show ?thesis
      using Some Cons.prems(2) q by (intro exI [of _ p] exI [of _ r]) auto
  qed
qed simp

lemma routes_for_port_exact:
  assumes "map_of routes port = Some r" "\<not> wildcard_port port" "map_of r l = Some t"
  shows "map_of (routes_for_port routes port) l = Some t"
  using assms by (simp add: routes_for_port_def Let_def foldl_emplace)

lemma routes_for_port_pattern:
  assumes "map_of (routes_for_port routes port) l = Some t" "map_of (port_entry routes port) l = None \<or> wildcard_port port"
  shows "\<exists>p r. (p, r) \<in> set routes \<and> wildcard_port p \<and> route_port_matches p port \<and> map_of r l = Some t \<and>
    (\<forall>(p', r') \<in> set routes. wildcard_port p' \<longrightarrow> route_port_matches p' port \<longrightarrow> map_of r' l \<noteq> None \<longrightarrow> length p' \<le> length p)"
proof -
  let ?ps = "sort_key (\<lambda>(p, r). - int (length p)) (filter (\<lambda>(p, r). wildcard_port p \<and> route_port_matches p port) routes)"
  have "first_route ?ps l = Some t"
    using assms by (auto simp: routes_for_port_def Let_def foldl_emplace port_entry_def split: option.splits if_splits)
  from first_route_longest [OF sorted_sort_key this] obtain p r where
    pr: "(p, r) \<in> set ?ps" "map_of r l = Some t" and best: "\<forall>(p', r') \<in> set ?ps. map_of r' l \<noteq> None \<longrightarrow> length p' \<le> length p"
    by blast
  have "length p' \<le> length p" if "(p', r') \<in> set routes" "wildcard_port p'" "route_port_matches p' port" "map_of r' l \<noteq> None" for p' r'
  proof -
    have "(p', r') \<in> set ?ps"
      using that(1-3) by simp
    then show ?thesis
      using best that(4) by blast
  qed
  moreover have "(p, r) \<in> set routes" "wildcard_port p" "route_port_matches p port"
    using pr(1) by simp_all
  ultimately show ?thesis
    using pr(2) by blast
qed

end
