(* ===== verification/Ruleset.thy ===== *)
theory Ruleset
  imports Routes "HOL-Library.List_Lexorder" "HOL-Library.Char_ord"
begin

text \<open>
  Rulesets of the switch, \<open>src/switch_ruleset.hpp\<close>: literals, statements with their canonical
  text, stack rewriting, the reverse of a forwarding rule, and the program compiled for one
  ingress port. Where the C++ keeps a pointer to a statement, the model keeps its index.
\<close>

definition ruleset_max_bytes :: nat where "ruleset_max_bytes = 1024 * 1024"
definition ruleset_max_statements :: nat where "ruleset_max_statements = 4096"

subsection \<open>Literals\<close>

fun number_loop :: "string \<Rightarrow> u64 \<Rightarrow> u64 result" where
  "number_loop [] n = Inr n"
| "number_loop (c # cs) n =
     (let digit = of_nat (of_char c - 48) in
      if n > (0xffffffffffffffff - digit) div 10 then Inl (Runtime_error ''integer exceeds uint64'')
      else number_loop cs (n * 10 + digit))"

definition decimal_digit :: "char \<Rightarrow> bool" where
  "decimal_digit c \<longleftrightarrow> (48 :: nat) \<le> of_char c \<and> (of_char c :: nat) \<le> 57"

definition rules_number :: "string \<Rightarrow> u64 result" where
  "rules_number s =
     (if s = [] \<or> \<not> list_all decimal_digit s then Inl (Runtime_error ''expected an unsigned decimal integer'')
      else number_loop s 0)"

definition rules_port :: "string \<Rightarrow> unit result" where
  "rules_port s =
     (case encode_switch_registration s of
        Inl e \<Rightarrow> Inl e
      | Inr _ \<Rightarrow>
          case validate_port_wildcard s of
            Inl e \<Rightarrow> Inl e
          | Inr _ \<Rightarrow>
              if list_ex (\<lambda>c. c \<in> {CHR '','', CHR ''['', CHR '']'', CHR ''#''}) s
              then Inl (Runtime_error ''invalid port pattern (unexpected delimiter)'')
              else Inr ())"

text \<open>A quoted label: the characters between the quotes, at most eight bytes, left-aligned.\<close>

fun quoted_loop :: "string \<Rightarrow> u64 \<Rightarrow> nat \<Rightarrow> (u64 \<times> nat) result" where
  "quoted_loop [] v n = Inr (v, n)"
| "quoted_loop (c # cs) v n =
     (if c = CHR 0x5C then
        (case cs of
           [] \<Rightarrow> Inl (Runtime_error ''label strings support only escaped quote and backslash'')
         | d # ds \<Rightarrow>
             if d \<noteq> CHR 0x5C \<and> d \<noteq> CHR 0x22 then Inl (Runtime_error ''label strings support only escaped quote and backslash'')
             else if n + 1 > 8 then Inl (Runtime_error ''label string exceeds 8 bytes'')
             else quoted_loop ds (push_bit 8 v OR ucast (byte_of_char d)) (n + 1))
      else if n + 1 > 8 then Inl (Runtime_error ''label string exceeds 8 bytes'')
      else quoted_loop cs (push_bit 8 v OR ucast (byte_of_char c)) (n + 1))"

fun literal_loop :: "nat \<Rightarrow> string \<Rightarrow> u64 \<Rightarrow> u64 result" where
  "literal_loop base [] v = Inr v"
| "literal_loop base (c # cs) v =
     (let k = of_char c :: nat;
          digit = (if 48 \<le> k \<and> k \<le> 57 then k - 48 else if 97 \<le> k \<and> k \<le> 102 then k - 97 + 10
                   else if 65 \<le> k \<and> k \<le> 70 then k - 65 + 10 else 16)
      in if digit \<ge> base then Inl (Runtime_error ''invalid digit in label literal'')
         else if v > (0xffffffffffffffff - of_nat digit) div of_nat base then Inl (Runtime_error ''label literal exceeds uint64'')
         else literal_loop base cs (v * of_nat base + of_nat digit))"

definition rules_label_value :: "string \<Rightarrow> u64 result" where
  "rules_label_value s =
     (if s \<noteq> [] \<and> hd s = CHR 0x22 then
        (if length s < 2 \<or> last s \<noteq> CHR 0x22 then Inl (Runtime_error ''unterminated label string'')
         else case quoted_loop (butlast (tl s)) 0 0 of
             Inl e \<Rightarrow> Inl e
           | Inr (v, n) \<Rightarrow> Inr (push_bit (8 * (8 - n)) v))
      else
        let two = length s \<ge> 2 \<and> s ! 0 = CHR ''0'';
            (base, start) =
              (if two \<and> (s ! 1 = CHR ''x'' \<or> s ! 1 = CHR ''X'') then (16, 2)
               else if two \<and> (s ! 1 = CHR ''b'' \<or> s ! 1 = CHR ''B'') then (2, 2)
               else if s \<noteq> [] \<and> (s ! 0 = CHR ''b'' \<or> s ! 0 = CHR ''B'') then (2, 1)
               else (10, 0))
        in if start = length s then Inl (Runtime_error ''label literal needs digits'')
           else literal_loop base (drop start s) 0)"

subsection \<open>Statements\<close>

record rule_label =
  la_any :: bool
  la_value :: u64

definition label_matches :: "rule_label \<Rightarrow> u64 \<Rightarrow> bool" where
  "label_matches l n \<longleftrightarrow> la_any l \<or> la_value l = n"

definition label_text :: "rule_label \<Rightarrow> string" where
  "label_text l = (if la_any l then ''*'' else to_string (unat (la_value l)))"

record rule_endpoint =
  ep_port :: string
  ep_label :: rule_label
  ep_match :: stack_match

definition endpoint_init :: rule_endpoint where
  "endpoint_init = \<lparr>ep_port = ''*'', ep_label = \<lparr>la_any = True, la_value = 0\<rparr>, ep_match = stack_match_init\<rparr>"

definition endpoint_text :: "rule_endpoint \<Rightarrow> string" where
  "endpoint_text e = ep_port e @ '','' @ label_text (ep_label e)"

definition endpoint_text_v2 :: "rule_endpoint \<Rightarrow> string" where
  "endpoint_text_v2 e =
     (let out = (if ep_port e = ''*'' then [] else ep_port e);
          keyword = (ep_port e = ''to'' \<or> ep_port e = ''allow'' \<or> ep_port e = ''drop'' \<or> ep_port e = ''capture'')
      in if \<not> unrestricted (ep_match e) \<or> keyword then out @ (if out = [] then [] else '', '') @ stack_match_text (ep_match e) else out)"

record stack_item =
  si_keep :: bool
  si_value :: u64

record rule_stack =
  rs_items :: "stack_item list"
  rs_rest :: bool

definition rule_stack_init :: rule_stack where
  "rule_stack_init = \<lparr>rs_items = [], rs_rest = False\<rparr>"

text \<open>
  Rewriting a stack into an array of eight labels. A write outside the array makes the whole
  result \<open>None\<close>; inside, it is \<open>None\<close> where the C++ returns false.
\<close>

fun apply_items :: "nat \<Rightarrow> stack_item list \<Rightarrow> u64 list \<Rightarrow> u64 list \<Rightarrow> u64 list option option" where
  "apply_items i [] labels out = Some (Some out)"
| "apply_items i (it # its) labels out =
     (if si_keep it \<and> i \<ge> length labels then Some None
      else if i \<ge> switch_max_labels then None
      else apply_items (i + 1) its labels (out @ [if si_keep it then labels ! i else si_value it]))"

fun apply_rest :: "u64 list \<Rightarrow> u64 list \<Rightarrow> u64 list option" where
  "apply_rest [] out = Some out"
| "apply_rest (l # ls) out = (if length out \<ge> switch_max_labels then None else apply_rest ls (out @ [l]))"

definition stack_apply :: "rule_stack \<Rightarrow> u64 list \<Rightarrow> u64 list option option" where
  "stack_apply st labels =
     (case apply_items 0 (rs_items st) labels [] of
        None \<Rightarrow> None
      | Some None \<Rightarrow> Some None
      | Some (Some out) \<Rightarrow>
          (case (if rs_rest st then apply_rest (drop (length (rs_items st)) labels) out else Some out) of
             None \<Rightarrow> None
           | Some out \<Rightarrow> Some (if length out > 0 \<and> length out \<le> switch_max_labels then Some out else None)))"

definition stack_identity :: "rule_stack \<Rightarrow> bool" where
  "stack_identity st \<longleftrightarrow> rs_rest st \<and> length (rs_items st) = 1 \<and> si_keep (rs_items st ! 0)"

definition stack_text :: "bool \<Rightarrow> rule_stack \<Rightarrow> string" where
  "stack_text stars st =
     join_items (map (\<lambda>it. if si_keep it then (if stars then ''*'' else ''keep'') else to_string (unat (si_value it))) (rs_items st)) ''['' @
     (if rs_rest st then '', ...'' else []) @ '']''"

datatype statement_type = St_exit | St_trunk | St_policy | St_mapping | St_capture | St_forward

record rule_statement =
  st_type :: statement_type
  st_input :: rule_endpoint
  st_output :: rule_endpoint
  st_stack :: rule_stack
  st_allow :: bool
  st_id :: string
  st_target :: string
  st_via :: "string list"
  st_line :: nat

definition statement_init :: rule_statement where
  "statement_init = \<lparr>st_type = St_policy, st_input = endpoint_init, st_output = endpoint_init, st_stack = rule_stack_init,
     st_allow = False, st_id = [], st_target = [], st_via = [], st_line = 0\<rparr>"

fun join_names :: "string list \<Rightarrow> string \<Rightarrow> string" where
  "join_names [] out = out"
| "join_names (x # xs) out = join_names xs ((if last out \<noteq> CHR ''['' then out @ '', '' else out) @ x)"

definition statement_text_v2 :: "rule_statement \<Rightarrow> string" where
  "statement_text_v2 s =
     (let source = endpoint_text_v2 (st_input s);
          out = ''switch'' @ (if source = [] then [] else '' '' @ source);
          destination =
            (if st_type s = St_forward then
               let d = (if ep_port (st_output s) \<noteq> ''*'' then ep_port (st_output s) else [])
               in if \<not> stack_identity (st_stack s) then d @ (if d = [] then [] else '', '') @ stack_text True (st_stack s) else d
             else endpoint_text_v2 (st_output s));
          out = out @ (if destination = [] then [] else '' to '' @ destination);
          out = (if st_via s = [] then out else join_names (st_via s) (out @ '' via ['') @ '']'');
          out = out @ (if st_type s = St_forward then '' allow'' else if st_type s = St_capture then '' capture'' else '' drop'');
          out = out @ (if st_target s = [] then [] else '' '' @ st_target s)
      in out @ (if st_id s = [] then [] else '' [id='' @ st_id s @ '']''))"

definition statement_text :: "nat \<Rightarrow> rule_statement \<Rightarrow> string result" where
  "statement_text fmt s =
     (let id = (if st_id s = [] then [] else '' [id='' @ st_id s @ '']'');
          ends = (if ep_port (st_input s) \<noteq> ''*'' then '' '' @ endpoint_text (st_input s) else []) @
                 (if ep_port (st_output s) \<noteq> ''*'' then '' to '' @ endpoint_text (st_output s) else [])
      in if fmt \<ge> 2 \<and> st_type s \<noteq> St_exit \<and> st_type s \<noteq> St_trunk then Inr (statement_text_v2 s)
         else case st_type s of
             St_exit \<Rightarrow> Inr (''exit '' @ ep_port (st_output s))
           | St_trunk \<Rightarrow> Inr (''trunk '' @ ep_port (st_output s))
           | St_mapping \<Rightarrow> Inr (''label '' @ endpoint_text (st_input s) @ '' to '' @ ep_port (st_output s) @ '', '' @
               stack_text False (st_stack s) @ id)
           | St_policy \<Rightarrow> Inr (''switch'' @ ends @ (if st_allow s then '' allow'' else '' drop'') @ id)
           | St_capture \<Rightarrow> Inr (''switch'' @ ends @ '' capture'' @ (if st_target s = [] then [] else '' '' @ st_target s) @ id)
           | St_forward \<Rightarrow> Inl (Runtime_error ''format-2 forwarding rule in format 1''))"

subsection \<open>Services and rulesets\<close>

record via_service =
  vs_name :: string
  vs_client :: string
  vs_server :: string
  vs_relay :: string
  vs_client_relay :: string
  vs_server_relay :: string
  vs_failover :: bool
  vs_pass :: bool
  vs_instances :: "string list"

definition service_init :: via_service where
  "service_init = \<lparr>vs_name = [], vs_client = [], vs_server = [], vs_relay = [], vs_client_relay = [], vs_server_relay = [],
     vs_failover = False, vs_pass = False, vs_instances = []\<rparr>"

definition split_relay :: "via_service \<Rightarrow> bool" where
  "split_relay v \<longleftrightarrow> vs_client_relay v \<noteq> []"

definition relay_matches_side :: "via_service \<Rightarrow> string \<Rightarrow> bool \<Rightarrow> bool" where
  "relay_matches_side v parent server_side \<longleftrightarrow>
     (if \<not> split_relay v then
        (if vs_relay v = [] then parent = [] else parent \<noteq> [] \<and> route_port_matches (vs_relay v) parent)
      else parent \<noteq> [] \<and> route_port_matches (if server_side then vs_server_relay v else vs_client_relay v) parent)"

definition relay_matches :: "via_service \<Rightarrow> string \<Rightarrow> bool" where
  "relay_matches v parent \<longleftrightarrow>
     (if split_relay v then relay_matches_side v parent False \<or> relay_matches_side v parent True
      else if vs_relay v = [] then parent = [] else parent \<noteq> [] \<and> route_port_matches (vs_relay v) parent)"

definition service_text :: "via_service \<Rightarrow> string" where
  "service_text v =
     ''service '' @ vs_name v @ '' {'' @ [CHR 0x0A] @ ''    client-side '' @ vs_client v @ [CHR 0x0A] @
     ''    server-side '' @ vs_server v @ [CHR 0x0A] @ ''    stickiness '' @ (if vs_failover v then ''failover'' else ''hash'') @ [CHR 0x0A] @
     ''    unavailable '' @ (if vs_pass v then ''pass'' else ''drop'') @ [CHR 0x0A] @
     (if vs_relay v = [] then [] else ''    relay '' @ vs_relay v @ [CHR 0x0A]) @
     (if split_relay v then ''    client-relay '' @ vs_client_relay v @ [CHR 0x0A] @ ''    server-relay '' @ vs_server_relay v @ [CHR 0x0A] else []) @
     (if vs_instances v = [] then []
      else join_names (map (\<lambda>id. [CHR 0x22] @ id @ [CHR 0x22]) (vs_instances v)) ''    instances ['' @ '']'' @ [CHR 0x0A]) @
     ''}'' @ [CHR 0x0A]"

record switch_ruleset =
  ru_format :: nat
  ru_serial :: u64
  ru_statements :: "rule_statement list"
  ru_origins :: "(string \<times> u64) list"
  ru_services :: "(string \<times> via_service) list"

definition ruleset_init :: switch_ruleset where
  "ruleset_init = \<lparr>ru_format = 1, ru_serial = 0, ru_statements = [], ru_origins = [], ru_services = []\<rparr>"

text \<open>The two ordered maps are association lists kept in the order of their keys by insertion.\<close>

fun map_insert :: "string \<Rightarrow> 'a \<Rightarrow> (string \<times> 'a) list \<Rightarrow> (string \<times> 'a) list" where
  "map_insert k v [] = [(k, v)]"
| "map_insert k v ((k', v') # m) =
     (if k < k' then (k, v) # (k', v') # m else (k', v') # map_insert k v m)"

fun statements_text :: "nat \<Rightarrow> rule_statement list \<Rightarrow> string result" where
  "statements_text fmt [] = Inr []"
| "statements_text fmt (s # ss) =
     (case statement_text fmt s of
        Inl e \<Rightarrow> Inl e
      | Inr x \<Rightarrow> (case statements_text fmt ss of Inl e \<Rightarrow> Inl e | Inr xs \<Rightarrow> Inr (x @ [CHR 0x0A] @ xs)))"

definition ruleset_text :: "switch_ruleset \<Rightarrow> string result" where
  "ruleset_text r =
     (let head = ''format '' @ to_string (ru_format r) @ [CHR 0x0A] @ ''serial '' @ to_string (unat (ru_serial r)) @ [CHR 0x0A] @
            concat (map (\<lambda>(p, i). ''port '' @ p @ '' id '' @ to_string (unat i) @ [CHR 0x0A]) (ru_origins r)) @
            concat (map (\<lambda>(n, v). service_text v) (ru_services r))
      in case statements_text (ru_format r) (ru_statements r) of Inl e \<Rightarrow> Inl e | Inr x \<Rightarrow> Inr (head @ x))"

definition ruleset_role :: "switch_ruleset \<Rightarrow> string \<Rightarrow> statement_type \<Rightarrow> bool" where
  "ruleset_role r port ty \<longleftrightarrow> list_ex (\<lambda>s. st_type s = ty \<and> route_port_matches (ep_port (st_output s)) port) (ru_statements r)"

subsection \<open>Output stacks and reverse rules\<close>

fun output_items :: "rule_element list \<Rightarrow> stack_item list result" where
  "output_items [] = Inr []"
| "output_items (e # es) =
     (if el_kind e \<noteq> Kind_any \<and> el_kind e \<noteq> Kind_exact
      then Inl (Runtime_error ''output stack accepts only values and '*'; ranges and bitmasks are match predicates'')
      else case output_items es of
          Inl x \<Rightarrow> Inl x
        | Inr its \<Rightarrow> Inr (\<lparr>si_keep = (el_kind e = Kind_any), si_value = el_value e\<rparr> # its))"

definition output_stack :: "stack_match \<Rightarrow> rule_stack result" where
  "output_stack m = (case output_items (sm_items m) of Inl e \<Rightarrow> Inl e | Inr its \<Rightarrow> Inr \<lparr>rs_items = its, rs_rest = sm_rest m\<rparr>)"

fun reverse_match_loop :: "nat list \<Rightarrow> stack_match \<Rightarrow> rule_stack \<Rightarrow> rule_element list result" where
  "reverse_match_loop [] source rewrite = Inr []"
| "reverse_match_loop (i # is) source rewrite =
     (let rest = (\<lambda>e. case reverse_match_loop is source rewrite of Inl x \<Rightarrow> Inl x | Inr es \<Rightarrow> Inr (e # es)) in
      if i < length (rs_items rewrite) \<and> \<not> si_keep (rs_items rewrite ! i)
      then rest \<lparr>el_kind = Kind_exact, el_value = si_value (rs_items rewrite ! i), el_upper = 0\<rparr>
      else if i < length (sm_items source) then rest (sm_items source ! i)
      else if \<not> sm_rest source
      then Inl (Runtime_error ''bidir cannot preserve a missing source position; write explicit switch rules'')
      else rest element_init)"

fun reverse_stack_loop :: "nat list \<Rightarrow> stack_match \<Rightarrow> rule_stack \<Rightarrow> stack_item list result" where
  "reverse_stack_loop [] source rewrite = Inr []"
| "reverse_stack_loop (i # is) source rewrite =
     (let e = sm_items source ! i;
          rest = (\<lambda>it. case reverse_stack_loop is source rewrite of Inl x \<Rightarrow> Inl x | Inr its \<Rightarrow> Inr (it # its)) in
      if el_kind e = Kind_exact then rest \<lparr>si_keep = False, si_value = el_value e\<rparr>
      else
        let preserved = (if i < length (rs_items rewrite) then si_keep (rs_items rewrite ! i) else rs_rest rewrite) in
        if \<not> preserved
        then Inl (Runtime_error ''bidir cannot restore a wildcard, range or bitmask after overwrite; write explicit switch rules'')
        else rest \<lparr>si_keep = True, si_value = 0\<rparr>)"

definition reverse_forward_rule :: "rule_statement \<Rightarrow> rule_statement result" where
  "reverse_forward_rule forward =
     (let source = ep_match (st_input forward); rewrite = st_stack forward;
          count = (if rs_rest rewrite then max (length (sm_items source)) (length (rs_items rewrite)) else length (rs_items rewrite)) in
      case reverse_match_loop [0..<count] source rewrite of
        Inl e \<Rightarrow> Inl e
      | Inr items \<Rightarrow>
          case reverse_stack_loop [0..<length (sm_items source)] source rewrite of
            Inl e \<Rightarrow> Inl e
          | Inr its \<Rightarrow>
              Inr (forward\<lparr>st_input := (st_input forward)\<lparr>ep_port := ep_port (st_output forward),
                             ep_match := \<lparr>sm_items = items, sm_rest = sm_rest source \<and> rs_rest rewrite\<rparr>\<rparr>,
                           st_output := (st_output forward)\<lparr>ep_port := ep_port (st_input forward)\<rparr>,
                           st_stack := \<lparr>rs_items = its, rs_rest = sm_rest source \<and> rs_rest rewrite\<rparr>\<rparr>))"

subsection \<open>Programs\<close>

record rules_program =
  pg_format :: nat
  pg_mappings :: "nat list"
  pg_policies :: "nat list"
  pg_exact :: "(u64 \<times> nat) list"
  pg_fallback :: "nat option"

definition program_init :: "nat \<Rightarrow> rules_program" where
  "program_init fmt = \<lparr>pg_format = fmt, pg_mappings = [], pg_policies = [], pg_exact = [], pg_fallback = None\<rparr>"

definition compile_statement :: "string \<Rightarrow> nat \<Rightarrow> rule_statement \<Rightarrow> rules_program \<Rightarrow> rules_program" where
  "compile_statement port k s g =
     (if \<not> route_port_matches (ep_port (st_input s)) port then g
      else if pg_format g \<ge> 2 then
        let g = (if st_type s = St_forward then g\<lparr>pg_mappings := pg_mappings g @ [k]\<rparr> else g)
        in if st_type s = St_forward \<or> st_type s = St_policy then g\<lparr>pg_policies := pg_policies g @ [k]\<rparr> else g
      else
        let g = (if st_type s = St_mapping \<and> pg_fallback g = None then
                   (if la_any (ep_label (st_input s)) then g\<lparr>pg_fallback := Some k, pg_mappings := pg_mappings g @ [k]\<rparr>
                    else if map_of (pg_exact g) (la_value (ep_label (st_input s))) = None
                    then g\<lparr>pg_exact := pg_exact g @ [(la_value (ep_label (st_input s)), k)], pg_mappings := pg_mappings g @ [k]\<rparr>
                    else g)
                 else g)
        in if st_type s = St_policy then g\<lparr>pg_policies := pg_policies g @ [k]\<rparr> else g)"

fun compile_loop :: "string \<Rightarrow> nat \<Rightarrow> rule_statement list \<Rightarrow> rules_program \<Rightarrow> rules_program" where
  "compile_loop port k [] g = g"
| "compile_loop port k (s # ss) g = compile_loop port (k + 1) ss (compile_statement port k s g)"

definition RulesProgram :: "switch_ruleset \<Rightarrow> string \<Rightarrow> rules_program" where
  "RulesProgram rules port = compile_loop port 0 (ru_statements rules) (program_init (ru_format rules))"

definition mapping_label :: "rules_program \<Rightarrow> u64 \<Rightarrow> nat option" where
  "mapping_label g label = (case map_of (pg_exact g) label of None \<Rightarrow> pg_fallback g | Some k \<Rightarrow> Some k)"

definition mapping_frame :: "switch_ruleset \<Rightarrow> rules_program \<Rightarrow> switch_frame_view \<Rightarrow> nat option result" where
  "mapping_frame rules g frame =
     (if pg_format g = 1 then (case view_label frame 0 of Inl e \<Rightarrow> Inl e | Inr l \<Rightarrow> Inr (mapping_label g l))
      else Inr (find (\<lambda>k. let s = ru_statements rules ! k in
          stack_matches (ep_match (st_input s)) (view_stack frame) \<and>
          (st_type s = St_forward \<or> ep_port (st_output s) = ''*'' \<and> unrestricted (ep_match (st_output s)))) (pg_policies g)))"

definition allowed_label :: "switch_ruleset \<Rightarrow> rules_program \<Rightarrow> u64 \<Rightarrow> string \<Rightarrow> u64 \<Rightarrow> bool" where
  "allowed_label rules g in_label port out_label =
     (case find (\<lambda>k. let s = ru_statements rules ! k in
          label_matches (ep_label (st_input s)) in_label \<and> label_matches (ep_label (st_output s)) out_label \<and>
          route_port_matches (ep_port (st_output s)) port) (pg_policies g) of
        None \<Rightarrow> False
      | Some k \<Rightarrow> st_allow (ru_statements rules ! k))"

fun allowed_loop :: "switch_ruleset \<Rightarrow> nat list \<Rightarrow> nat option \<Rightarrow> u64 list \<Rightarrow> string \<Rightarrow> u64 list \<Rightarrow> bool" where
  "allowed_loop rules [] selected labels port out = False"
| "allowed_loop rules (k # ks) selected labels port out =
     (let s = ru_statements rules ! k in
      if Some k = selected then True
      else if st_type s = St_policy \<and> stack_matches (ep_match (st_input s)) labels \<and> route_port_matches (ep_port (st_output s)) port \<and>
              stack_matches (ep_match (st_output s)) out then False
      else allowed_loop rules ks selected labels port out)"

text \<open>The rewritten labels \<open>out\<close> are never empty: they come from \<open>stack_apply\<close>.\<close>

definition allowed_frame :: "switch_ruleset \<Rightarrow> rules_program \<Rightarrow> nat option \<Rightarrow> switch_frame_view \<Rightarrow> string \<Rightarrow> u64 list \<Rightarrow> bool result" where
  "allowed_frame rules g selected frame port out =
     (if pg_format g = 1 then (case view_label frame 0 of Inl e \<Rightarrow> Inl e | Inr l \<Rightarrow> Inr (allowed_label rules g l port (out ! 0)))
      else Inr (allowed_loop rules (pg_policies g) selected (view_stack frame) port out))"

text \<open>
  The frame's bytes are edited in place at the start of a buffer, and \<open>frame\<close> is the view of its
  current content: the payload starts after the labels the view counts.
\<close>

definition overwrite :: "'a list \<Rightarrow> nat \<Rightarrow> 'a list \<Rightarrow> 'a list" where
  "overwrite xs at ys = take at xs @ ys @ drop (at + length ys) xs"

fun store_label_loop :: "nat \<Rightarrow> u64 list \<Rightarrow> bytes \<Rightarrow> bytes" where
  "store_label_loop i [] data = data"
| "store_label_loop i (l # ls) data =
     store_label_loop (i + 1) ls (overwrite data (switch_base_header_size + i * switch_label_size) (store_be64 l))"

definition rewrite_rules_frame :: "bytes \<Rightarrow> switch_frame_view \<Rightarrow> u64 list \<Rightarrow> bool \<Rightarrow> bytes \<times> nat" where
  "rewrite_rules_frame data frame labels exit =
     (let count = length labels;
          header = switch_base_header_size + count * switch_label_size;
          payload_at = switch_base_header_size + sv_label_count frame * switch_label_size;
          data = overwrite data header (slice payload_at (length (sv_payload frame)) data);
          data = store_label_loop 0 labels data;
          data = data[1 := if exit then exit_packet else switch_packet];
          data = data[3 := of_nat count];
          n = header + length (sv_payload frame)
      in (overwrite data 4 (store_be32 (of_nat n)), n))"

definition ruleset_changed :: "switch_ruleset option \<Rightarrow> switch_ruleset \<Rightarrow> bool result" where
  "ruleset_changed current new =
     (case current of
        None \<Rightarrow> Inr True
      | Some cur \<Rightarrow>
          if ru_serial new < ru_serial cur then Inl (Runtime_error ''serial is older than the active ruleset'')
          else if ru_serial new = ru_serial cur then
            (case ruleset_text new of
               Inl e \<Rightarrow> Inl e
             | Inr a \<Rightarrow>
                 case ruleset_text cur of
                   Inl e \<Rightarrow> Inl e
                 | Inr b \<Rightarrow> if a \<noteq> b then Inl (Runtime_error ''different configuration with the same serial'') else Inr False)
          else Inr True)"

end
