(* ===== verification/Ruleset_Correct.thy ===== *)
theory Ruleset_Correct
  imports Ruleset
begin

text \<open>
  What the rules of a switch do: rewriting a stack stays inside its array, the reverse of a
  rule restores the labels, and a compiled program decides as the first rule of the file that
  applies.
\<close>

subsection \<open>Rewriting stacks\<close>

definition rewritten :: "rule_stack \<Rightarrow> u64 list \<Rightarrow> u64 list" where
  "rewritten st L = map (\<lambda>i. if si_keep (rs_items st ! i) then L ! i else si_value (rs_items st ! i)) [0..<length (rs_items st)] @
     (if rs_rest st then drop (length (rs_items st)) L else [])"

definition keeps_inside :: "rule_stack \<Rightarrow> u64 list \<Rightarrow> bool" where
  "keeps_inside st L \<longleftrightarrow> (\<forall>i < length (rs_items st). si_keep (rs_items st ! i) \<longrightarrow> i < length L)"

lemma apply_items_eq:
  assumes "i + length its \<le> switch_max_labels"
  shows "apply_items i its L out =
    Some (if \<forall>j < length its. si_keep (its ! j) \<longrightarrow> i + j < length L
          then Some (out @ map (\<lambda>j. if si_keep (its ! j) then L ! (i + j) else si_value (its ! j)) [0..<length its]) else None)"
  using assms
proof (induction its arbitrary: i out)
  case (Cons it its)
  have split: "(\<forall>j < length (it # its). si_keep ((it # its) ! j) \<longrightarrow> i + j < length L) \<longleftrightarrow>
      (si_keep it \<longrightarrow> i < length L) \<and> (\<forall>j < length its. si_keep (its ! j) \<longrightarrow> Suc i + j < length L)"
    by (auto simp: less_Suc_eq_0_disj)
  have map: "map (\<lambda>j. if si_keep ((it # its) ! j) then L ! (i + j) else si_value ((it # its) ! j)) [0..<length (it # its)] =
      (if si_keep it then L ! i else si_value it) # map (\<lambda>j. if si_keep (its ! j) then L ! (Suc i + j) else si_value (its ! j)) [0..<length its]"
    by (simp add: upt_conv_Cons map_Suc_upt [symmetric] del: upt_Suc)
  show ?case
    unfolding split map using Cons.prems Cons.IH [of "Suc i"] by auto
qed simp

lemma apply_rest_eq: "length out + length ls \<le> switch_max_labels \<Longrightarrow> apply_rest ls out = Some (out @ ls)"
  by (induction ls arbitrary: out) auto

lemma length_rewritten:
  "length (rewritten st L) = length (rs_items st) + (if rs_rest st then length L - length (rs_items st) else 0)"
  by (simp add: rewritten_def)

lemma nth_rewritten:
  "i < length (rewritten st L) \<Longrightarrow> rewritten st L ! i =
     (if i < length (rs_items st) \<and> \<not> si_keep (rs_items st ! i) then si_value (rs_items st ! i) else L ! i)"
  by (auto simp: rewritten_def nth_append split: if_splits)

lemma stack_apply_eq:
  assumes "length (rs_items st) \<le> switch_max_labels" "length L \<le> switch_max_labels"
  shows "stack_apply st L = Some (if keeps_inside st L \<and> rewritten st L \<noteq> [] then Some (rewritten st L) else None)"
proof -
  have bound: "length (rewritten st L) \<le> switch_max_labels"
    using assms by (auto simp: length_rewritten)
  have items: "apply_items 0 (rs_items st) L [] = Some (if keeps_inside st L
      then Some (map (\<lambda>i. if si_keep (rs_items st ! i) then L ! i else si_value (rs_items st ! i)) [0..<length (rs_items st)]) else None)"
    using apply_items_eq [of 0 "rs_items st" L "[]"] assms(1) by (simp add: keeps_inside_def)
  show ?thesis
  proof (cases "keeps_inside st L")
    case True
    then show ?thesis
      using bound by (auto simp: stack_apply_def items rewritten_def apply_rest_eq)
  qed (simp add: stack_apply_def items)
qed

subsection \<open>Reverse rules\<close>

lemma reverse_match_loop_Inr:
  "reverse_match_loop is S R = Inr es \<Longrightarrow>
     es = map (\<lambda>i. if i < length (rs_items R) \<and> \<not> si_keep (rs_items R ! i)
       then \<lparr>el_kind = Kind_exact, el_value = si_value (rs_items R ! i), el_upper = 0\<rparr>
       else if i < length (sm_items S) then sm_items S ! i else element_init) is \<and>
     (\<forall>i \<in> set is. sm_rest S \<or> i < length (sm_items S) \<or> i < length (rs_items R) \<and> \<not> si_keep (rs_items R ! i))"
  by (induction "is" arbitrary: es) (auto simp: Let_def split: if_splits sum.splits)

lemma reverse_stack_loop_Inr:
  "reverse_stack_loop is S R = Inr its \<Longrightarrow>
     its = map (\<lambda>i. if el_kind (sm_items S ! i) = Kind_exact then \<lparr>si_keep = False, si_value = el_value (sm_items S ! i)\<rparr>
       else \<lparr>si_keep = True, si_value = 0\<rparr>) is \<and>
     (\<forall>i \<in> set is. el_kind (sm_items S ! i) = Kind_exact \<or>
       (if i < length (rs_items R) then si_keep (rs_items R ! i) else rs_rest R))"
  by (induction "is" arbitrary: its) (auto simp: Let_def split: if_splits sum.splits)

text \<open>Where a rule drops no label that its source does not name.\<close>

definition names_dropped :: "stack_match \<Rightarrow> rule_stack \<Rightarrow> bool" where
  "names_dropped S R \<longleftrightarrow> \<not> sm_rest S \<or>
     rs_rest R \<and> list_all si_keep (drop (length (sm_items S)) (rs_items R))"

lemma names_dropped_keep:
  "names_dropped S R \<Longrightarrow> sm_rest S \<Longrightarrow> length (sm_items S) \<le> i \<Longrightarrow> i < length (rs_items R) \<Longrightarrow> si_keep (rs_items R ! i)"
  by (auto simp: names_dropped_def list_all_length dest!: spec [of _ "i - length (sm_items S)"])

lemma reverse_shape:
  assumes "reverse_forward_rule s = Inr r"
  defines "S \<equiv> ep_match (st_input s)" and "R \<equiv> st_stack s"
  defines "count \<equiv> if rs_rest R then max (length (sm_items S)) (length (rs_items R)) else length (rs_items R)"
  shows "length (sm_items (ep_match (st_input r))) = count" "sm_rest (ep_match (st_input r)) \<longleftrightarrow> sm_rest S \<and> rs_rest R"
    and "i < count \<Longrightarrow> sm_items (ep_match (st_input r)) ! i =
      (if i < length (rs_items R) \<and> \<not> si_keep (rs_items R ! i) then \<lparr>el_kind = Kind_exact, el_value = si_value (rs_items R ! i), el_upper = 0\<rparr>
       else if i < length (sm_items S) then sm_items S ! i else element_init)"
    and "length (rs_items (st_stack r)) = length (sm_items S)" "rs_rest (st_stack r) \<longleftrightarrow> sm_rest S \<and> rs_rest R"
    and "i < length (sm_items S) \<Longrightarrow> rs_items (st_stack r) ! i = (if el_kind (sm_items S ! i) = Kind_exact
       then \<lparr>si_keep = False, si_value = el_value (sm_items S ! i)\<rparr> else \<lparr>si_keep = True, si_value = 0\<rparr>)"
    and "i < length (sm_items S) \<Longrightarrow> el_kind (sm_items S ! i) \<noteq> Kind_exact \<Longrightarrow>
      (if i < length (rs_items R) then si_keep (rs_items R ! i) else rs_rest R)"
proof -
  obtain es its where es: "reverse_match_loop [0..<count] S R = Inr es" and its: "reverse_stack_loop [0..<length (sm_items S)] S R = Inr its"
    and r: "ep_match (st_input r) = \<lparr>sm_items = es, sm_rest = sm_rest S \<and> rs_rest R\<rparr>" "st_stack r = \<lparr>rs_items = its, rs_rest = sm_rest S \<and> rs_rest R\<rparr>"
    using assms(1) unfolding count_def S_def R_def by (auto simp: reverse_forward_rule_def Let_def split: sum.splits)
  note loops = reverse_match_loop_Inr [OF es] reverse_stack_loop_Inr [OF its]
  show "length (sm_items (ep_match (st_input r))) = count" "sm_rest (ep_match (st_input r)) \<longleftrightarrow> sm_rest S \<and> rs_rest R"
    "length (rs_items (st_stack r)) = length (sm_items S)" "rs_rest (st_stack r) \<longleftrightarrow> sm_rest S \<and> rs_rest R"
    using loops by (simp_all add: r)
  show "i < count \<Longrightarrow> sm_items (ep_match (st_input r)) ! i =
      (if i < length (rs_items R) \<and> \<not> si_keep (rs_items R ! i) then \<lparr>el_kind = Kind_exact, el_value = si_value (rs_items R ! i), el_upper = 0\<rparr>
       else if i < length (sm_items S) then sm_items S ! i else element_init)"
    using loops(1) by (simp add: r)
  show "i < length (sm_items S) \<Longrightarrow> rs_items (st_stack r) ! i = (if el_kind (sm_items S ! i) = Kind_exact
       then \<lparr>si_keep = False, si_value = el_value (sm_items S ! i)\<rparr> else \<lparr>si_keep = True, si_value = 0\<rparr>)"
    using loops(2) by (simp add: r)
  show "i < length (sm_items S) \<Longrightarrow> el_kind (sm_items S ! i) \<noteq> Kind_exact \<Longrightarrow>
      (if i < length (rs_items R) then si_keep (rs_items R ! i) else rs_rest R)"
    using loops(2) by auto
qed

text \<open>The rewritten stack is as long as the original where the rule keeps the rest, and as long as the rule says otherwise.\<close>

lemma rewritten_length:
  assumes "names_dropped S R" "stack_matches S L" "keeps_inside R L"
  defines "count \<equiv> if rs_rest R then max (length (sm_items S)) (length (rs_items R)) else length (rs_items R)"
  shows "length (rewritten R L) = (if sm_rest S then length L else count)" "sm_rest S \<Longrightarrow> count \<le> length L"
proof -
  have L: "length (sm_items S) \<le> length L" "\<not> sm_rest S \<Longrightarrow> length L = length (sm_items S)"
    using assms(2) by (auto simp: stack_matches_iff)
  have small: "length (rs_items R) \<le> length L" if "sm_rest S"
    using names_dropped_keep [OF assms(1) that L(1)] assms(3) by (auto simp: keeps_inside_def not_le [symmetric])
  show "sm_rest S \<Longrightarrow> count \<le> length L"
    using small L(1) by (simp add: count_def)
  show "length (rewritten R L) = (if sm_rest S then length L else count)"
    using small L assms(1) by (auto simp: length_rewritten names_dropped_def count_def)
qed

lemma reverse_restores:
  assumes rev: "reverse_forward_rule s = Inr r" and names: "names_dropped (ep_match (st_input s)) (st_stack s)"
    and L: "stack_matches (ep_match (st_input s)) L" "keeps_inside (st_stack s) L"
  shows "stack_matches (ep_match (st_input r)) (rewritten (st_stack s) L)" (is ?match)
    and "keeps_inside (st_stack r) (rewritten (st_stack s) L)" (is ?inside)
    and "rewritten (st_stack r) (rewritten (st_stack s) L) = L" (is ?restore)
proof -
  let ?S = "ep_match (st_input s)" and ?R = "st_stack s"
  let ?n = "length (sm_items ?S)" and ?m = "length (rs_items ?R)" and ?O = "rewritten ?R L"
  note r = reverse_shape [OF rev]
  note len = rewritten_length [OF names L]
  have L': "?n \<le> length L" "\<not> sm_rest ?S \<Longrightarrow> length L = ?n" "\<And>i. i < ?n \<Longrightarrow> element_matches (sm_items ?S ! i) (L ! i)"
    using L(1) by (auto simp: stack_matches_iff)
  have rests: "sm_rest ?S \<Longrightarrow> rs_rest ?R"
    using names by (auto simp: names_dropped_def)
  have count: "length (sm_items (ep_match (st_input r))) \<le> length ?O"
    "sm_rest (ep_match (st_input r)) \<or> length ?O = length (sm_items (ep_match (st_input r)))"
    using len rests by (auto simp: r(1,2))
  have "element_matches (sm_items (ep_match (st_input r)) ! i) (?O ! i)" if "i < length (sm_items (ep_match (st_input r)))" for i
    using that nth_rewritten [of i ?R L] count(1) L'(3) [of i] r(3) [of i]
    by (auto simp: r(1) element_matches_def element_init_def)
  with count show ?match
    by (simp add: stack_matches_iff)
  have same: "i < length ?O \<and> ?O ! i = L ! i" if i: "i < ?n" "el_kind (sm_items ?S ! i) \<noteq> Kind_exact" for i
  proof -
    have "i < length ?O"
      using r(7) [OF i] count(1) i(1) by (auto simp: r(1) split: if_splits)
    then show ?thesis
      using r(7) [OF i] by (auto simp: nth_rewritten)
  qed
  show ?inside
    unfolding keeps_inside_def using r(4,6) same by (auto split: if_splits)
  have total: "length (rewritten (st_stack r) ?O) = length L"
    using rests L'(1,2) by (auto simp: length_rewritten [of "st_stack r"] r(4,5) len(1))
  show ?restore
  proof (rule nth_equalityI [OF total])
    fix i assume i: "i < length (rewritten (st_stack r) ?O)"
    show "rewritten (st_stack r) ?O ! i = L ! i"
    proof (cases "i < ?n")
      case True
      then show ?thesis
        using same [OF True] L'(3) [OF True] r(6) [OF True] by (auto simp: nth_rewritten [OF i] r(4) element_matches_def)
    next
      case False
      then have "sm_rest ?S"
        using i total L'(2) by auto
      then show ?thesis
        using False i total names_dropped_keep [OF names] by (auto simp: nth_rewritten [OF i] r(4) nth_rewritten [of i ?R] len(1))
    qed
  qed
qed

text \<open>
  C14. A bidirectional rule whose rewrite drops no label that its source does not name is
  restored by its reverse. Whatever stack the rule applies to, the reverse rule applies to the
  rewritten stack, and rewriting that gives the original labels; the ports are exchanged.
\<close>

theorem bidir_restores:
  assumes "reverse_forward_rule s = Inr r" "names_dropped (ep_match (st_input s)) (st_stack s)"
    and "length (sm_items (ep_match (st_input s))) \<le> switch_max_labels" "length (rs_items (st_stack s)) \<le> switch_max_labels"
    and "length L \<le> switch_max_labels" "L \<noteq> []" "stack_matches (ep_match (st_input s)) L" "stack_apply (st_stack s) L = Some (Some out)"
  shows "stack_matches (ep_match (st_input r)) out \<and> stack_apply (st_stack r) out = Some (Some L) \<and>
    ep_port (st_input r) = ep_port (st_output s) \<and> ep_port (st_output r) = ep_port (st_input s)"
proof -
  have out: "keeps_inside (st_stack s) L" "out = rewritten (st_stack s) L" "length out \<le> switch_max_labels"
    using assms(4,5,8) by (auto simp: stack_apply_eq length_rewritten split: if_splits)
  note restored = reverse_restores [OF assms(1,2,7) out(1)]
  have "ep_port (st_input r) = ep_port (st_output s)" "ep_port (st_output r) = ep_port (st_input s)"
    using assms(1) by (auto simp: reverse_forward_rule_def Let_def split: sum.splits)
  moreover have "stack_apply (st_stack r) out = Some (Some L)"
    using restored(2,3) reverse_shape(4) [OF assms(1)] assms(3,6) out(2,3) by (subst stack_apply_eq) auto
  ultimately show ?thesis
    using restored(1) out(2) by simp
qed

text \<open>A rule from \<open>a\<close> to \<open>b\<close> that takes the stacks \<open>[5, *]\<close> to \<open>[9, *]\<close>.\<close>

theorem bidir_restores_witness:
  "\<exists>r. reverse_forward_rule (statement_init\<lparr>st_input := endpoint_init\<lparr>ep_port := ''a'', ep_match := \<lparr>sm_items = [\<lparr>el_kind = Kind_exact, el_value = 5, el_upper = 0\<rparr>, element_init], sm_rest = False\<rparr>\<rparr>,
       st_output := endpoint_init\<lparr>ep_port := ''b''\<rparr>, st_stack := \<lparr>rs_items = [\<lparr>si_keep = False, si_value = 9\<rparr>, \<lparr>si_keep = True, si_value = 0\<rparr>], rs_rest = False\<rparr>\<rparr>) = Inr r \<and>
     stack_matches (ep_match (st_input r)) [9, 7] \<and> stack_apply (st_stack r) [9, 7] = Some (Some [5, 7])"
proof -
  define s where "s = statement_init\<lparr>st_input := endpoint_init\<lparr>ep_port := ''a'', ep_match := \<lparr>sm_items = [\<lparr>el_kind = Kind_exact, el_value = 5, el_upper = 0\<rparr>, element_init], sm_rest = False\<rparr>\<rparr>,
       st_output := endpoint_init\<lparr>ep_port := ''b''\<rparr>, st_stack := \<lparr>rs_items = [\<lparr>si_keep = False, si_value = 9\<rparr>, \<lparr>si_keep = True, si_value = 0\<rparr>], rs_rest = False\<rparr>\<rparr>"
  obtain r where r: "reverse_forward_rule s = Inr r"
    by (simp add: s_def reverse_forward_rule_def element_init_def upt_rec)
  have "stack_matches (ep_match (st_input r)) [9, 7] \<and> stack_apply (st_stack r) [9, 7] = Some (Some [5, 7]) \<and>
      ep_port (st_input r) = ep_port (st_output s) \<and> ep_port (st_output r) = ep_port (st_input s)"
    by (rule bidir_restores [OF r]) (simp_all add: s_def names_dropped_def switch_sizes stack_matches_def element_matches_def element_init_def
        stack_apply_def upt_rec)
  with r show ?thesis
    by (auto simp: s_def)
qed

text \<open>
  The hypothesis on the labels is needed, as \<open>docs/SWITCH_RULESET_V2.md\<close> says of the shorthand
  in general: a rule from the stacks \<open>[*, ...]\<close> to \<open>[*, 5, ...]\<close> has a reverse, which does not
  restore the second label.
\<close>

lemma bidir_may_lose:
  defines "s \<equiv> statement_init\<lparr>st_stack := \<lparr>rs_items = [\<lparr>si_keep = True, si_value = 0\<rparr>, \<lparr>si_keep = False, si_value = 5\<rparr>], rs_rest = True\<rparr>\<rparr>"
  shows "\<exists>r. reverse_forward_rule s = Inr r \<and> stack_matches (ep_match (st_input s)) [1, 2] \<and> stack_apply (st_stack s) [1, 2] = Some (Some [1, 5]) \<and>
    stack_matches (ep_match (st_input r)) [1, 5] \<and> stack_apply (st_stack r) [1, 5] = Some (Some [1, 5])"
  by (simp add: s_def reverse_forward_rule_def statement_init_def endpoint_init_def stack_match_init_def element_init_def
      stack_matches_def element_matches_def stack_apply_def switch_sizes upt_rec)

subsection \<open>Programs\<close>

text \<open>The statements a program of an ingress port considers, and when it takes one of them.\<close>

definition considers :: "nat \<Rightarrow> string \<Rightarrow> rule_statement \<Rightarrow> bool" where
  "considers fmt port s \<longleftrightarrow> route_port_matches (ep_port (st_input s)) port \<and>
     (if fmt \<ge> 2 then st_type s = St_forward \<or> st_type s = St_policy else st_type s = St_mapping)"

definition selects :: "nat \<Rightarrow> u64 list \<Rightarrow> rule_statement \<Rightarrow> bool" where
  "selects fmt labels s \<longleftrightarrow>
     (if fmt \<ge> 2 then stack_matches (ep_match (st_input s)) labels \<and>
        (st_type s = St_forward \<or> ep_port (st_output s) = ''*'' \<and> unrestricted (ep_match (st_output s)))
      else label_matches (ep_label (st_input s)) (hd labels))"

lemma compile_format [simp]: "pg_format (compile_statement port k s g) = pg_format g" "pg_format (compile_loop port k ss g) = pg_format g"
proof -
  show *: "pg_format (compile_statement port k s g) = pg_format g" for k s g
    by (simp add: compile_statement_def Let_def)
  show "pg_format (compile_loop port k ss g) = pg_format g"
    by (induction ss arbitrary: k g) (simp_all add: *)
qed

definition decides :: "nat \<Rightarrow> string \<Rightarrow> rule_statement \<Rightarrow> bool" where
  "decides fmt port s \<longleftrightarrow> route_port_matches (ep_port (st_input s)) port \<and> (st_type s = St_policy \<or> fmt \<ge> 2 \<and> st_type s = St_forward)"

lemma compile_statement_policies:
  "pg_policies (compile_statement port k s g) = pg_policies g @ (if decides (pg_format g) port s then [k] else [])"
  by (simp add: compile_statement_def decides_def Let_def)

lemma upt_next: "[k..<k + length (s # ss)] = k # [Suc k..<Suc k + length ss]"
  by (simp add: upt_conv_Cons del: upt_Suc)

lemma compile_policies:
  "pg_policies (compile_loop port k ss g) = pg_policies g @ filter (\<lambda>j. decides (pg_format g) port (ss ! (j - k))) [k..<k + length ss]"
proof (induction ss arbitrary: k g)
  case (Cons s ss)
  have "filter (\<lambda>j. decides (pg_format g) port ((s # ss) ! (j - k))) [Suc k..<Suc k + length ss] =
      filter (\<lambda>j. decides (pg_format g) port (ss ! (j - Suc k))) [Suc k..<Suc k + length ss]"
    by (rule filter_cong) (auto simp: nth_Cons')
  then show ?case
    unfolding upt_next filter.simps(2) compile_loop.simps Suc_eq_plus1 [symmetric] Cons.IH by (simp add: compile_statement_policies)
qed simp

text \<open>The label index of a format-1 program answers as a scan of the mappings in file order.\<close>

lemma compile_mapping:
  assumes "pg_format g < 2"
  shows "mapping_label (compile_loop port k ss g) l =
    (if mapping_label g l \<noteq> None then mapping_label g l
     else find (\<lambda>j. considers (pg_format g) port (ss ! (j - k)) \<and> label_matches (ep_label (st_input (ss ! (j - k)))) l) [k..<k + length ss])"
  using assms
proof (induction ss arbitrary: k g)
  case Nil
  then show ?case
    by simp
next
  case (Cons s ss)
  have find: "find (\<lambda>j. P ((s # ss) ! (j - k))) [k..<k + length (s # ss)] =
      (if P s then Some k else find (\<lambda>j. P (ss ! (j - Suc k))) [Suc k..<Suc k + length ss])" for P
  proof -
    have "find (\<lambda>j. P ((s # ss) ! (j - k))) [Suc k..<Suc k + length ss] = find (\<lambda>j. P (ss ! (j - Suc k))) [Suc k..<Suc k + length ss]"
      by (rule find_cong) (auto simp: nth_Cons')
    then show ?thesis
      unfolding upt_next by simp
  qed
  have step: "mapping_label (compile_statement port k s g) l =
      (if mapping_label g l \<noteq> None then mapping_label g l
       else if considers (pg_format g) port s \<and> label_matches (ep_label (st_input s)) l then Some k else None)"
    using Cons.prems
    by (auto simp: compile_statement_def mapping_label_def considers_def label_matches_def Let_def split: option.splits)
  show ?case
    using Cons.IH [of "compile_statement port k s g" "Suc k"] Cons.prems
    by (simp add: step find [of "\<lambda>s. considers (pg_format g) port s \<and> label_matches (ep_label (st_input s)) l"] del: upt_Suc list.size(4))
qed

lemma program_policies:
  "pg_policies (RulesProgram rules port) = filter (\<lambda>k. decides (ru_format rules) port (ru_statements rules ! k)) [0..<length (ru_statements rules)]"
  by (simp add: RulesProgram_def compile_policies program_init_def)

lemma program_format [simp]: "pg_format (RulesProgram rules port) = ru_format rules"
  by (simp add: RulesProgram_def program_init_def)

lemma program_mapping:
  "ru_format rules < 2 \<Longrightarrow> mapping_label (RulesProgram rules port) l =
     find (\<lambda>k. considers (ru_format rules) port (ru_statements rules ! k) \<and> label_matches (ep_label (st_input (ru_statements rules ! k))) l)
       [0..<length (ru_statements rules)]"
  using compile_mapping [of "program_init (ru_format rules)" port 0 "ru_statements rules" l]
  by (simp add: RulesProgram_def program_init_def mapping_label_def)

lemma find_filter: "find P (filter Q xs) = find (\<lambda>x. Q x \<and> P x) xs"
  by (induction xs) auto

text \<open>A statement that forbids a stack at an egress port.\<close>

definition forbids :: "u64 list \<Rightarrow> string \<Rightarrow> u64 list \<Rightarrow> rule_statement \<Rightarrow> bool" where
  "forbids labels port out s \<longleftrightarrow> st_type s = St_policy \<and> stack_matches (ep_match (st_input s)) labels \<and>
     route_port_matches (ep_port (st_output s)) port \<and> stack_matches (ep_match (st_output s)) out"

lemma allowed_loop_iff:
  "allowed_loop rules ks (Some k) labels port out \<longleftrightarrow>
     k \<in> set ks \<and> (\<forall>j \<in> set (takeWhile (\<lambda>j. j \<noteq> k) ks). \<not> forbids labels port out (ru_statements rules ! j))"
  by (induction ks) (auto simp: forbids_def Let_def)

lemma takeWhile_filter_upt:
  "k < n \<Longrightarrow> Q k \<Longrightarrow> set (takeWhile (\<lambda>j. j \<noteq> k) (filter Q [0..<n])) = {j. j < k \<and> Q j}"
proof -
  assume k: "k < n" "Q k"
  then have "[0..<n] = [0..<k] @ k # [Suc k..<n]"
    using upt_add_eq_append [of 0 k "n - k"] by (simp add: upt_conv_Cons)
  with k(2) show ?thesis
    by (subst \<open>[0..<n] = _\<close>, subst filter_append, subst takeWhile_append2) auto
qed



subsection \<open>Rewriting frames\<close>

lemma length_overwrite [simp]: "at + length ys \<le> length xs \<Longrightarrow> length (overwrite xs at ys) = length xs"
  by (simp add: overwrite_def)

lemma store_label_loop_eq:
  assumes "length us = 8 + i * 8" "length vs = length ls * 8"
  shows "store_label_loop i ls (us @ vs @ ws) = us @ store_labels ls @ ws"
  using assms
proof (induction ls arbitrary: i us vs)
  case (Cons l ls)
  let ?w = "drop 8 vs"
  have "overwrite (us @ vs @ ws) (8 + i * 8) (store_be64 l) = (us @ store_be64 l) @ ?w @ ws"
    using Cons.prems by (simp add: overwrite_def)
  moreover have "store_label_loop (i + 1) ls ((us @ store_be64 l) @ ?w @ ws) = (us @ store_be64 l) @ store_labels ls @ ws"
    using Cons.prems by (intro Cons.IH) simp_all
  ultimately show ?case
    by (simp add: switch_sizes)
qed simp

text \<open>
  C28. Rewriting a frame in its buffer changes the labels and the opcode and nothing else. With
  room for the new header and the payload, the result is a frame with the new labels, the
  opcode asked for and the payload of the original, whether the header grew or shrank, and no
  byte after it is touched.
\<close>

theorem rewrite_frame:
  assumes "decode_switch_frame (take n data) = Some frame" "n \<le> length data" "labels \<noteq> []" "length labels \<le> switch_max_labels"
    and "8 + 8 * length labels + length (sv_payload frame) \<le> length data" "length data \<le> 0xffffffff"
    and "rewrite_rules_frame data frame labels exit = (data', n')"
  shows "decode_frame (take n' data') = Some \<lparr>sf_opcode = if exit then exit_packet else switch_packet, sf_labels = labels, sf_payload = sv_payload frame\<rparr> \<and>
    length data' = length data \<and> drop n' data' = drop n' data"
proof -
  let ?p = "sv_payload frame" and ?h = "8 + length labels * 8"
  let ?op = "if exit then exit_packet else switch_packet :: u8"
  let ?f = "\<lparr>sf_opcode = ?op, sf_labels = labels, sf_payload = ?p\<rparr>"
  have view: "?p = drop (8 + sv_label_count frame * 8) (take n data)" "?p \<noteq> []" "take n data ! 0 = 1" "take n data ! 2 = 0" "8 \<le> n"
    using assms(1,2) by (auto simp: decode_switch_frame_def Let_def switch_sizes split: if_splits)
  then have at: "slice (8 + sv_label_count frame * 8) (length ?p) data = ?p"
    using assms(2) by (simp add: slice_def drop_take)
  have valid: "valid_frame ?f"
    using assms(3-6) view(2) by (auto simp: valid_frame_def frame_size_def switch_sizes Suc_le_eq)
  define us where "us = take 8 data"
  obtain b1 b3 t where us: "us = [1, b1, 0, b3] @ t" "length t = 4"
  proof -
    have "length us = 8" "us ! 0 = 1" "us ! 2 = 0"
      using view(3-5) assms(2) by (simp_all add: us_def)
    then show ?thesis
      by (intro that [of "us ! 1" "us ! 3" "drop 4 us"]) (auto intro!: nth_equalityI simp: nth_append less_Suc_eq numeral_eq_Suc nth_Cons' split: if_splits)
  qed
  define vs where "vs = slice 8 (length labels * 8) data"
  define ws where "ws = drop (?h + length ?p) data"
  have "take ?h data = us @ vs"
    by (simp add: us_def vs_def slice_def take_add)
  then have moved: "overwrite data ?h ?p = us @ vs @ ?p @ ws"
    by (simp add: overwrite_def ws_def)
  have "length us = 8 + 0 * 8" "length vs = length labels * 8"
    using assms(5) us by (simp_all add: vs_def)
  from store_label_loop_eq [OF this] have stored: "store_label_loop 0 labels (us @ vs @ ?p @ ws) = us @ store_labels labels @ ?p @ ws" .
  have "rewrite_rules_frame data frame labels exit =
      ([1, ?op, 0, of_nat (length labels)] @ store_be32 (of_nat (?h + length ?p)) @ store_labels labels @ ?p @ ws, ?h + length ?p)"
    unfolding rewrite_rules_frame_def Let_def switch_sizes at moved stored
    using us(2) by (simp add: us(1) overwrite_def)
  then have result: "data' = frame_bytes ?f @ ws" "n' = length (frame_bytes ?f)"
    using assms(7) by (simp_all add: frame_bytes_valid [OF valid] frame_size_def mult.commute)
  moreover have "drop n' data = ws"
    using result(2) by (simp add: frame_bytes_valid [OF valid] ws_def mult.commute add.assoc)
  moreover have "length data' = length data"
    using result(1) assms(5) by (simp add: frame_bytes_valid [OF valid] ws_def)
  ultimately show ?thesis
    using switch_frames.dec_enc [OF valid] by simp
qed

text \<open>A frame with one label in a buffer of 32 bytes that leaves with two labels.\<close>

theorem rewrite_frame_witness:
  "\<exists>frame data' n'. decode_switch_frame (take 17 (frame_bytes \<lparr>sf_opcode = 1, sf_labels = [5], sf_payload = [9]\<rparr> @ replicate 15 0)) = Some frame \<and>
     rewrite_rules_frame (frame_bytes \<lparr>sf_opcode = 1, sf_labels = [5], sf_payload = [9]\<rparr> @ replicate 15 0) frame [7, 8] True = (data', n') \<and>
     decode_frame (take n' data') = Some \<lparr>sf_opcode = 2, sf_labels = [7, 8], sf_payload = [9]\<rparr>"
proof -
  let ?f = "\<lparr>sf_opcode = 1, sf_labels = [5], sf_payload = [9]\<rparr> :: switch_frame"
  let ?data = "frame_bytes ?f @ replicate 15 0"
  have "valid_frame ?f"
    by (simp add: valid_frame_def frame_size_def)
  then have f: "decode_frame (frame_bytes ?f) = Some ?f" "length (frame_bytes ?f) = 17"
    using switch_frames.dec_enc [of ?f] by (simp_all add: frame_bytes_valid)
  then obtain frame where frame: "decode_switch_frame (take 17 ?data) = Some frame" "sv_payload frame = [9]"
    by (auto simp: decode_frame_def frame_of_view_def)
  obtain data' n' where run: "rewrite_rules_frame ?data frame [7, 8] True = (data', n')"
    by fastforce
  have "decode_frame (take n' data') = Some \<lparr>sf_opcode = if True then exit_packet else switch_packet, sf_labels = [7, 8], sf_payload = sv_payload frame\<rparr> \<and>
      length data' = length ?data \<and> drop n' data' = drop n' ?data"
    using frame(2) f(2) by (intro rewrite_frame [OF frame(1) _ _ _ _ _ run]) (simp_all add: switch_sizes)
  then show ?thesis
    using frame run by (intro exI [of _ frame] exI [of _ data'] exI [of _ n']) (simp add: switch_sizes)
qed

end
