(* ===== verification/Ruleset_Parser.thy ===== *)
theory Ruleset_Parser
  imports Ruleset "HOL-Library.Sublist"
begin

text \<open>
  The parser of rulesets, \<open>RulesLine\<close> and \<open>parse_switch_ruleset\<close> of \<open>src/switch_ruleset.hpp\<close>.
  A line parser is the list of the tokens not taken yet. The scanning loop of formats 2 and 3
  is a \<open>partial_function\<close>, whose value is \<open>None\<close> where the loop does not end.
\<close>

definition rbind :: "'a result \<Rightarrow> ('a \<Rightarrow> 'b result) \<Rightarrow> 'b result" where
  "rbind r f = (case r of Inl e \<Rightarrow> Inl e | Inr x \<Rightarrow> f x)"

abbreviation fail :: "string \<Rightarrow> 'a result" where
  "fail msg \<equiv> Inl (Runtime_error msg)"

subsection \<open>Tokens\<close>

definition blank :: "char \<Rightarrow> bool" where
  "blank c \<longleftrightarrow> c \<in> {CHR '' '', CHR 0x09, CHR 0x0D}"

definition separator :: "char \<Rightarrow> bool" where
  "separator c \<longleftrightarrow> c \<in> {CHR '' '', CHR 0x09, CHR 0x0D, CHR '','', CHR ''['', CHR '']'', CHR ''<'', CHR ''>'', CHR ''&'', CHR ''#''}"

definition punctuation_v2 :: "char \<Rightarrow> bool" where
  "punctuation_v2 c \<longleftrightarrow> c \<in> {CHR '','', CHR ''['', CHR '']'', CHR ''<'', CHR ''>'', CHR ''&''}"

fun quoted_scan :: "string \<Rightarrow> string \<Rightarrow> (string \<times> string) result" where
  "quoted_scan [] token = fail ''unterminated label string''"
| "quoted_scan (c # cs) token =
     (if (of_char c :: nat) < 32 \<or> (of_char c :: nat) = 127 then fail ''label string cannot contain control bytes''
      else if c = CHR 0x22 then Inr (token @ [c], cs)
      else if c = CHR 0x5C then
        (case cs of
           [] \<Rightarrow> fail ''label strings support only escaped quote and backslash''
         | d # ds \<Rightarrow>
             if d \<noteq> CHR 0x5C \<and> d \<noteq> CHR 0x22 then fail ''label strings support only escaped quote and backslash''
             else quoted_scan ds (token @ [c, d]))
      else quoted_scan cs (token @ [c]))"

fun word_scan :: "string \<Rightarrow> string \<Rightarrow> (string \<times> string) result" where
  "word_scan [] token = Inr (token, [])"
| "word_scan (c # cs) token =
     (if separator c then Inr (token, c # cs)
      else if (of_char c :: nat) < 33 \<or> (of_char c :: nat) > 126 \<or> c = CHR 0x22 then fail ''invalid token in ruleset''
      else word_scan cs (token @ [c]))"

definition scan_token :: "char \<Rightarrow> string \<Rightarrow> (string \<times> string) result" where
  "scan_token c cs =
     (if c = CHR 0x22 then
        rbind (quoted_scan cs [c]) (\<lambda>(token, rest).
          if rest \<noteq> [] \<and> \<not> separator (hd rest) then fail ''expected separator after label string''
          else Inr (token, rest))
      else if punctuation_v2 c then Inr ([c], cs)
      else word_scan (c # cs) [])"

partial_function (option) tokens_v2 :: "string \<Rightarrow> string list \<Rightarrow> string list result option" where
  "tokens_v2 line out =
     (case line of
        [] \<Rightarrow> Some (Inr out)
      | c # cs \<Rightarrow>
          if c = CHR ''#'' then Some (Inr out)
          else if blank c then tokens_v2 cs out
          else case scan_token c cs of
              Inl e \<Rightarrow> Some (Inl e)
            | Inr r \<Rightarrow> tokens_v2 (snd r) (out @ [fst r]))"

definition punctuation_v1 :: "char \<Rightarrow> bool" where
  "punctuation_v1 c \<longleftrightarrow> c \<in> {CHR '','', CHR ''['', CHR '']''}"

function tokens_v1_loop :: "string \<Rightarrow> string list \<Rightarrow> string list result" where
  "tokens_v1_loop [] out = Inr out"
| "tokens_v1_loop (c # cs) out =
     (if blank c then tokens_v1_loop cs out
      else if (of_char c :: nat) < 33 \<or> (of_char c :: nat) > 126 then fail ''expected printable ASCII''
      else if punctuation_v1 c then tokens_v1_loop cs (out @ [[c]])
      else tokens_v1_loop (dropWhile (\<lambda>d. \<not> blank d \<and> \<not> punctuation_v1 d) cs)
             (out @ [c # takeWhile (\<lambda>d. \<not> blank d \<and> \<not> punctuation_v1 d) cs]))"
  by pat_completeness auto
termination
  by (relation "measure (\<lambda>(line, out). length line)") (auto simp: le_imp_less_Suc length_dropWhile_le)

definition tokens_v1 :: "string \<Rightarrow> string list result" where
  "tokens_v1 line =
     (let line = takeWhile (\<lambda>c. c \<noteq> CHR ''#'') line in
      if list_ex (\<lambda>c. c \<noteq> CHR 0x09 \<and> c \<noteq> CHR 0x0D \<and> ((of_char c :: nat) < 32 \<or> (of_char c :: nat) > 126)) line
      then fail ''expected printable ASCII''
      else tokens_v1_loop line [])"

definition RulesLine :: "string \<Rightarrow> bool \<Rightarrow> string list result option" where
  "RulesLine line stack_syntax = (if stack_syntax then tokens_v2 line [] else Some (tokens_v1 line))"

definition peek :: "nat \<Rightarrow> string list \<Rightarrow> string" where
  "peek offset p = (if offset \<ge> length p then [] else p ! offset)"

definition take_token :: "string list \<Rightarrow> (string \<times> string list) result" where
  "take_token p = (case p of [] \<Rightarrow> fail ''unexpected end of line'' | t # ts \<Rightarrow> Inr (t, ts))"

definition eat :: "string \<Rightarrow> string list \<Rightarrow> bool \<times> string list" where
  "eat s p = (if peek 0 p \<noteq> s then (False, p) else (True, tl p))"

definition need :: "string \<Rightarrow> string list \<Rightarrow> string list result" where
  "need s p = (case eat s p of (ok, p) \<Rightarrow> if ok then Inr p else fail (''expected '' @ [CHR 0x27] @ s @ [CHR 0x27]))"

subsection \<open>Phrases of a line\<close>

definition name_char :: "char \<Rightarrow> bool" where
  "name_char c \<longleftrightarrow> c \<in> set ''abcdefghijklmnopqrstuvwxyzABCDEFGHIJKLMNOPQRSTUVWXYZ0123456789_-.''"

definition names_step :: "bool \<Rightarrow> string \<Rightarrow> string list \<Rightarrow> string list result" where
  "names_step quoted token out =
     (let name = (if quoted \<and> length token \<ge> 2 \<and> hd token = CHR 0x22 \<and> last token = CHR 0x22 then butlast (tl token) else token) in
      if name = [] \<or> \<not> list_all (\<lambda>c. name_char c \<or> c = CHR ''#'') name then fail ''invalid VIA name''
      else if name \<in> set out then fail ''duplicate VIA name''
      else if length (out @ [name]) > ruleset_max_statements then fail ''too many VIA names''
      else Inr (out @ [name]))"

fun names_loop :: "bool \<Rightarrow> string list \<Rightarrow> string list \<Rightarrow> (string list \<times> string list) result" where
  "names_loop quoted [] out = fail ''unexpected end of line''"
| "names_loop quoted (t # p) out =
     (case names_step quoted t out of
        Inl e \<Rightarrow> Inl e
      | Inr out \<Rightarrow> (case p of
            [] \<Rightarrow> Inr (out, p)
          | u # q \<Rightarrow> if u = '','' then names_loop quoted q out else Inr (out, p)))"

definition names :: "bool \<Rightarrow> string list \<Rightarrow> (string list \<times> string list) result" where
  "names quoted p =
     rbind (need ''['' p) (\<lambda>p. rbind (names_loop quoted p []) (\<lambda>(out, p). rbind (need '']'' p) (\<lambda>p. Inr (out, p))))"

definition endpoint :: "string list \<Rightarrow> (rule_endpoint \<times> string list) result" where
  "endpoint p =
     rbind (take_token p) (\<lambda>(port, p).
     rbind (rules_port port) (\<lambda>_.
       let e = endpoint_init\<lparr>ep_port := port\<rparr> in
       case eat '','' p of (comma, p) \<Rightarrow>
         if comma then
           rbind (take_token p) (\<lambda>(label, p).
             if label \<noteq> ''*'' then rbind (rules_number label) (\<lambda>n. Inr (e\<lparr>ep_label := \<lparr>la_any = False, la_value = n\<rparr>\<rparr>, p))
             else Inr (e, p))
         else Inr (e, p)))"

definition label_literal :: "string list \<Rightarrow> (u64 \<times> string list) result" where
  "label_literal p = rbind (take_token p) (\<lambda>(t, p). rbind (rules_label_value t) (\<lambda>v. Inr (v, p)))"

definition range_element :: "string list \<Rightarrow> (rule_element \<times> string list) result" where
  "range_element p =
     rbind (label_literal p) (\<lambda>(low, p).
     rbind (need '','' p) (\<lambda>p.
     rbind (label_literal p) (\<lambda>(high, p).
     rbind (need ''>'' p) (\<lambda>p.
       if low > high then fail ''range lower bound exceeds upper bound''
       else Inr (\<lparr>el_kind = (if low = high then Kind_exact else Kind_range), el_value = low, el_upper = high\<rparr>, p)))))"

definition element :: "string list \<Rightarrow> (rule_element \<times> string list) result" where
  "element p =
     (if peek 0 p = ''*'' then Inr (element_init, tl p)
      else if peek 0 p = ''&'' then
        rbind (label_literal (tl p)) (\<lambda>(v, p). Inr (\<lparr>el_kind = Kind_bits, el_value = v, el_upper = 0\<rparr>, p))
      else if peek 0 p = ''<'' then range_element (tl p)
      else rbind (label_literal p) (\<lambda>(v, p). Inr (\<lparr>el_kind = Kind_exact, el_value = v, el_upper = 0\<rparr>, p)))"

lemma rbind_Inr: "rbind r f = Inr y \<longleftrightarrow> (\<exists>x. r = Inr x \<and> f x = Inr y)"
  by (cases r) (simp_all add: rbind_def)

lemma rbind_cong [fundef_cong]: "r = r' \<Longrightarrow> (\<And>x. r' = Inr x \<Longrightarrow> f x = f' x) \<Longrightarrow> rbind r f = rbind r' f'"
  by (cases r') (simp_all add: rbind_def)

lemma take_token_Inr: "take_token p = Inr (t, q) \<longleftrightarrow> p = t # q"
  by (cases p) (auto simp: take_token_def)

lemma need_Inr: "s \<noteq> [] \<Longrightarrow> need s p = Inr q \<longleftrightarrow> p = s # q"
  by (cases p) (auto simp: need_def eat_def peek_def)

lemma label_literal_Inr: "label_literal p = Inr (v, q) \<longleftrightarrow> (\<exists>t. p = t # q \<and> rules_label_value t = Inr v)"
  by (auto simp: label_literal_def rbind_Inr take_token_Inr)

lemma element_shrinks: "element p = Inr (e, q) \<Longrightarrow> length q < length p"
  by (cases p) (auto simp: element_def range_element_def rbind_Inr label_literal_Inr need_Inr peek_def split: if_splits)

function stack_match_loop :: "string list \<Rightarrow> rule_element list \<Rightarrow> (stack_match \<times> string list) result" where
  "stack_match_loop p items =
     (case eat ''...'' p of (dots, p1) \<Rightarrow>
        if dots then Inr (\<lparr>sm_items = items, sm_rest = True\<rparr>, p1)
        else rbind (element p) (\<lambda>(e, q).
          if length (items @ [e]) > switch_max_labels then fail ''at most 8 match elements''
          else case eat '','' q of (comma, q') \<Rightarrow>
            if comma then stack_match_loop q' (items @ [e]) else Inr (\<lparr>sm_items = items @ [e], sm_rest = False\<rparr>, q')))"
  by auto
termination
  by (relation "measure (\<lambda>(p, items). length p)") (auto simp: eat_def split: if_splits dest: element_shrinks)

declare stack_match_loop.simps [simp del]

definition parse_stack_match :: "string list \<Rightarrow> (stack_match \<times> string list) result" where
  "parse_stack_match p =
     (case eat ''['' p of (bracket, p) \<Rightarrow>
        if \<not> bracket then rbind (element p) (\<lambda>(e, p). Inr (\<lparr>sm_items = [e], sm_rest = False\<rparr>, p))
        else rbind (stack_match_loop p []) (\<lambda>(m, p).
             rbind (need '']'' p) (\<lambda>p.
               if sm_items m = [] then fail ''stack match needs at least one element'' else Inr (m, p))))"

definition endpoint_v2 :: "string list \<Rightarrow> (rule_endpoint \<times> string list) result" where
  "endpoint_v2 p =
     (if peek 0 p = ''['' then rbind (parse_stack_match p) (\<lambda>(m, p). Inr (endpoint_init\<lparr>ep_match := m\<rparr>, p))
      else rbind (take_token p) (\<lambda>(port, p).
           rbind (rules_port port) (\<lambda>_.
             let e = endpoint_init\<lparr>ep_port := port\<rparr> in
             case eat '','' p of (comma, p) \<Rightarrow>
               if comma then rbind (parse_stack_match p) (\<lambda>(m, p). Inr (e\<lparr>ep_match := m\<rparr>, p)) else Inr (e, p))))"

definition stack_item_of :: "string \<Rightarrow> stack_item result" where
  "stack_item_of item =
     (if item = ''keep'' then Inr \<lparr>si_keep = True, si_value = 0\<rparr>
      else rbind (rules_number item) (\<lambda>n. Inr \<lparr>si_keep = False, si_value = n\<rparr>))"

fun stack_loop :: "string list \<Rightarrow> stack_item list \<Rightarrow> (rule_stack \<times> string list) result" where
  "stack_loop [] items = fail ''unexpected end of line''"
| "stack_loop (t # p) items =
     (if t = ''...'' then Inr (\<lparr>rs_items = items, rs_rest = True\<rparr>, p)
      else case stack_item_of t of
          Inl e \<Rightarrow> Inl e
        | Inr it \<Rightarrow>
            if length (items @ [it]) > switch_max_labels then fail ''at most 8 output labels''
            else (case p of
                [] \<Rightarrow> Inr (\<lparr>rs_items = items @ [it], rs_rest = False\<rparr>, p)
              | u # q \<Rightarrow> if u = '','' then stack_loop q (items @ [it]) else Inr (\<lparr>rs_items = items @ [it], rs_rest = False\<rparr>, p)))"

definition parse_stack :: "string list \<Rightarrow> (rule_stack \<times> string list) result" where
  "parse_stack p =
     rbind (need ''['' p) (\<lambda>p.
     rbind (stack_loop p []) (\<lambda>(st, p).
     rbind (need '']'' p) (\<lambda>p.
       if rs_items st = [] then fail ''stack needs at least one explicit label or keep'' else Inr (st, p))))"

fun options_loop :: "string list \<Rightarrow> rule_statement \<Rightarrow> (rule_statement \<times> string list) result" where
  "options_loop [] s = fail ''unexpected end of line''"
| "options_loop (option # p) s =
     (if option = '']'' then Inr (s, p)
      else if take 3 option \<noteq> ''id='' \<or> length option = 3 \<or> st_id s \<noteq> [] then fail (''unknown or duplicate option: '' @ option)
      else let s = s\<lparr>st_id := drop 3 option\<rparr> in
        case p of [] \<Rightarrow> options_loop p s | u # q \<Rightarrow> if u = '','' then options_loop q s else options_loop p s)"

definition options :: "string list \<Rightarrow> rule_statement \<Rightarrow> (rule_statement \<times> string list) result" where
  "options p s = (case eat ''['' p of (bracket, p) \<Rightarrow> if \<not> bracket then Inr (s, p) else options_loop p s)"

subsection \<open>The parser\<close>

definition find_string :: "string \<Rightarrow> string \<Rightarrow> bool" where
  "find_string needle s \<longleftrightarrow> list_ex (\<lambda>i. take (length needle) (drop i s) = needle) [0..<length s + 1]"

definition before_star :: "string \<Rightarrow> string" where
  "before_star s = takeWhile (\<lambda>c. c \<noteq> CHR ''*'') s"

record parse_state =
  pt_rules :: switch_ruleset
  pt_format :: bool
  pt_serial :: bool
  pt_service :: via_service
  pt_in_service :: bool
  pt_fields :: "string list"

definition parse_init :: parse_state where
  "parse_init = \<lparr>pt_rules = ruleset_init, pt_format = False, pt_serial = False, pt_service = service_init, pt_in_service = False, pt_fields = []\<rparr>"

definition close_service :: "parse_state \<Rightarrow> parse_state result" where
  "close_service st =
     (let v = pt_service st; rules = pt_rules st in
      if vs_client v = [] \<or> vs_server v = [] \<or> vs_failover v \<and> vs_instances v = []
      then fail ''service requires two sides; failover requires ordered instances''
      else if (vs_client_relay v = []) \<noteq> (vs_server_relay v = []) \<or> split_relay v \<and> vs_relay v \<noteq> []
      then fail ''client-relay and server-relay must be used together, without relay''
      else if split_relay v \<and> (route_port_matches (vs_client_relay v) (before_star (vs_server_relay v)) \<or>
                                route_port_matches (vs_server_relay v) (before_star (vs_client_relay v)))
      then fail ''client-relay and server-relay must not overlap''
      else if map_of (ru_services rules) (vs_name v) \<noteq> None then fail ''duplicate service''
      else Inr (st\<lparr>pt_rules := rules\<lparr>ru_services := map_insert (vs_name v) v (ru_services rules)\<rparr>, pt_in_service := False\<rparr>))"

definition service_side :: "string \<Rightarrow> string list \<Rightarrow> via_service \<Rightarrow> (via_service \<times> string list) result" where
  "service_side command p v =
     rbind (take_token p) (\<lambda>(value, p).
     rbind (rules_port value) (\<lambda>_.
       if find_string ''~via:'' value then fail ''reserved VIA suffix''
       else Inr (if command = ''client-side'' then v\<lparr>vs_client := value\<rparr> else v\<lparr>vs_server := value\<rparr>, p)))"

definition service_relay :: "string \<Rightarrow> string list \<Rightarrow> via_service \<Rightarrow> (via_service \<times> string list) result" where
  "service_relay command p v =
     rbind (take_token p) (\<lambda>(selector, p).
     rbind (rules_port selector) (\<lambda>_.
       if selector = ''*'' \<or> find_string ''~via:'' selector then fail ''relay requires a physical port ID or a prefix followed by *''
       else Inr (if command = ''relay'' then v\<lparr>vs_relay := selector\<rparr>
                 else if command = ''client-relay'' then v\<lparr>vs_client_relay := selector\<rparr>
                 else v\<lparr>vs_server_relay := selector\<rparr>, p)))"

definition service_field :: "string \<Rightarrow> string list \<Rightarrow> via_service \<Rightarrow> (via_service \<times> string list) result" where
  "service_field command p v =
     (if command = ''client-side'' \<or> command = ''server-side'' then service_side command p v
      else if command = ''relay'' \<or> command = ''client-relay'' \<or> command = ''server-relay'' then service_relay command p v
      else if command = ''stickiness'' then
        rbind (take_token p) (\<lambda>(value, p).
          if value \<noteq> ''hash'' \<and> value \<noteq> ''failover'' then fail ''expected hash or failover''
          else Inr (v\<lparr>vs_failover := (value = ''failover'')\<rparr>, p))
      else if command = ''unavailable'' then
        rbind (take_token p) (\<lambda>(value, p).
          if value \<noteq> ''drop'' \<and> value \<noteq> ''pass'' then fail ''expected drop or pass''
          else Inr (v\<lparr>vs_pass := (value = ''pass'')\<rparr>, p))
      else if command = ''instances'' then rbind (names True p) (\<lambda>(out, p). Inr (v\<lparr>vs_instances := out\<rparr>, p))
      else fail ''unknown service field'')"

definition service_line :: "string \<Rightarrow> string list \<Rightarrow> parse_state \<Rightarrow> (parse_state \<times> string list) result" where
  "service_line command p st =
     (if command = ''}'' then rbind (close_service st) (\<lambda>st. Inr (st, p))
      else if command \<in> set (pt_fields st) then fail ''duplicate service field''
      else rbind (service_field command p (pt_service st)) (\<lambda>(v, p).
             Inr (st\<lparr>pt_service := v, pt_fields := pt_fields st @ [command]\<rparr>, p)))"

definition format_line :: "string list \<Rightarrow> parse_state \<Rightarrow> (parse_state \<times> string list) result" where
  "format_line p st =
     (if pt_format st \<or> pt_serial st \<or> ru_statements (pt_rules st) \<noteq> [] then fail ''format must appear once, first''
      else rbind (take_token p) (\<lambda>(t, p).
           rbind (rules_number t) (\<lambda>version.
             if version \<noteq> 1 \<and> version \<noteq> 2 \<and> version \<noteq> 3 then fail ''unsupported ruleset format''
             else Inr (st\<lparr>pt_rules := (pt_rules st)\<lparr>ru_format := unat version\<rparr>, pt_format := True\<rparr>, p))))"

definition serial_line :: "string list \<Rightarrow> parse_state \<Rightarrow> (parse_state \<times> string list) result" where
  "serial_line p st =
     (if \<not> pt_format st \<or> pt_serial st \<or> ru_statements (pt_rules st) \<noteq> [] then fail ''serial must appear once, after format''
      else rbind (take_token p) (\<lambda>(t, p).
           rbind (rules_number t) (\<lambda>n.
             Inr (st\<lparr>pt_rules := (pt_rules st)\<lparr>ru_serial := n\<rparr>, pt_serial := True\<rparr>, p))))"

definition open_service :: "string list \<Rightarrow> parse_state \<Rightarrow> (parse_state \<times> string list) result" where
  "open_service p st =
     rbind (take_token p) (\<lambda>(name, p).
       if name = [] \<or> \<not> list_all name_char name then fail ''invalid service name''
       else rbind (need ''{'' p) (\<lambda>p.
         if p \<noteq> [] then fail ''service fields must be on separate lines''
         else Inr (st\<lparr>pt_service := service_init\<lparr>vs_name := name\<rparr>, pt_fields := [], pt_in_service := True\<rparr>, p)))"

definition origin_line :: "string list \<Rightarrow> parse_state \<Rightarrow> (parse_state \<times> string list) result" where
  "origin_line p st =
     (let rules = pt_rules st in
      rbind (take_token p) (\<lambda>(name, p).
      rbind (rules_port name) (\<lambda>_.
      rbind (need ''id'' p) (\<lambda>p.
      rbind (take_token p) (\<lambda>(t, p).
      rbind (rules_number t) (\<lambda>id.
        if id = 0 \<or> wildcard_port name \<or> find_string ''~via:'' name \<or> p \<noteq> [] then fail ''expected port NAME id NONZERO_ID''
        else if id \<in> snd ` set (ru_origins rules) then fail ''duplicate origin ID''
        else if map_of (ru_origins rules) name \<noteq> None then fail ''duplicate origin port''
        else Inr (st\<lparr>pt_rules := rules\<lparr>ru_origins := map_insert name id (ru_origins rules)\<rparr>\<rparr>, p)))))))"

definition role_statement :: "string \<Rightarrow> string list \<Rightarrow> rule_statement \<Rightarrow> (rule_statement \<times> string list) result" where
  "role_statement command p s =
     rbind (take_token p) (\<lambda>(port, p).
     rbind (rules_port port) (\<lambda>_.
       Inr (s\<lparr>st_type := (if command = ''exit'' then St_exit else St_trunk), st_output := (st_output s)\<lparr>ep_port := port\<rparr>\<rparr>, p)))"

definition mapping_statement :: "nat \<Rightarrow> string list \<Rightarrow> rule_statement \<Rightarrow> (rule_statement \<times> string list) result" where
  "mapping_statement fmt p s =
     (if fmt \<ge> 2 then fail ''format 2 uses switch for forwarding and rewriting; label is only supported in format 1''
      else rbind (endpoint p) (\<lambda>(e, p).
           rbind (need ''to'' p) (\<lambda>p.
           rbind (take_token p) (\<lambda>(port, p).
           rbind (rules_port port) (\<lambda>_.
           rbind (need '','' p) (\<lambda>p.
           rbind (parse_stack p) (\<lambda>(st, p).
             options p (s\<lparr>st_type := St_mapping, st_input := e, st_output := (st_output s)\<lparr>ep_port := port\<rparr>, st_stack := st\<rparr>))))))))"

definition has_input :: "string list \<Rightarrow> bool" where
  "has_input p \<longleftrightarrow> (peek 0 p \<noteq> ''to'' \<or> peek 1 p = '','') \<and>
     (peek 0 p \<noteq> ''allow'' \<and> peek 0 p \<noteq> ''drop'' \<and> peek 0 p \<noteq> ''capture'' \<or> peek 1 p = '','' \<or> peek 1 p = ''to'')"

definition some_endpoint :: "nat \<Rightarrow> string list \<Rightarrow> (rule_endpoint \<times> string list) result" where
  "some_endpoint fmt p = (if fmt \<ge> 2 then endpoint_v2 p else endpoint p)"

definition switch_action :: "nat \<Rightarrow> string list \<Rightarrow> rule_statement \<Rightarrow> (rule_statement \<times> string list) result" where
  "switch_action fmt p s =
     rbind (take_token p) (\<lambda>(action, p).
       if action = ''allow'' then
         (if fmt \<ge> 2 then rbind (output_stack (ep_match (st_output s))) (\<lambda>st. Inr (s\<lparr>st_allow := True, st_type := St_forward, st_stack := st\<rparr>, p))
          else Inr (s\<lparr>st_allow := True\<rparr>, p))
       else if action = ''capture'' then
         (if p \<noteq> [] \<and> peek 0 p \<noteq> ''['' \<and> peek 0 p \<noteq> ''bidir'' then
            rbind (take_token p) (\<lambda>(target, p). rbind (rules_port target) (\<lambda>_. Inr (s\<lparr>st_type := St_capture, st_target := target\<rparr>, p)))
          else Inr (s\<lparr>st_type := St_capture\<rparr>, p))
       else if action \<noteq> ''drop'' then fail ''expected allow, drop or capture''
       else Inr (s, p))"

definition switch_statement :: "nat \<Rightarrow> string list \<Rightarrow> rule_statement \<Rightarrow> (rule_statement \<times> string list) result" where
  "switch_statement fmt p s =
     rbind (if has_input p then rbind (some_endpoint fmt p) (\<lambda>(e, p). Inr (s\<lparr>st_input := e\<rparr>, p)) else Inr (s, p)) (\<lambda>(s, p).
     rbind (case eat ''to'' p of (to, p) \<Rightarrow> if to then rbind (some_endpoint fmt p) (\<lambda>(e, p). Inr (s\<lparr>st_output := e\<rparr>, p)) else Inr (s, p)) (\<lambda>(s, p).
     rbind (if fmt = 3 \<and> fst (eat ''via'' p) then rbind (names False (snd (eat ''via'' p))) (\<lambda>(out, p). Inr (s\<lparr>st_via := out\<rparr>, p)) else Inr (s, p)) (\<lambda>(s, p).
       switch_action fmt p s)))"

definition policy_statement :: "nat \<Rightarrow> string \<Rightarrow> string list \<Rightarrow> rule_statement \<Rightarrow> (rule_statement \<times> bool \<times> string list) result" where
  "policy_statement fmt command p s =
     rbind (if command = ''switch'' then switch_statement fmt p s else Inr (s, p)) (\<lambda>(s, p).
       case eat ''bidir'' p of (bidir, p) \<Rightarrow> rbind (options p s) (\<lambda>(s, p). Inr (s, bidir, p)))"

definition append_statement :: "rule_statement \<Rightarrow> rule_statement list \<Rightarrow> rule_statement list result" where
  "append_statement s ss =
     (if st_id s \<noteq> [] \<and> list_ex (\<lambda>existing. st_id existing = st_id s) ss then fail (''duplicate rule id: '' @ st_id s)
      else if length (ss @ [s]) > ruleset_max_statements then fail ''too many statements after expansion (maximum 4096)''
      else Inr (ss @ [s]))"

definition reverse_statement :: "rule_statement \<Rightarrow> rule_statement result" where
  "reverse_statement s =
     rbind (if st_type s = St_forward then reverse_forward_rule s else Inr (s\<lparr>st_input := st_output s, st_output := st_input s\<rparr>)) (\<lambda>r.
       Inr (r\<lparr>st_via := [], st_id := (if st_id r \<noteq> [] then st_id r @ ''.reverse'' else [])\<rparr>))"

definition append_all :: "rule_statement \<Rightarrow> bool \<Rightarrow> rule_statement list \<Rightarrow> rule_statement list result" where
  "append_all s bidir ss =
     (if bidir then rbind (reverse_statement s) (\<lambda>r. rbind (append_statement s ss) (\<lambda>ss. append_statement r ss))
      else append_statement s ss)"

definition statement_line :: "nat \<Rightarrow> string \<Rightarrow> string list \<Rightarrow> parse_state \<Rightarrow> (parse_state \<times> string list) result" where
  "statement_line number command p st =
     (let fmt = ru_format (pt_rules st); s = statement_init\<lparr>st_line := number\<rparr> in
      if \<not> pt_serial st then fail ''format and serial headers are required first''
      else if fmt = 3 \<and> command = ''service'' then open_service p st
      else if fmt = 3 \<and> command = ''port'' then origin_line p st
      else rbind
        (if command = ''exit'' \<or> command = ''trunk'' then rbind (role_statement command p s) (\<lambda>(s, p). Inr (s, False, p))
         else if command = ''label'' then rbind (mapping_statement fmt p s) (\<lambda>(s, p). Inr (s, False, p))
         else if command = ''switch'' \<or> command = ''drop'' then policy_statement fmt command p s
         else fail (''unknown directive: '' @ command)) (\<lambda>(s, bidir, p).
        rbind (append_all s bidir (ru_statements (pt_rules st))) (\<lambda>ss.
          Inr (st\<lparr>pt_rules := (pt_rules st)\<lparr>ru_statements := ss\<rparr>\<rparr>, p))))"

definition parse_tokens :: "nat \<Rightarrow> string list \<Rightarrow> parse_state \<Rightarrow> parse_state result" where
  "parse_tokens number p st =
     (case p of
        [] \<Rightarrow> Inr st
      | command # p \<Rightarrow>
          rbind (if pt_in_service st then service_line command p st
                 else if command = ''format'' then format_line p st
                 else if command = ''serial'' then serial_line p st
                 else statement_line number command p st) (\<lambda>(st, p).
            if p \<noteq> [] then fail (''unexpected token: '' @ hd p) else Inr st))"

definition at_line :: "nat \<Rightarrow> 'a result \<Rightarrow> 'a result" where
  "at_line number r =
     (case r of
        Inl (Runtime_error msg) \<Rightarrow> Inl (Runtime_error (''line '' @ to_string number @ '': '' @ msg))
      | Inl e \<Rightarrow> Inl e
      | Inr x \<Rightarrow> Inr x)"

fun parse_lines :: "nat \<Rightarrow> string list \<Rightarrow> parse_state \<Rightarrow> parse_state result option" where
  "parse_lines number [] st = Some (Inr st)"
| "parse_lines number (line # lines) st =
     (case RulesLine line (ru_format (pt_rules st) \<ge> 2) of
        None \<Rightarrow> None
      | Some r \<Rightarrow>
          (case at_line (number + 1) (rbind r (\<lambda>p. parse_tokens (number + 1) p st)) of
             Inl e \<Rightarrow> Some (Inl e)
           | Inr st \<Rightarrow> parse_lines (number + 1) lines st))"

fun getlines :: "string \<Rightarrow> string \<Rightarrow> string list" where
  "getlines line [] = (if line = [] then [] else [line])"
| "getlines line (c # cs) = (if c = CHR 0x0A then line # getlines [] cs else getlines (line @ [c]) cs)"

definition roles_overlap :: "rule_statement \<Rightarrow> rule_statement \<Rightarrow> bool" where
  "roles_overlap s t =
     (let a = ep_port (st_output s); b = ep_port (st_output t);
          a' = (if wildcard_port a then butlast a else a);
          b' = (if wildcard_port b then butlast b else b)
      in route_port_matches a b' \<or> route_port_matches b a')"

definition check_statement :: "switch_ruleset \<Rightarrow> rule_statement \<Rightarrow> unit result" where
  "check_statement rules s =
     (if st_via s \<noteq> [] \<and> st_type s \<noteq> St_forward then fail ''via requires an allow forwarding rule''
      else case find (\<lambda>name. map_of (ru_services rules) name = None) (st_via s) of
          Some name \<Rightarrow> fail (''unknown VIA service: '' @ name)
        | None \<Rightarrow>
            if st_type s = St_capture then fail (''line '' @ to_string (st_line s) @ '': capture is not supported yet'')
            else if st_type s = St_exit \<and> list_ex (\<lambda>t. st_type t = St_trunk \<and> roles_overlap s t) (ru_statements rules)
            then fail ''overlapping exit and trunk roles''
            else Inr ())"

fun check_statements :: "switch_ruleset \<Rightarrow> rule_statement list \<Rightarrow> unit result" where
  "check_statements rules [] = Inr ()"
| "check_statements rules (s # ss) = rbind (check_statement rules s) (\<lambda>_. check_statements rules ss)"

definition finish_ruleset :: "parse_state \<Rightarrow> switch_ruleset result" where
  "finish_ruleset st =
     (if pt_in_service st then fail ''unterminated service block''
      else if \<not> pt_format st \<or> \<not> pt_serial st then fail ''format and serial headers are required''
      else rbind (check_statements (pt_rules st) (ru_statements (pt_rules st))) (\<lambda>_.
           rbind (ruleset_text (pt_rules st)) (\<lambda>text.
             if length text > ruleset_max_bytes then fail ''canonical ruleset exceeds 1 MiB'' else Inr (pt_rules st))))"

definition parse_switch_ruleset :: "string \<Rightarrow> switch_ruleset result option" where
  "parse_switch_ruleset source =
     (if length source > ruleset_max_bytes then Some (fail ''ruleset exceeds 1 MiB'')
      else case parse_lines 0 (getlines [] source) parse_init of
          None \<Rightarrow> None
        | Some r \<Rightarrow> Some (rbind r finish_ruleset))"

subsection \<open>The scanner ends\<close>

lemma quoted_scan_Inr: "quoted_scan cs token = Inr (t, rest) \<Longrightarrow> \<exists>u. t = token @ u \<and> u @ rest = cs"
  by (induction cs token rule: quoted_scan.induct) (fastforce split: if_splits list.splits)+

lemma word_scan_Inr: "word_scan cs token = Inr (t, rest) \<Longrightarrow> \<exists>u. t = token @ u \<and> u @ rest = cs"
  by (induction cs token rule: word_scan.induct) (fastforce split: if_splits)+

text \<open>A token is never empty: a character that starts a word is not a separator.\<close>

lemma scan_token_Inr:
  assumes "scan_token c cs = Inr (t, rest)" "\<not> blank c" "c \<noteq> CHR ''#''"
  shows "t \<noteq> [] \<and> t @ rest = c # cs"
proof (cases "c = CHR 0x22 \<or> punctuation_v2 c")
  case True
  then show ?thesis
    using assms(1) by (auto simp: scan_token_def rbind_Inr split: if_splits dest!: quoted_scan_Inr)
next
  case False
  then have "word_scan cs [c] = Inr (t, rest)"
    using assms by (auto simp: scan_token_def separator_def blank_def punctuation_v2_def split: if_splits)
  then show ?thesis
    by (auto dest!: word_scan_Inr)
qed

lemma subseq_takeWhile: "subseq xs (takeWhile P ys) \<Longrightarrow> subseq xs ys"
  using subseq_rev_drop_many [of xs "takeWhile P ys" "dropWhile P ys"] by simp

definition scanned :: "string list \<Rightarrow> string \<Rightarrow> string list result \<Rightarrow> bool" where
  "scanned out line r \<longleftrightarrow> (\<forall>ts. r = Inr ts \<longrightarrow> (\<exists>ys. ts = out @ ys \<and> [] \<notin> set ys \<and> subseq (concat ys) line))"

lemma scanned_trivial [simp]: "scanned out line (Inr out)" "scanned out line (Inl e)"
  by (auto simp: scanned_def intro: exI [of _ "[]"])

lemma scanned_blank: "scanned out cs r \<Longrightarrow> scanned out (c # cs) r"
  unfolding scanned_def by (blast intro: list_emb_Cons)

lemma scanned_token:
  assumes "scanned (out @ [t]) rest r" "t \<noteq> []"
  shows "scanned out (t @ rest) r"
  unfolding scanned_def
proof (intro allI impI)
  fix ts assume "r = Inr ts"
  then obtain ys where ys: "ts = (out @ [t]) @ ys" "[] \<notin> set ys" "subseq (concat ys) rest"
    using assms(1) unfolding scanned_def by blast
  show "\<exists>ys. ts = out @ ys \<and> [] \<notin> set ys \<and> subseq (concat ys) (t @ rest)"
    by (rule exI [of _ "t # ys"]) (use ys assms(2) list_emb_append_mono [of "(=)" t t] in simp)
qed

lemma tokens_v2_list:
  "tokens_v2 [] out = Some (Inr out)"
  "tokens_v2 (c # cs) out =
     (if c = CHR ''#'' then Some (Inr out)
      else if blank c then tokens_v2 cs out
      else case scan_token c cs of Inl e \<Rightarrow> Some (Inl e) | Inr r \<Rightarrow> tokens_v2 (snd r) (out @ [fst r]))"
  by (subst tokens_v2.simps, simp)+

lemma tokens_v2_returns: "\<exists>r. tokens_v2 line out = Some r \<and> scanned out line r"
proof (induction line arbitrary: out rule: length_induct)
  case (1 line)
  show ?case
  proof (cases line)
    case Nil
    then show ?thesis
      by (simp add: tokens_v2_list)
  next
    case (Cons c cs)
    consider "c = CHR ''#''" | "c \<noteq> CHR ''#''" "blank c" | e where "c \<noteq> CHR ''#''" "\<not> blank c" "scan_token c cs = Inl e"
      | t rest where "c \<noteq> CHR ''#''" "\<not> blank c" "scan_token c cs = Inr (t, rest)"
      by (metis sum.exhaust surj_pair)
    then show ?thesis
    proof cases
      case 1
      then show ?thesis
        by (simp add: Cons tokens_v2_list)
    next
      case 2
      then have "tokens_v2 line out = tokens_v2 cs out"
        by (simp add: Cons tokens_v2_list)
      moreover obtain r where "tokens_v2 cs out = Some r" "scanned out cs r"
        using 1 [rule_format, of cs out] Cons by auto
      ultimately show ?thesis
        by (simp add: Cons scanned_blank)
    next
      case 3
      then show ?thesis
        by (simp add: Cons tokens_v2_list)
    next
      case 4
      then have line: "t \<noteq> []" "line = t @ rest"
        using scan_token_Inr [of c cs t rest] Cons by simp_all
      have "tokens_v2 line out = tokens_v2 rest (out @ [t])"
        using 4 by (simp add: Cons tokens_v2_list)
      moreover obtain r where "tokens_v2 rest (out @ [t]) = Some r" "scanned (out @ [t]) rest r"
        using 1 [rule_format, of rest "out @ [t]"] line by auto
      ultimately show ?thesis
        using scanned_token [of out t rest r] line by simp
    qed
  qed
qed

lemma tokens_v1_loop_scanned: "scanned out line (tokens_v1_loop line out)"
proof (induction line out rule: tokens_v1_loop.induct)
  case (2 c cs out)
  let ?w = "\<lambda>d. \<not> blank d \<and> \<not> punctuation_v1 d"
  consider "blank c" | "\<not> blank c" "(of_char c :: nat) < 33 \<or> (of_char c :: nat) > 126"
    | "\<not> blank c" "\<not> ((of_char c :: nat) < 33 \<or> (of_char c :: nat) > 126)" "punctuation_v1 c"
    | "\<not> blank c" "\<not> ((of_char c :: nat) < 33 \<or> (of_char c :: nat) > 126)" "\<not> punctuation_v1 c"
    by blast
  then show ?case
  proof cases
    case 1
    then show ?thesis
      using 2(1) by (simp add: scanned_blank)
  next
    case 3
    then show ?thesis
      using scanned_token [of out "[c]" cs] 2(2) by simp
  next
    case 4
    have "scanned out ((c # takeWhile ?w cs) @ dropWhile ?w cs) (tokens_v1_loop (dropWhile ?w cs) (out @ [c # takeWhile ?w cs]))"
      by (rule scanned_token [OF 2(3) [OF 4]]) simp
    then show ?thesis
      using 4 by simp
  qed simp
qed simp

lemma tokens_v1_Inr: "tokens_v1 line = Inr ts \<Longrightarrow> [] \<notin> set ts \<and> subseq (concat ts) line"
  using tokens_v1_loop_scanned [of "[]" "takeWhile (\<lambda>c. c \<noteq> CHR ''#'') line"] subseq_takeWhile [of _ "\<lambda>c. c \<noteq> CHR ''#''" line]
  by (auto simp: tokens_v1_def scanned_def Let_def split: if_splits)



end
