(* ===== verification/Ruleset_Safe.thy ===== *)
theory Ruleset_Safe
  imports Ruleset_Correct Ruleset_Parser
begin

text \<open>
  What the parser accepts: an invariant of the statements read so far, kept by every line, and
  the well-formedness of an accepted ruleset, which makes rewriting safe.
\<close>

definition match_ok :: "stack_match \<Rightarrow> bool" where
  "match_ok m \<longleftrightarrow> 1 \<le> length (sm_items m) \<and> length (sm_items m) \<le> switch_max_labels"

definition statement_ok :: "nat \<Rightarrow> rule_statement \<Rightarrow> bool" where
  "statement_ok fmt s \<longleftrightarrow> match_ok (ep_match (st_input s)) \<and> match_ok (ep_match (st_output s)) \<and>
     length (rs_items (st_stack s)) \<le> switch_max_labels \<and>
     (st_type s = St_mapping \<or> st_type s = St_forward \<longrightarrow> rs_items (st_stack s) \<noteq> []) \<and>
     (st_type s = St_mapping \<longrightarrow> fmt < 2) \<and> (st_type s = St_forward \<longrightarrow> fmt \<ge> 2) \<and> distinct (st_via s)"

definition statements_ok :: "nat \<Rightarrow> rule_statement list \<Rightarrow> bool" where
  "statements_ok fmt ss \<longleftrightarrow> list_all (statement_ok fmt) ss \<and> length ss \<le> ruleset_max_statements \<and>
     distinct (filter (\<lambda>i. i \<noteq> []) (map st_id ss))"

subsection \<open>Phrases\<close>

lemma match_ok_init [simp]: "match_ok stack_match_init"
  by (simp add: match_ok_def stack_match_init_def switch_sizes)

lemma endpoint_init_match [simp]: "ep_match endpoint_init = stack_match_init"
  by (simp add: endpoint_init_def)

lemma stack_match_loop_ok:
  "stack_match_loop p items = Inr (m, q) \<Longrightarrow> length items \<le> switch_max_labels \<Longrightarrow> length (sm_items m) \<le> switch_max_labels"
proof (induction p items rule: stack_match_loop.induct)
  case (1 p items)
  from 1(2) [unfolded stack_match_loop.simps [of p]] 1(3) show ?case
    by (auto simp: rbind_Inr eat_def split: if_splits prod.splits intro: 1(1))
qed

lemma parse_stack_match_ok: "parse_stack_match p = Inr (m, q) \<Longrightarrow> match_ok m"
  by (auto simp: parse_stack_match_def match_ok_def rbind_Inr switch_sizes Suc_le_eq eat_def split: if_splits
      dest!: stack_match_loop_ok)

lemma some_endpoint_ok: "some_endpoint fmt p = Inr (e, q) \<Longrightarrow> match_ok (ep_match e)"
  by (auto simp: some_endpoint_def endpoint_v2_def endpoint_def rbind_Inr Let_def eat_def split: if_splits dest: parse_stack_match_ok)

lemma stack_loop_ok:
  "stack_loop p items = Inr (st, q) \<Longrightarrow> length items \<le> switch_max_labels \<Longrightarrow> length (rs_items st) \<le> switch_max_labels"
  by (induction p items rule: stack_loop.induct) (auto split: if_splits sum.splits list.splits)

lemma parse_stack_ok: "parse_stack p = Inr (st, q) \<Longrightarrow> rs_items st \<noteq> [] \<and> length (rs_items st) \<le> switch_max_labels"
  by (auto simp: parse_stack_def rbind_Inr split: if_splits dest!: stack_loop_ok)

lemma names_loop_distinct: "names_loop quoted p out = Inr (ns, q) \<Longrightarrow> distinct out \<Longrightarrow> distinct ns"
  by (induction quoted p out rule: names_loop.induct)
     (auto simp: names_step_def Let_def split: if_splits sum.splits list.splits)

lemma names_distinct: "names quoted p = Inr (ns, q) \<Longrightarrow> distinct ns"
  by (auto simp: names_def rbind_Inr dest: names_loop_distinct)

lemma statement_ok_id [simp]: "statement_ok fmt (s\<lparr>st_id := i\<rparr>) = statement_ok fmt s"
  by (simp add: statement_ok_def)

lemma options_loop_ok: "options_loop p s = Inr (s', q) \<Longrightarrow> statement_ok fmt s' = statement_ok fmt s"
proof (induction "length p" arbitrary: p s rule: less_induct)
  case less
  show ?case
  proof (cases p)
    case (Cons option p1)
    let ?s = "s\<lparr>st_id := drop 3 option\<rparr>"
    consider "s' = s" | "options_loop p1 ?s = Inr (s', q)" | u p2 where "p1 = u # p2" "options_loop p2 ?s = Inr (s', q)"
      using less(2) unfolding Cons options_loop.simps Let_def by (cases p1) (simp_all only: list.case split: if_splits, auto)
    then show ?thesis
    proof cases
      case 2
      then show ?thesis
        using less(1) [OF _ 2] by (simp add: Cons)
    next
      case 3
      then show ?thesis
        using less(1) [OF _ 3(2)] by (simp add: Cons)
    qed simp
  qed (use less(2) in simp)
qed

lemma options_ok: "options p s = Inr (s', q) \<Longrightarrow> statement_ok fmt s' = statement_ok fmt s"
  by (auto simp: options_def eat_def options_loop_ok split: if_splits)

subsection \<open>Statements\<close>

lemma statement_init_ok [simp]: "statement_ok fmt (statement_init\<lparr>st_line := n\<rparr>)"
  by (simp add: statement_ok_def statement_init_def rule_stack_init_def)

lemma statement_ok_role:
  "statement_ok fmt s \<Longrightarrow> t = St_exit \<or> t = St_trunk \<Longrightarrow> statement_ok fmt (s\<lparr>st_type := t, st_output := (st_output s)\<lparr>ep_port := port\<rparr>\<rparr>)"
  by (auto simp: statement_ok_def)

lemma role_statement_ok: "role_statement command p s = Inr (s', q) \<Longrightarrow> statement_ok fmt s \<Longrightarrow> statement_ok fmt s'"
  by (auto simp: role_statement_def rbind_Inr statement_ok_role)

lemma endpoint_ok: "endpoint p = Inr (e, q) \<Longrightarrow> match_ok (ep_match e)"
  using some_endpoint_ok [of 0 p e q] by (simp add: some_endpoint_def)

lemma mapping_statement_ok:
  assumes "mapping_statement fmt p s = Inr (s', q)" "statement_ok fmt s"
  shows "statement_ok fmt s'"
proof -
  obtain e p1 p2 port p3 p4 st p5 where e: "endpoint p = Inr (e, p1)" and st: "parse_stack p4 = Inr (st, p5)" and fmt: "\<not> fmt \<ge> 2"
    and s': "options p5 (s\<lparr>st_type := St_mapping, st_input := e, st_output := (st_output s)\<lparr>ep_port := port\<rparr>, st_stack := st\<rparr>) = Inr (s', q)"
    using assms(1) unfolding mapping_statement_def by (simp add: rbind_Inr split_paired_Ex split: if_splits) blast
  then show ?thesis
    unfolding options_ok [OF s'] using endpoint_ok [OF e] parse_stack_ok [OF st] assms(2) by (simp add: statement_ok_def)
qed

lemma output_items_length: "output_items es = Inr its \<Longrightarrow> length its = length es"
  by (induction es arbitrary: its) (auto split: if_splits sum.splits)

lemma output_stack_ok: "output_stack m = Inr st \<Longrightarrow> match_ok m \<Longrightarrow> rs_items st \<noteq> [] \<and> length (rs_items st) \<le> switch_max_labels"
  using output_items_length [of "sm_items m"] by (auto simp: output_stack_def match_ok_def split: sum.splits)

lemma switch_action_ok:
  "switch_action fmt p s = Inr (s', q) \<Longrightarrow> statement_ok fmt s \<Longrightarrow> st_type s = St_policy \<Longrightarrow> statement_ok fmt s'"
  by (auto simp: switch_action_def rbind_Inr statement_ok_def split: if_splits dest!: output_stack_ok)

lemma rbind_pairE:
  assumes "rbind r (\<lambda>(x, p). f x p) = Inr y"
  obtains x p where "r = Inr (x, p)" "f x p = Inr y"
  using assms by (auto simp: rbind_Inr)

lemma switch_statement_ok:
  assumes "switch_statement fmt p s = Inr (s', q)" "statement_ok fmt s" "st_type s = St_policy"
  shows "statement_ok fmt s'"
proof -
  from assms(1) [unfolded switch_statement_def] obtain s1 p1 s2 p2 s3 p3 where
    1: "(if has_input p then rbind (some_endpoint fmt p) (\<lambda>(e, p). Inr (s\<lparr>st_input := e\<rparr>, p)) else Inr (s, p)) = Inr (s1, p1)" and
    2: "(case eat ''to'' p1 of (to, p) \<Rightarrow> if to then rbind (some_endpoint fmt p) (\<lambda>(e, p). Inr (s1\<lparr>st_output := e\<rparr>, p)) else Inr (s1, p)) = Inr (s2, p2)" and
    3: "(if fmt = 3 \<and> fst (eat ''via'' p2) then rbind (names False (snd (eat ''via'' p2))) (\<lambda>(out, p). Inr (s2\<lparr>st_via := out\<rparr>, p)) else Inr (s2, p2)) = Inr (s3, p3)" and
    4: "switch_action fmt p3 s3 = Inr (s', q)"
    by (elim rbind_pairE) blast
  have "statement_ok fmt s1 \<and> st_type s1 = St_policy"
    using 1 assms(2,3) by (auto simp: rbind_Inr statement_ok_def split: if_splits dest: some_endpoint_ok)
  then have "statement_ok fmt s2 \<and> st_type s2 = St_policy"
    using 2 by (auto simp: rbind_Inr statement_ok_def eat_def split: if_splits dest: some_endpoint_ok)
  then have "statement_ok fmt s3 \<and> st_type s3 = St_policy"
    using 3 by (auto simp: rbind_Inr statement_ok_def split: if_splits dest: names_distinct)
  then show ?thesis
    using switch_action_ok [OF 4] by blast
qed

lemma policy_statement_ok:
  "policy_statement fmt command p s = Inr (s', bidir, q) \<Longrightarrow> statement_ok fmt s \<Longrightarrow> st_type s = St_policy \<Longrightarrow> statement_ok fmt s'"
  by (auto simp: policy_statement_def rbind_Inr options_ok eat_def split: if_splits dest!: switch_statement_ok)

lemma reverse_statement_ok:
  assumes "reverse_statement s = Inr r" "statement_ok fmt s"
  shows "statement_ok fmt r"
proof (cases "st_type s = St_forward")
  case True
  then obtain r0 where r0: "reverse_forward_rule s = Inr r0" "r = r0\<lparr>st_via := [], st_id := (if st_id r0 \<noteq> [] then st_id r0 @ ''.reverse'' else [])\<rparr>"
    using assms(1) by (auto simp: reverse_statement_def rbind_Inr)
  have keep: "st_type r0 = St_forward" "ep_match (st_output r0) = ep_match (st_output s)"
    using r0(1) True by (auto simp: reverse_forward_rule_def Let_def split: sum.splits)
  have "match_ok (ep_match (st_input r0))"
    using reverse_shape(1) [OF r0(1)] assms(2) True by (auto simp: match_ok_def statement_ok_def Suc_le_eq max_def split: if_splits)
  then show ?thesis
    using keep reverse_shape(4) [OF r0(1)] assms(2) True
    by (auto simp: r0(2) statement_ok_def match_ok_def)
next
  case False
  then show ?thesis
    using assms by (auto simp: reverse_statement_def rbind_Inr statement_ok_def)
qed

lemma append_statement_ok:
  "append_statement s ss = Inr ss' \<Longrightarrow> statement_ok fmt s \<Longrightarrow> statements_ok fmt ss \<Longrightarrow> statements_ok fmt ss'"
  by (auto simp: append_statement_def statements_ok_def list_ex_iff split: if_splits) blast

lemma append_all_ok:
  "append_all s bidir ss = Inr ss' \<Longrightarrow> statement_ok fmt s \<Longrightarrow> statements_ok fmt ss \<Longrightarrow> statements_ok fmt ss'"
  by (auto simp: append_all_def rbind_Inr split: if_splits intro: append_statement_ok reverse_statement_ok)

subsection \<open>Lines\<close>

definition rules_inv :: "switch_ruleset \<Rightarrow> bool" where
  "rules_inv rules \<longleftrightarrow> ru_format rules \<in> {1, 2, 3} \<and> statements_ok (ru_format rules) (ru_statements rules) \<and>
     distinct (map snd (ru_origins rules)) \<and> sorted_wrt (<) (map fst (ru_origins rules)) \<and> sorted_wrt (<) (map fst (ru_services rules))"

lemma set_map_insert [simp]: "set (map_insert k v m) = insert (k, v) (set m)"
  by (induction k v m rule: map_insert.induct) auto

lemma distinct_map_insert: "distinct (map snd m) \<Longrightarrow> v \<notin> snd ` set m \<Longrightarrow> distinct (map snd (map_insert k v m))"
  by (induction k v m rule: map_insert.induct) auto

lemma sorted_map_insert: "sorted_wrt (<) (map fst m) \<Longrightarrow> map_of m k = None \<Longrightarrow> sorted_wrt (<) (map fst (map_insert k v m))"
proof (induction k v m rule: map_insert.induct)
  case (2 k v k' v' m)
  then show ?case
    by (auto split: if_splits dest: less_trans)
qed simp

lemma close_service_inv: "close_service st = Inr st' \<Longrightarrow> rules_inv (pt_rules st) \<Longrightarrow> rules_inv (pt_rules st')"
  by (auto simp: close_service_def rules_inv_def sorted_map_insert Let_def split: if_splits)

lemma service_line_inv: "service_line command p st = Inr (st', q) \<Longrightarrow> rules_inv (pt_rules st) \<Longrightarrow> rules_inv (pt_rules st')"
  by (auto simp: service_line_def rbind_Inr close_service_inv split: if_splits)

lemma unat_format: "(v :: u64) = 1 \<or> v = 2 \<or> v = 3 \<Longrightarrow> unat v \<in> {1, 2, 3}"
  by auto

lemma format_line_inv: "format_line p st = Inr (st', q) \<Longrightarrow> rules_inv (pt_rules st) \<Longrightarrow> rules_inv (pt_rules st')"
proof -
  assume "format_line p st = Inr (st', q)" and inv: "rules_inv (pt_rules st)"
  then obtain t p1 where empty: "ru_statements (pt_rules st) = []"
    and body: "rbind (rules_number t) (\<lambda>v. if v \<noteq> 1 \<and> v \<noteq> 2 \<and> v \<noteq> 3 then fail ''unsupported ruleset format''
      else Inr (st\<lparr>pt_rules := (pt_rules st)\<lparr>ru_format := unat v\<rparr>, pt_format := True\<rparr>, p1)) = Inr (st', q)"
    unfolding format_line_def by (simp only: split: if_splits) (simp, elim rbind_pairE, blast)
  from body obtain v :: u64 where v: "v = 1 \<or> v = 2 \<or> v = 3" "st' = st\<lparr>pt_rules := (pt_rules st)\<lparr>ru_format := unat v\<rparr>, pt_format := True\<rparr>"
    unfolding rbind_Inr by (auto split: if_splits)
  then show ?thesis
    using unat_format [OF v(1)] inv empty by (simp add: rules_inv_def statements_ok_def)
qed

lemma serial_line_inv: "serial_line p st = Inr (st', q) \<Longrightarrow> rules_inv (pt_rules st) \<Longrightarrow> rules_inv (pt_rules st')"
  by (auto simp: serial_line_def rbind_Inr rules_inv_def split: if_splits)

lemma open_service_inv: "open_service p st = Inr (st', q) \<Longrightarrow> rules_inv (pt_rules st) \<Longrightarrow> rules_inv (pt_rules st')"
  by (auto simp: open_service_def rbind_Inr split: if_splits)

lemma origin_line_inv: "origin_line p st = Inr (st', q) \<Longrightarrow> rules_inv (pt_rules st) \<Longrightarrow> rules_inv (pt_rules st')"
  by (auto simp: origin_line_def rbind_Inr rules_inv_def distinct_map_insert sorted_map_insert Let_def split: if_splits)

lemma rbind_tripleE:
  assumes "rbind r (\<lambda>(x, y, p). f x y p) = Inr z"
  obtains x y p where "r = Inr (x, y, p)" "f x y p = Inr z"
  using assms by (auto simp: rbind_Inr)

lemma if_resultE:
  assumes "(if b then x else y) = Inr z"
  obtains "b" "x = Inr z" | "\<not> b" "y = Inr z"
  using assms by (cases b) simp_all

lemma parsed_statement_ok:
  assumes "(if command = ''exit'' \<or> command = ''trunk'' then rbind (role_statement command p s) (\<lambda>(s, p). Inr (s, False, p))
     else if command = ''label'' then rbind (mapping_statement fmt p s) (\<lambda>(s, p). Inr (s, False, p))
     else if command = ''switch'' \<or> command = ''drop'' then policy_statement fmt command p s
     else fail (''unknown directive: '' @ command)) = Inr (s', bidir, q)"
    and s: "s = statement_init\<lparr>st_line := number\<rparr>"
  shows "statement_ok fmt s'"
proof -
  have init: "statement_ok fmt s" "st_type s = St_policy"
    by (simp_all only: s statement_init_ok) (simp add: statement_init_def)
  consider "rbind (role_statement command p s) (\<lambda>(s, p). Inr (s, False, p)) = Inr (s', bidir, q)"
    | "rbind (mapping_statement fmt p s) (\<lambda>(s, p). Inr (s, False, p)) = Inr (s', bidir, q)"
    | "policy_statement fmt command p s = Inr (s', bidir, q)"
    using assms(1) by (elim if_resultE) (assumption | simp only: sum.distinct)+
  then show ?thesis
  proof cases
    case 1
    then show ?thesis
      using role_statement_ok [OF _ init(1)] by (elim rbind_pairE) simp
  next
    case 2
    then show ?thesis
      using mapping_statement_ok [OF _ init(1)] by (elim rbind_pairE) simp
  next
    case 3
    then show ?thesis
      using init by (rule policy_statement_ok)
  qed
qed

lemma statement_line_inv:
  assumes "statement_line number command p st = Inr (st', q)" "rules_inv (pt_rules st)"
  shows "rules_inv (pt_rules st')"
proof -
  let ?fmt = "ru_format (pt_rules st)" and ?s = "statement_init\<lparr>st_line := number\<rparr>"
  let ?parsed = "if command = ''exit'' \<or> command = ''trunk'' then rbind (role_statement command p ?s) (\<lambda>(s, p). Inr (s, False, p))
     else if command = ''label'' then rbind (mapping_statement ?fmt p ?s) (\<lambda>(s, p). Inr (s, False, p))
     else if command = ''switch'' \<or> command = ''drop'' then policy_statement ?fmt command p ?s
     else fail (''unknown directive: '' @ command)"
  show ?thesis
    using assms(1) [unfolded statement_line_def Let_def]
  proof (elim if_resultE)
    assume "rbind ?parsed (\<lambda>(s, bidir, p). rbind (append_all s bidir (ru_statements (pt_rules st))) (\<lambda>ss.
          Inr (st\<lparr>pt_rules := (pt_rules st)\<lparr>ru_statements := ss\<rparr>\<rparr>, p))) = Inr (st', q)"
    then obtain s bidir p1 where parsed: "?parsed = Inr (s, bidir, p1)"
      and rest: "rbind (append_all s bidir (ru_statements (pt_rules st))) (\<lambda>ss. Inr (st\<lparr>pt_rules := (pt_rules st)\<lparr>ru_statements := ss\<rparr>\<rparr>, p1)) = Inr (st', q)"
      by (elim rbind_tripleE)
    obtain ss where ss: "append_all s bidir (ru_statements (pt_rules st)) = Inr ss" "st' = st\<lparr>pt_rules := (pt_rules st)\<lparr>ru_statements := ss\<rparr>\<rparr>"
      using rest by (auto simp: rbind_Inr)
    show ?thesis
      using append_all_ok [OF ss(1) parsed_statement_ok [OF parsed refl]] assms(2) by (simp add: ss(2) rules_inv_def)
  qed (simp, erule open_service_inv [OF _ assms(2)], erule origin_line_inv [OF _ assms(2)])
qed

lemma parse_tokens_inv:
  assumes "parse_tokens number p st = Inr st'" "rules_inv (pt_rules st)"
  shows "rules_inv (pt_rules st')"
proof (cases p)
  case (Cons command p1)
  from assms(1) show ?thesis
    unfolding parse_tokens_def Cons list.case
  proof (elim rbind_pairE if_resultE)
  qed (auto intro: service_line_inv [OF _ assms(2)] format_line_inv [OF _ assms(2)] serial_line_inv [OF _ assms(2)] statement_line_inv [OF _ assms(2)])
qed (use assms in \<open>simp add: parse_tokens_def\<close>)

text \<open>Every line is scanned, so the parser returns.\<close>

lemma parse_lines_returns:
  assumes "rules_inv (pt_rules st)"
  shows "\<exists>r. parse_lines number lines st = Some r \<and> (\<forall>st'. r = Inr st' \<longrightarrow> rules_inv (pt_rules st'))"
  using assms
proof (induction lines arbitrary: number st)
  case (Cons line lines)
  obtain r where r: "RulesLine line (ru_format (pt_rules st) \<ge> 2) = Some r"
    using tokens_v2_returns [of line "[]"] by (cases "ru_format (pt_rules st) \<ge> 2") (auto simp: RulesLine_def)
  show ?case
  proof (cases "rbind r (\<lambda>p. parse_tokens (number + 1) p st)")
    case (Inl e)
    then show ?thesis
      by (cases e) (simp_all add: r at_line_def)
  next
    case (Inr st1)
    then have "rules_inv (pt_rules st1)"
      using Cons.prems parse_tokens_inv by (auto simp: rbind_Inr)
    from Cons.IH [OF this] Inr show ?thesis
      by (simp add: r at_line_def)
  qed
qed simp

subsection \<open>Accepted rulesets\<close>

definition ruleset_ok :: "switch_ruleset \<Rightarrow> bool" where
  "ruleset_ok rules \<longleftrightarrow> rules_inv rules \<and>
     (\<forall>s \<in> set (ru_statements rules). st_type s \<noteq> St_capture \<and>
        (st_via s \<noteq> [] \<longrightarrow> st_type s = St_forward \<and> set (st_via s) \<subseteq> fst ` set (ru_services rules)) \<and>
        (\<forall>t \<in> set (ru_statements rules). st_type s = St_exit \<and> st_type t = St_trunk \<longrightarrow> \<not> roles_overlap s t)) \<and>
     (\<exists>text. ruleset_text rules = Inr text \<and> length text \<le> ruleset_max_bytes)"

lemma check_statement_Inr:
  assumes "check_statement rules s = Inr u"
  shows "st_type s \<noteq> St_capture \<and> (st_via s \<noteq> [] \<longrightarrow> st_type s = St_forward \<and> set (st_via s) \<subseteq> fst ` set (ru_services rules)) \<and>
    (\<forall>t \<in> set (ru_statements rules). st_type s = St_exit \<and> st_type t = St_trunk \<longrightarrow> \<not> roles_overlap s t)"
proof -
  have "find (\<lambda>name. map_of (ru_services rules) name = None) (st_via s) = None"
    using assms by (auto simp: check_statement_def split: if_splits option.splits)
  then have "set (st_via s) \<subseteq> fst ` set (ru_services rules)"
    by (auto simp: find_None_iff map_of_eq_None_iff)
  then show ?thesis
    using assms by (auto simp: check_statement_def list_ex_iff split: if_splits option.splits)
qed

lemma check_statements_Inr: "check_statements rules ss = Inr u \<Longrightarrow> s \<in> set ss \<Longrightarrow> \<exists>v. check_statement rules s = Inr v"
  by (induction ss) (auto simp: rbind_Inr)

lemma finish_ruleset_ok:
  assumes "finish_ruleset st = Inr rules" "rules_inv (pt_rules st)"
  shows "ruleset_ok rules"
proof -
  have rules: "rules = pt_rules st" "check_statements rules (ru_statements rules) = Inr ()"
    "\<exists>text. ruleset_text rules = Inr text \<and> length text \<le> ruleset_max_bytes"
    using assms(1) by (auto simp: finish_ruleset_def rbind_Inr split: if_splits)
  have "\<exists>v. check_statement rules s = Inr v" if "s \<in> set (ru_statements rules)" for s
    using check_statements_Inr [OF rules(2) that] .
  then show ?thesis
    using check_statement_Inr rules(1,3) assms(2) unfolding ruleset_ok_def by blast
qed

lemma rules_inv_init: "rules_inv (pt_rules parse_init)"
  by (simp add: rules_inv_def parse_init_def ruleset_init_def statements_ok_def ruleset_max_statements_def)

lemma statement_ok_apply: "statement_ok fmt s \<Longrightarrow> length L \<le> switch_max_labels \<Longrightarrow> stack_apply (st_stack s) L \<noteq> None"
  by (simp add: stack_apply_eq statement_ok_def)

text \<open>
  C7. Parsing a ruleset returns on every text, and what it accepts is well formed: a format 1,
  2 or 3, at most 4096 statements also after the expansion of bidirectional rules, no identifier
  used twice, matches and stacks of one to eight elements, mappings only in format 1 and
  forwarding rules only in the later ones, no capture rule, services only on forwarding rules
  and only services the file defines, no port that is both exit and trunk, distinct origin
  identifiers, and a canonical text of at most 1 MiB. Rewriting a frame of at most eight
  labels by any of its statements then never writes outside the array of eight labels.
\<close>

theorem ruleset_safe:
  "\<exists>r. parse_switch_ruleset source = Some r \<and>
     (\<forall>rules. r = Inr rules \<longrightarrow> ruleset_ok rules \<and>
       (\<forall>s \<in> set (ru_statements rules). \<forall>L. length L \<le> switch_max_labels \<longrightarrow> stack_apply (st_stack s) L \<noteq> None))"
proof (cases "length source > ruleset_max_bytes")
  case True
  then show ?thesis
    by (simp add: parse_switch_ruleset_def)
next
  case False
  obtain r where r: "parse_lines 0 (getlines [] source) parse_init = Some r" "\<forall>st. r = Inr st \<longrightarrow> rules_inv (pt_rules st)"
    using parse_lines_returns [OF rules_inv_init] by blast
  then have parse: "parse_switch_ruleset source = Some (rbind r finish_ruleset)"
    using False by (simp add: parse_switch_ruleset_def)
  have ok: "ruleset_ok rules" if "rbind r finish_ruleset = Inr rules" for rules
    using that r(2) finish_ruleset_ok unfolding rbind_Inr by blast
  have "stack_apply (st_stack s) L \<noteq> None" if "ruleset_ok rules" "s \<in> set (ru_statements rules)" "length L \<le> switch_max_labels" for rules s L
    using statement_ok_apply [of "ru_format rules" s L] that by (auto simp: ruleset_ok_def rules_inv_def statements_ok_def list_all_iff)
  with parse ok show ?thesis
    by blast
qed

text \<open>
  A ruleset of format 2 with one bidirectional rule from \<open>a\<close> with the stack \<open>[5]\<close> to \<open>b\<close> with the
  stack \<open>[9]\<close>, which expands to two statements.
\<close>

abbreviation exact :: "u64 \<Rightarrow> rule_element" where
  "exact v \<equiv> \<lparr>el_kind = Kind_exact, el_value = v, el_upper = 0\<rparr>"

definition sample_headers :: parse_state where
  "sample_headers = parse_init\<lparr>pt_rules := ruleset_init\<lparr>ru_format := 2, ru_serial := 1\<rparr>, pt_format := True, pt_serial := True\<rparr>"

definition sample_forward :: rule_statement where
  "sample_forward = statement_init\<lparr>st_line := 3, st_type := St_forward, st_allow := True,
     st_input := endpoint_init\<lparr>ep_port := ''a'', ep_match := \<lparr>sm_items = [exact 5], sm_rest = False\<rparr>\<rparr>,
     st_output := endpoint_init\<lparr>ep_port := ''b'', ep_match := \<lparr>sm_items = [exact 9], sm_rest = False\<rparr>\<rparr>,
     st_stack := \<lparr>rs_items = [\<lparr>si_keep = False, si_value = 9\<rparr>], rs_rest = False\<rparr>\<rparr>"

definition sample_reverse :: rule_statement where
  "sample_reverse = statement_init\<lparr>st_line := 3, st_type := St_forward, st_allow := True,
     st_input := endpoint_init\<lparr>ep_port := ''b'', ep_match := \<lparr>sm_items = [exact 9], sm_rest = False\<rparr>\<rparr>,
     st_output := endpoint_init\<lparr>ep_port := ''a'', ep_match := \<lparr>sm_items = [exact 9], sm_rest = False\<rparr>\<rparr>,
     st_stack := \<lparr>rs_items = [\<lparr>si_keep = False, si_value = 5\<rparr>], rs_rest = False\<rparr>\<rparr>"

definition sample_rules :: switch_ruleset where
  "sample_rules = ruleset_init\<lparr>ru_format := 2, ru_serial := 1, ru_statements := [sample_forward, sample_reverse]\<rparr>"

lemmas line_defs = rbind_def take_token_def need_def eat_def peek_def

lemma sample_tokens:
  "RulesLine ''format 2'' False = Some (Inr [''format'', ''2''])"
  "RulesLine ''serial 1'' True = Some (Inr [''serial'', ''1''])"
  "RulesLine ''switch a,[5] to b,[9] allow bidir'' True =
     Some (Inr [''switch'', ''a'', '','', ''['', ''5'', '']'', ''to'', ''b'', '','', ''['', ''9'', '']'', ''allow'', ''bidir''])"
  by (simp_all add: RulesLine_def tokens_v1_def tokens_v2_list scan_token_def blank_def separator_def punctuation_v1_def punctuation_v2_def)

lemma sample_literals:
  "rules_number ''2'' = Inr 2" "rules_number ''1'' = Inr 1" "rules_label_value ''5'' = Inr 5" "rules_label_value ''9'' = Inr 9"
  "rules_port ''a'' = Inr ()" "rules_port ''b'' = Inr ()"
  by (simp_all add: rules_number_def decimal_digit_def rules_label_value_def rules_port_def encode_switch_registration_def
      validate_port_wildcard_def switch_sizes port_byte_def byte_of_char_def)

lemma sample_header_lines:
  "parse_tokens 1 [''format'', ''2''] parse_init = Inr (parse_init\<lparr>pt_rules := ruleset_init\<lparr>ru_format := 2\<rparr>, pt_format := True\<rparr>)"
  "parse_tokens 2 [''serial'', ''1''] (parse_init\<lparr>pt_rules := ruleset_init\<lparr>ru_format := 2\<rparr>, pt_format := True\<rparr>) = Inr sample_headers"
  by (simp_all add: parse_tokens_def format_line_def serial_line_def line_defs sample_literals parse_init_def ruleset_init_def sample_headers_def)

lemma sample_endpoints:
  "endpoint_v2 (''a'' # '','' # ''['' # ''5'' # '']'' # r) = Inr (endpoint_init\<lparr>ep_port := ''a'', ep_match := \<lparr>sm_items = [exact 5], sm_rest = False\<rparr>\<rparr>, r)"
  "endpoint_v2 (''b'' # '','' # ''['' # ''9'' # '']'' # r) = Inr (endpoint_init\<lparr>ep_port := ''b'', ep_match := \<lparr>sm_items = [exact 9], sm_rest = False\<rparr>\<rparr>, r)"
  by (simp_all add: endpoint_v2_def parse_stack_match_def stack_match_loop.simps element_def label_literal_def sample_literals line_defs switch_sizes)

lemma sample_policy:
  "policy_statement 2 ''switch'' [''a'', '','', ''['', ''5'', '']'', ''to'', ''b'', '','', ''['', ''9'', '']'', ''allow'', ''bidir'']
     (statement_init\<lparr>st_line := 3\<rparr>) = Inr (sample_forward, True, [])"
  by (simp add: policy_statement_def switch_statement_def switch_action_def has_input_def some_endpoint_def sample_endpoints options_def
      line_defs output_stack_def sample_forward_def statement_init_def)

lemma sample_append: "append_all sample_forward True [] = Inr [sample_forward, sample_reverse]"
proof -
  have "reverse_statement sample_forward = Inr sample_reverse"
    by (simp add: reverse_statement_def reverse_forward_rule_def sample_forward_def sample_reverse_def rbind_def statement_init_def)
  then show ?thesis
    by (simp add: append_all_def append_statement_def rbind_def ruleset_max_statements_def)
       (simp add: sample_forward_def sample_reverse_def statement_init_def)
qed

lemma sample_rule_line:
  "parse_tokens 3 [''switch'', ''a'', '','', ''['', ''5'', '']'', ''to'', ''b'', '','', ''['', ''9'', '']'', ''allow'', ''bidir''] sample_headers =
     Inr (sample_headers\<lparr>pt_rules := sample_rules\<rparr>)"
  using sample_policy sample_append
  by (simp add: parse_tokens_def statement_line_def sample_headers_def sample_rules_def parse_init_def ruleset_init_def rbind_def)

lemma sample_text: "\<exists>t. ruleset_text sample_rules = Inr t \<and> length t \<le> 200"
proof -
  have numbers: "to_string 1 = ''1''" "to_string 2 = ''2''" "to_string 5 = ''5''" "to_string 9 = ''9''"
    by code_simp+
  have "statement_text 2 sample_forward = Inr ''switch a, [5] to b, [9] allow''" "statement_text 2 sample_reverse = Inr ''switch b, [9] to a, [5] allow''"
    by (simp_all add: sample_forward_def sample_reverse_def statement_init_def statement_text_def statement_text_v2_def Let_def endpoint_text_v2_def
        unrestricted_def stack_match_text_def element_text_def stack_identity_def stack_text_def numbers)
  then show ?thesis
    by (simp add: ruleset_text_def sample_rules_def ruleset_init_def numbers numbers(1) [unfolded One_nat_def])
qed

lemma sample_finish: "finish_ruleset (sample_headers\<lparr>pt_rules := sample_rules\<rparr>) = Inr sample_rules"
proof -
  have "check_statements sample_rules [sample_forward, sample_reverse] = Inr ()"
    by (simp add: check_statement_def rbind_def sample_forward_def sample_reverse_def statement_init_def)
  moreover have "ru_statements sample_rules = [sample_forward, sample_reverse]"
    by (simp add: sample_rules_def)
  ultimately show ?thesis
    using sample_text by (auto simp: finish_ruleset_def sample_headers_def parse_init_def rbind_def ruleset_max_bytes_def)
qed

theorem ruleset_safe_witness:
  "\<exists>rules. parse_switch_ruleset (''format 2'' @ [CHR 0x0A] @ ''serial 1'' @ [CHR 0x0A] @ ''switch a,[5] to b,[9] allow bidir'') = Some (Inr rules) \<and>
     length (ru_statements rules) = 2 \<and> ruleset_ok rules"
proof -
  let ?source = "''format 2'' @ [CHR 0x0A] @ ''serial 1'' @ [CHR 0x0A] @ ''switch a,[5] to b,[9] allow bidir''"
  have lines: "getlines [] ?source = [''format 2'', ''serial 1'', ''switch a,[5] to b,[9] allow bidir'']"
    by simp
  have formats: "ru_format (pt_rules parse_init) = 1" "ru_format (pt_rules sample_headers) = 2"
    by (simp_all add: parse_init_def ruleset_init_def sample_headers_def)
  have "parse_lines 0 [''format 2'', ''serial 1'', ''switch a,[5] to b,[9] allow bidir''] parse_init = Some (Inr (sample_headers\<lparr>pt_rules := sample_rules\<rparr>))"
    using sample_header_lines sample_rule_line sample_tokens
    by (simp add: at_line_def rbind_def formats numeral_2_eq_2 numeral_3_eq_3)
  then have "parse_switch_ruleset ?source = Some (Inr sample_rules)"
    unfolding parse_switch_ruleset_def lines by (simp add: rbind_def sample_finish ruleset_max_bytes_def)
  then show ?thesis
    using ruleset_safe [of ?source] by (simp add: sample_rules_def)
qed

end
