(* ===== verification/Spec2Isabelle.thy ===== *)
theory Spec2Isabelle
  imports Reassembly_Correct Session_Init Session_Delivery Info Extension_Correct Auth Relocation Ip Ip_Flow Siphash
    Udp_Tx_Queue Transport Switch_Handshake Ecmp Ruleset_Safe
begin

text \<open>
  \<^bold>\<open>A verification library for tuntom.\<close>

  tuntom is a user-space tunnel and label switch. Two peers exchange authenticated UDP
  datagrams (protocol version 5) that carry IP packets, and on each host a switch moves
  packets with stacks of 64-bit labels between local processes over Unix sockets and shared
  memory. The sources are C++ headers under \<open>src/src/\<close>. This library models their
  computational core and proves what makes it correct; a property is named by its claim id
  (C1, C2, ...) in the text before its theorem.

  \<^bold>\<open>How the code is modelled.\<close> Bytes are \<open>8 word\<close> and buffers are lists of them; the unsigned
  integers of the sources are words of their width, so their arithmetic wraps; \<open>std::size_t\<close>
  counts are \<open>nat\<close>; time points are integers in nanoseconds. A class is a record and its
  methods are functions from the old to the new record. An exception is a value \<open>Inl\<close> of type
  \<open>error\<close> with the class and the message of the source. A read or write outside an array is
  \<open>None\<close>, so memory safety is a theorem and not an assumption. Hash maps are association
  lists. What the system returns (clocks, random bytes, results of socket calls, success of a
  memory mapping, the X25519 function) is an argument, and what is sent is returned. Loops are
  recursive functions. The \<open>while\<close> loops of the reassembler run with fuel, one step more than
  the entries they walk; running out is \<open>None\<close>, and the invariant of Reassembly_Invariant shows
  that it does not happen. The digits of \<open>std::to_string\<close> (Stack_Match) use \<open>n + 1\<close> steps for
  the number \<open>n\<close>. The scanner of rule lines is a \<open>partial_function\<close> and is proved to return.

  \<^bold>\<open>The tunnel.\<close>
  \<^item> Prelude and Wire: machine types, slices, and the big- and little-endian integers of
    \<open>wire.hpp\<close>, with their round trips.
  \<^item> Replay: \<open>SequenceGenerator\<close> and \<open>ReplayWindow\<close> of \<open>replay.hpp\<close>. The sorted array with its
    shift loop refines a set of accepted sequences (C4), and never accepts one twice. The
    locale \<open>replay_filter\<close> is the interface the session and the metadata snapshots rely on; it
    is interpreted on the window, on the peer information snapshot (Info) and on the INIT
    filter of a server (Session_Init).
  \<^item> Packet and Fragmentation: \<open>packet_types.hpp\<close>, \<open>fragmentation.hpp\<close>, and the fragment loop
    of \<open>Tunnel::send_data\<close>: the plan covers the packet exactly with pieces that fit.
  \<^item> Reassembly, Reassembly_Invariant and Reassembly_Correct: the \<open>Reassembler\<close> of
    \<open>reassembly.hpp\<close> with its pool, arrival and activity orders, discard list, expiry and
    eviction. The invariant bounds the memory whatever the peer sends; the fragments of a
    packet in any order give the packet (C5), and no fragment mixture gives another one (C6).
  \<^item> Ascon: the permutation, AEAD, MAC and key derivation of \<open>ascon.hpp\<close> and \<open>akdf.hpp\<close>.
    Opening succeeds exactly on what sealing produced (C9). Secrecy and unforgeability are
    computational and are not stated.
  \<^item> Info: the key=value codec of \<open>info_codec.hpp\<close> and the snapshots of peer information.
  \<^item> Protocol and Protocol_Correct: \<open>ProtocolV5\<close> of \<open>protocol.hpp\<close>. A datagram decodes exactly
    when it is the encoding of a canonical packet under the peer's keys (C8), and fits the MTU.
  \<^item> Session, Session_Correct, Session_Run, Session_Init, Session_Delivery: \<open>SessionProtocol\<close>
    of \<open>session.hpp\<close>. Both ends of a handshake derive the same session (C1); over any run of
    operations no sequence is sealed twice under the same keys (C2); what is delivered
    was authenticated and is fresh (C3); a datagram sent is delivered (C11); a server answers
    an INIT once (C12).
  \<^item> Codec, Extension, Extension_Correct, Auth, Relocation: the messages of
    \<open>v5_extension.hpp\<close>, the state machine of \<open>v5_auth_state.hpp\<close> as an inductive step
    relation, and the one-shot tickets of \<open>relocation.hpp\<close>. The locale \<open>message_codec\<close> (a
    decoder that is exactly the inverse of its encoder on valid values) is interpreted on every
    extension message and on the two switch codecs.
  \<^item> Ip and Ip_Flow: checksum and hop compensation of \<open>ip.hpp\<close>, and the parser of
    \<open>ip_flow.hpp\<close>, which reads inside the packet on any bytes.
  \<^item> Ring and Udp_Tx_Queue: the transmit queue of \<open>udp_tx_queue.hpp\<close>. The locale
    \<open>ordered_queue\<close> is interpreted on it and on the retry queue of the switch.

  \<^bold>\<open>The switch.\<close>
  \<^item> Siphash and Ecmp: \<open>vendor/siphash.hpp\<close>, proved equal to SipHash-2-4 on the padded words,
    and the choice of a member of \<open>switch_ecmp.hpp\<close>.
  \<^item> Switch_Protocol and Switch_V2: frames of \<open>ipc/switch_protocol.hpp\<close> and the negotiation and
    reference records of \<open>ipc/switch_v2.hpp\<close>.
  \<^item> Retry_Queue: \<open>ipc/retry_queue.hpp\<close>.
  \<^item> Transport: the slots of \<open>ipc/switch_mmap.hpp\<close> and the sends and receives of
    \<open>ipc/switch_transport.hpp\<close>. Frames accepted by a send are received in order, inline or
    through shared slots, and no slot leaks (C10).
  \<^item> Switch_Handshake: \<open>ipc/switch_handshake.hpp\<close> and the setup of \<open>switch_client.hpp\<close>, run
    against each other: registration completes and both ends agree (C15).
  \<^item> Stack_Match and Routes: \<open>switch_stack_match.hpp\<close> and \<open>switch_routes.hpp\<close>.
  \<^item> Ruleset, Ruleset_Parser, Ruleset_Correct, Ruleset_Safe: \<open>switch_ruleset.hpp\<close>. The parser
    returns on every text and what it accepts is well formed, so that rewriting stays inside
    its array of eight labels (C7); a compiled program decides as the first rule of the file
    that applies (C13); the reverse of a rule restores the labels (C14).

  \<^bold>\<open>Not modelled.\<close> The event loops of the tunnel, the switches and the adapters, with their
  sockets, devices, threads and atomics; the arithmetic of the vendored X25519; control
  sockets, command lines, logging and the text of the statistics; service diversion and
  relaying, which are built on the event loops and on memory shared between processes; the
  packet classifier and the flow cache of the adapter; reading of files and environment
  variables; deployment scripts, the fabric server, experiments and tests. Of the transport
  and the switch client, the staged appends that interleave the retry queue with the slots are
  left out. Wiping of secrets is not observable in the model.
\<close>

end
